(* ===== verification/Prelude.thy ===== *)
theory Prelude
  imports Main "HOL-Library.Word"
begin

text \<open>
  Shared vocabulary of the development: names for Rust's machine integers, the
  \<open>Result\<close> type with Rust's \<open>?\<close> operator, big-endian byte conversion, and the two
  operations every wire format of the repository is written with, copying a slice into a
  buffer and reading a slice out of one. The \<open>wire\<close> collection carries the lemmas on
  buffers, the \<open>res\<close> collection those on results.
\<close>

named_theorems wire \<open>lemmas on byte buffers, slices and big-endian integers\<close>
named_theorems res \<open>lemmas on results and the question-mark operator\<close>

unbundle bit_operations_syntax

type_synonym u8 = "8 word"
type_synonym u16 = "16 word"
type_synonym u32 = "32 word"
type_synonym u64 = "64 word"
type_synonym i8 = "8 word"
type_synonym i32 = "32 word"
type_synonym i64 = "64 word"
type_synonym bytes = "u8 list"

section \<open>Results\<close>

text \<open>\<open>Result<T, E>\<close> is \<open>'e + 'a\<close>, with \<open>Inl\<close> for \<open>Err\<close>. \<open>try_bind\<close> is Rust's
  \<open>?\<close>: it returns the error early and otherwise continues with the value.\<close>

definition try_bind :: "'e + 'a \<Rightarrow> ('a \<Rightarrow> 'e + 'b) \<Rightarrow> 'e + 'b" where
  "try_bind r k = (case r of Inl e \<Rightarrow> Inl e | Inr v \<Rightarrow> k v)"

definition map_err :: "('e \<Rightarrow> 'f) \<Rightarrow> 'e + 'a \<Rightarrow> 'f + 'a" where
  "map_err f r = (case r of Inl e \<Rightarrow> Inl (f e) | Inr v \<Rightarrow> Inr v)"

definition is_ok :: "'e + 'a \<Rightarrow> bool" where
  "is_ok r = (case r of Inl _ \<Rightarrow> False | Inr _ \<Rightarrow> True)"

definition ok_or :: "'a option \<Rightarrow> 'e \<Rightarrow> 'e + 'a" where
  "ok_or x e = (case x of None \<Rightarrow> Inl e | Some v \<Rightarrow> Inr v)"

text \<open>A \<open>for\<close> loop whose body ends in \<open>?\<close>: it threads the state through the body and stops at
  the first error.\<close>

fun try_fold :: "('s \<Rightarrow> 'a \<Rightarrow> 'e + 's) \<Rightarrow> 's \<Rightarrow> 'a list \<Rightarrow> 'e + 's" where
  "try_fold f s [] = Inr s"
| "try_fold f s (x # xs) = try_bind (f s x) (\<lambda>s'. try_fold f s' xs)"

section \<open>Big-endian integers\<close>

text \<open>\<open>to_be_bytes n w\<close> is \<open>w.to_be_bytes()\<close> for an integer of \<open>n\<close> bytes;
  \<open>from_be_bytes\<close> is the associated constructor.\<close>

fun be_of_nat :: "nat \<Rightarrow> nat \<Rightarrow> bytes" where
  "be_of_nat 0 v = []"
| "be_of_nat (Suc n) v = be_of_nat n (v div 256) @ [of_nat v]"

definition nat_of_be :: "bytes \<Rightarrow> nat" where
  "nat_of_be bs = foldl (\<lambda>acc b. acc * 256 + unat b) 0 bs"

definition to_be_bytes :: "nat \<Rightarrow> 'a::len word \<Rightarrow> bytes" where
  "to_be_bytes n w = be_of_nat n (unat w)"

definition from_be_bytes :: "bytes \<Rightarrow> 'a::len word" where
  "from_be_bytes bs = of_nat (nat_of_be bs)"

section \<open>Buffers\<close>

text \<open>\<open>buf[i..i + src.len()].copy_from_slice(src)\<close> and \<open>bytes[a..b]\<close>; every use in the
  source is at constant positions inside the buffer.\<close>

definition copy_at :: "nat \<Rightarrow> 'a list \<Rightarrow> 'a list \<Rightarrow> 'a list" where
  "copy_at i src buf = take i buf @ src @ drop (i + length src) buf"

definition sub_slice :: "nat \<Rightarrow> nat \<Rightarrow> 'a list \<Rightarrow> 'a list" where
  "sub_slice a b xs = take (b - a) (drop a xs)"

text \<open>A byte-string literal \<open>b"..."\<close> of the source.\<close>

definition ascii :: "string \<Rightarrow> bytes" where
  "ascii s = map (\<lambda>c. of_nat (of_char c)) s"

section \<open>Lemmas on results\<close>

lemma try_bind_simps [simp, res]:
  "try_bind (Inl e) k = Inl e" "try_bind (Inr v) k = k v"
  by (simp_all add: try_bind_def)

lemma try_bind_eq_Inr [res]:
  "try_bind r k = Inr w \<longleftrightarrow> (\<exists>v. r = Inr v \<and> k v = Inr w)"
  by (cases r) auto

lemma try_bind_eq_Inl [res]:
  "try_bind r k = Inl e \<longleftrightarrow> r = Inl e \<or> (\<exists>v. r = Inr v \<and> k v = Inl e)"
  by (cases r) auto

lemma map_err_simps [simp, res]:
  "map_err f (Inl e) = Inl (f e)" "map_err f (Inr v) = Inr v"
  by (simp_all add: map_err_def)

lemma map_err_eq_Inr [res]: "map_err f r = Inr v \<longleftrightarrow> r = Inr v"
  by (cases r) auto

lemma map_err_eq_Inl [res]: "map_err f r = Inl e \<longleftrightarrow> (\<exists>d. r = Inl d \<and> e = f d)"
  by (cases r) auto

lemma is_ok_simps [simp, res]: "\<not> is_ok (Inl e)" "is_ok (Inr v)"
  by (simp_all add: is_ok_def)

lemma is_ok_iff: "is_ok r \<longleftrightarrow> (\<exists>v. r = Inr v)"
  by (cases r) auto

lemma ok_or_simps [simp, res]: "ok_or None e = Inl e" "ok_or (Some v) e = Inr v"
  by (simp_all add: ok_or_def)

lemma try_fold_append:
  "try_fold f s (xs @ ys) = try_bind (try_fold f s xs) (\<lambda>s'. try_fold f s' ys)"
proof (induction xs arbitrary: s)
  case (Cons x xs)
  then show ?case by (cases "f s x") simp_all
qed simp

lemma try_fold_invariant:
  assumes "\<And>s x. P s \<Longrightarrow> x \<in> set xs \<Longrightarrow> \<exists>s'. f s x = Inr s' \<and> P s'" and "P s"
  shows "\<exists>s'. try_fold f s xs = Inr s' \<and> P s'"
  using assms
proof (induction xs arbitrary: s)
  case (Cons x xs)
  from Cons.prems obtain s1 where "f s x = Inr s1" "P s1" by (meson list.set_intros(1))
  with Cons.IH [of s1] Cons.prems(1) show ?case by (metis list.set_intros(2) try_bind_simps(2) try_fold.simps(2))
qed simp

section \<open>Lemmas on big-endian integers\<close>

lemma unat_less_pow: "unat (w :: 'a::len word) < 2 ^ LENGTH('a)"
  by (rule unsigned_less)

lemma length_be_of_nat [simp]: "length (be_of_nat n v) = n"
  by (induction n v rule: be_of_nat.induct) auto

lemma length_to_be_bytes [simp, wire]: "length (to_be_bytes n w) = n"
  by (simp add: to_be_bytes_def)

lemma nat_of_be_Nil [simp]: "nat_of_be [] = 0"
  by (simp add: nat_of_be_def)

lemma nat_of_be_snoc [simp]: "nat_of_be (bs @ [b]) = nat_of_be bs * 256 + unat b"
  by (simp add: nat_of_be_def)

lemma unat_of_nat_u8: "unat (of_nat v :: u8) = v mod 256"
  by (simp add: unat_of_nat)

lemma nat_of_be_of_nat: "nat_of_be (be_of_nat n v) = v mod 256 ^ n"
proof (induction n v rule: be_of_nat.induct)
  case (1 v)
  then show ?case by simp
next
  case (2 n v)
  then show ?case
    by (simp add: unat_of_nat_u8 mod_mult2_eq ac_simps)
qed

lemma nat_of_be_less: "nat_of_be bs < 256 ^ length bs"
proof (induction bs rule: rev_induct)
  case Nil
  then show ?case by simp
next
  case (snoc b bs)
  have "unat b < 256" using unat_less_pow [of b] by simp
  moreover from snoc have "nat_of_be bs + 1 \<le> 256 ^ length bs" by simp
  then have "(nat_of_be bs + 1) * 256 \<le> 256 ^ length bs * 256" by (rule mult_le_mono1)
  ultimately show ?case by simp
qed

lemma be_of_nat_of_be: "be_of_nat (length bs) (nat_of_be bs) = bs"
proof (induction bs rule: rev_induct)
  case Nil
  then show ?case by simp
next
  case (snoc b bs)
  have b: "unat b < 256" using unat_less_pow [of b] by simp
  have "unat (of_nat (nat_of_be bs * 256 + unat b) :: u8) = unat b"
    using b by (simp only: unat_of_nat_u8) simp
  then have "of_nat (nat_of_be bs * 256 + unat b) = b" by (simp only: word_unat_eq_iff)
  moreover have "(nat_of_be bs * 256 + unat b) div 256 = nat_of_be bs" using b by simp
  ultimately show ?case using snoc by simp
qed

lemma be_of_nat_inj:
  "be_of_nat n u = be_of_nat n v \<Longrightarrow> u < 256 ^ n \<Longrightarrow> v < 256 ^ n \<Longrightarrow> u = v"
  by (metis mod_less nat_of_be_of_nat)

lemma from_to_be_bytes [simp, wire]:
  fixes w :: "'a::len word"
  assumes "LENGTH('a) = 8 * n"
  shows "from_be_bytes (to_be_bytes n w) = w"
proof -
  have "unat w < 256 ^ n"
    using unat_less_pow [of w] assms by (simp add: power_mult)
  then show ?thesis
    by (simp add: from_be_bytes_def to_be_bytes_def nat_of_be_of_nat)
qed

lemma to_from_be_bytes [wire]:
  assumes "LENGTH('a::len) = 8 * length bs"
  shows "to_be_bytes (length bs) (from_be_bytes bs :: 'a word) = bs"
proof -
  have "nat_of_be bs < 2 ^ LENGTH('a)"
    using nat_of_be_less [of bs] assms by (simp add: power_mult)
  then have "unat (from_be_bytes bs :: 'a word) = nat_of_be bs"
    by (simp add: from_be_bytes_def unat_of_nat)
  then show ?thesis by (simp add: to_be_bytes_def be_of_nat_of_be)
qed

lemma to_be_bytes_inj:
  fixes v w :: "'a::len word"
  assumes "LENGTH('a) = 8 * n" and "to_be_bytes n v = to_be_bytes n w"
  shows "v = w"
  using assms from_to_be_bytes by metis

section \<open>Lemmas on buffers\<close>

lemma length_copy_at [simp, wire]:
  "i + length src \<le> length buf \<Longrightarrow> length (copy_at i src buf) = length buf"
  by (simp add: copy_at_def)

lemma length_sub_slice [simp, wire]: "b \<le> length xs \<Longrightarrow> length (sub_slice a b xs) = b - a"
  by (simp add: sub_slice_def)

lemma sub_slice_copy_at_same [wire]:
  "i + length src \<le> length buf \<Longrightarrow> sub_slice i (i + length src) (copy_at i src buf) = src"
  by (simp add: copy_at_def sub_slice_def)

lemma nth_copy_at [wire]:
  assumes "i + length src \<le> length buf" and "k < length buf"
  shows "copy_at i src buf ! k =
    (if i \<le> k \<and> k < i + length src then src ! (k - i) else buf ! k)"
  using assms by (auto simp: copy_at_def nth_append)

lemma sub_slice_eqI:
  assumes "b \<le> length xs" and "b \<le> length ys" and "\<And>k. a \<le> k \<Longrightarrow> k < b \<Longrightarrow> xs ! k = ys ! k"
  shows "sub_slice a b xs = sub_slice a b ys"
  using assms by (intro nth_equalityI) (auto simp: sub_slice_def)

lemma sub_slice_copy_at_before [wire]:
  assumes "i + length src \<le> length buf" and "b \<le> i"
  shows "sub_slice a b (copy_at i src buf) = sub_slice a b buf"
  using assms by (intro sub_slice_eqI) (auto simp: nth_copy_at)

lemma sub_slice_copy_at_after [wire]:
  assumes "i + length src \<le> length buf" and "i + length src \<le> a" and "b \<le> length buf"
  shows "sub_slice a b (copy_at i src buf) = sub_slice a b buf"
  using assms by (intro sub_slice_eqI) (auto simp: nth_copy_at)

lemma sub_slice_whole [simp, wire]: "length xs = b \<Longrightarrow> sub_slice 0 b xs = xs"
  by (simp add: sub_slice_def)

end
