(* ===== verification/IeeeFloat.thy ===== *)
theory IeeeFloat
  imports Complex_Main "HOL-Library.Log_Nat" Prelude
begin

text \<open>
  Rust's \<open>f32\<close> and \<open>f64\<close>: IEEE 754 binary floating point with round-to-nearest, ties to
  even. A number is a sign, an integral significand and an exponent; all arithmetic is on
  exact integers followed by one rounding, so every operation evaluates on literals. There
  is one not-a-number value, because Rust leaves the sign and payload of a computed NaN
  unspecified. The second half proves the standard error model: an operation whose exact
  result is in the normal range returns a finite number within relative error \<open>2 ^ -p\<close>.
\<close>

section \<open>Formats and values\<close>

record fmt =
  prec :: nat
  emin :: int
  emax :: int

definition f32 :: fmt where
  "f32 = \<lparr>prec = 24, emin = -149, emax = 104\<rparr>"

definition f64 :: fmt where
  "f64 = \<lparr>prec = 53, emin = -1074, emax = 971\<rparr>"

text \<open>\<open>FNum s m e\<close> is \<open>m * 2 ^ e\<close>, negated when \<open>s\<close> holds.\<close>

datatype fp = FNaN | FInf bool | FNum bool int int

definition sg :: "bool \<Rightarrow> 'a::uminus \<Rightarrow> 'a" where
  "sg s x = (if s then - x else x)"

fun fval :: "fp \<Rightarrow> real" where
  "fval (FNum s m e) = sg s (real_of_int m * 2 powi e)"
| "fval _ = 0"

fun is_fin :: "fp \<Rightarrow> bool" where
  "is_fin (FNum s m e) = (0 \<le> m)"
| "is_fin _ = False"

section \<open>Rounding\<close>

definition shl :: "int \<Rightarrow> int \<Rightarrow> int" where
  "shl n k = n * 2 ^ nat k"

text \<open>The exponent of the leading bit of \<open>n / d\<close>.\<close>

definition flog2 :: "int \<Rightarrow> int \<Rightarrow> int" where
  "flog2 n d = (let b = bitlen n - bitlen d in if shl d b \<le> shl n (- b) then b else b - 1)"

text \<open>\<open>n / d\<close> rounded to the nearest integer, ties to even.\<close>

definition rne :: "int \<Rightarrow> int \<Rightarrow> int" where
  "rne n d = (let q = n div d; r = n mod d in
     if 2 * r < d \<or> (2 * r = d \<and> even q) then q else q + 1)"

definition round_exp :: "fmt \<Rightarrow> int \<Rightarrow> int" where
  "round_exp f l = max (emin f) (l - (int (prec f) - 1))"

definition fp_pack :: "fmt \<Rightarrow> bool \<Rightarrow> int \<Rightarrow> int \<Rightarrow> fp" where
  "fp_pack f s m e =
     (let (m', e') = (if m = 2 ^ prec f then (2 ^ (prec f - 1), e + 1) else (m, e))
      in if emax f < e' then FInf s else FNum s m' e')"

text \<open>\<open>fp_round f s n d k\<close> rounds \<open>(n / d) * 2 ^ k\<close>, for \<open>n \<ge> 0\<close> and \<open>d > 0\<close>.\<close>

definition fp_round :: "fmt \<Rightarrow> bool \<Rightarrow> int \<Rightarrow> int \<Rightarrow> int \<Rightarrow> fp" where
  "fp_round f s n d k =
     (if n = 0 then FNum s 0 (emin f)
      else let e = round_exp f (flog2 n d + k)
           in fp_pack f s (rne (shl n (k - e)) (shl d (e - k))) e)"

section \<open>Arithmetic\<close>

text \<open>A decimal literal \<open>n / d\<close> and an integer converted with \<open>as\<close>.\<close>

definition fp_lit :: "fmt \<Rightarrow> int \<Rightarrow> int \<Rightarrow> fp" where
  "fp_lit f n d = fp_round f (n < 0) \<bar>n\<bar> d 0"

definition fp_of_int :: "fmt \<Rightarrow> int \<Rightarrow> fp" where
  "fp_of_int f i = fp_lit f i 1"

fun fp_neg :: "fp \<Rightarrow> fp" where
  "fp_neg FNaN = FNaN"
| "fp_neg (FInf s) = FInf (\<not> s)"
| "fp_neg (FNum s m e) = FNum (\<not> s) m e"

text \<open>The significand of a number at a smaller exponent \<open>e'\<close>, with its sign.\<close>

definition at_exp :: "int \<Rightarrow> bool \<Rightarrow> int \<Rightarrow> int \<Rightarrow> int" where
  "at_exp e' s m e = sg s (shl m (e - e'))"

fun fp_add :: "fmt \<Rightarrow> fp \<Rightarrow> fp \<Rightarrow> fp" where
  "fp_add f (FNum s1 m1 e1) (FNum s2 m2 e2) =
     (let e = min e1 e2; z = at_exp e s1 m1 e1 + at_exp e s2 m2 e2
      in if z = 0 then FNum (s1 \<and> s2) 0 (emin f) else fp_round f (z < 0) \<bar>z\<bar> 1 e)"
| "fp_add f FNaN _ = FNaN"
| "fp_add f _ FNaN = FNaN"
| "fp_add f (FInf s1) (FInf s2) = (if s1 = s2 then FInf s1 else FNaN)"
| "fp_add f (FInf s1) _ = FInf s1"
| "fp_add f _ (FInf s2) = FInf s2"

definition fp_sub :: "fmt \<Rightarrow> fp \<Rightarrow> fp \<Rightarrow> fp" where
  "fp_sub f a b = fp_add f a (fp_neg b)"

fun fp_mul :: "fmt \<Rightarrow> fp \<Rightarrow> fp \<Rightarrow> fp" where
  "fp_mul f (FNum s1 m1 e1) (FNum s2 m2 e2) = fp_round f (s1 \<noteq> s2) (m1 * m2) 1 (e1 + e2)"
| "fp_mul f FNaN _ = FNaN"
| "fp_mul f _ FNaN = FNaN"
| "fp_mul f (FInf s1) (FInf s2) = FInf (s1 \<noteq> s2)"
| "fp_mul f (FInf s1) (FNum s2 m2 e2) = (if m2 = 0 then FNaN else FInf (s1 \<noteq> s2))"
| "fp_mul f (FNum s1 m1 e1) (FInf s2) = (if m1 = 0 then FNaN else FInf (s1 \<noteq> s2))"

fun fp_div :: "fmt \<Rightarrow> fp \<Rightarrow> fp \<Rightarrow> fp" where
  "fp_div f (FNum s1 m1 e1) (FNum s2 m2 e2) =
     (if m2 = 0 then if m1 = 0 then FNaN else FInf (s1 \<noteq> s2)
      else fp_round f (s1 \<noteq> s2) m1 m2 (e1 - e2))"
| "fp_div f FNaN _ = FNaN"
| "fp_div f _ FNaN = FNaN"
| "fp_div f (FInf s1) (FInf s2) = FNaN"
| "fp_div f (FInf s1) (FNum s2 m2 e2) = FInf (s1 \<noteq> s2)"
| "fp_div f (FNum s1 m1 e1) (FInf s2) = FNum (s1 \<noteq> s2) 0 (emin f)"

text \<open>Integer square root, two bits at a time; the square root of \<open>m * 2 ^ e\<close> is rounded from
  twice its significand, whose lowest bit tells which side of the midpoint it is on.\<close>

function isqrt :: "int \<Rightarrow> int" where
  "isqrt n = (if n \<le> 0 then 0
     else let r = 2 * isqrt (n div 4) in if (r + 1) * (r + 1) \<le> n then r + 1 else r)"
  by pat_completeness auto
termination
  by (relation "measure nat") auto

declare isqrt.simps [simp del]

fun fp_sqrt :: "fmt \<Rightarrow> fp \<Rightarrow> fp" where
  "fp_sqrt f (FNum s m e) =
     (if m = 0 then FNum s m e else if s then FNaN
      else let er = round_exp f ((bitlen m - 1 + e) div 2);
               t = isqrt (shl m (e + 2 - 2 * er) div shl 1 (2 * er - e - 2))
           in fp_pack f False ((t + 1) div 2) er)"
| "fp_sqrt f FNaN = FNaN"
| "fp_sqrt f (FInf s) = (if s then FNaN else FInf False)"

section \<open>Comparison and selection\<close>

fun fp_lt :: "fp \<Rightarrow> fp \<Rightarrow> bool" where
  "fp_lt (FNum s1 m1 e1) (FNum s2 m2 e2) =
     (let e = min e1 e2 in at_exp e s1 m1 e1 < at_exp e s2 m2 e2)"
| "fp_lt FNaN _ = False"
| "fp_lt _ FNaN = False"
| "fp_lt (FInf s1) (FInf s2) = (s1 \<and> \<not> s2)"
| "fp_lt (FInf s1) _ = s1"
| "fp_lt _ (FInf s2) = (\<not> s2)"

fun fp_eq :: "fp \<Rightarrow> fp \<Rightarrow> bool" where
  "fp_eq FNaN _ = False"
| "fp_eq _ FNaN = False"
| "fp_eq a b = (\<not> fp_lt a b \<and> \<not> fp_lt b a)"

definition fp_le :: "fp \<Rightarrow> fp \<Rightarrow> bool" where
  "fp_le a b = (fp_lt a b \<or> fp_eq a b)"

text \<open>\<open>f32::max\<close> returns the other argument when one is NaN; \<open>f32::clamp\<close> returns NaN for
  NaN.\<close>

definition fp_max :: "fp \<Rightarrow> fp \<Rightarrow> fp" where
  "fp_max a b = (if a = FNaN then b else if b = FNaN then a else if fp_lt a b then b else a)"

definition fp_clamp :: "fp \<Rightarrow> fp \<Rightarrow> fp \<Rightarrow> fp" where
  "fp_clamp lo hi x =
     (let y = (if fp_lt x lo then lo else x) in if fp_lt hi y then hi else y)"

text \<open>\<open>round\<close> (half away from zero) and the saturating casts to \<open>u32\<close> and \<open>i32\<close>.\<close>

fun fp_to_int_round :: "fp \<Rightarrow> int" where
  "fp_to_int_round (FNum s m e) =
     sg s ((2 * shl m e + shl 1 (- e)) div (2 * shl 1 (- e)))"
| "fp_to_int_round _ = 0"

fun fp_round_away :: "fmt \<Rightarrow> fp \<Rightarrow> fp" where
  "fp_round_away f (FNum s m e) =
     (if 0 \<le> e then FNum s m e
      else fp_round f s \<bar>fp_to_int_round (FNum s m e)\<bar> 1 0)"
| "fp_round_away f x = x"

fun fp_trunc :: "fp \<Rightarrow> int" where
  "fp_trunc (FNum s m e) = sg s (shl m e div shl 1 (- e))"
| "fp_trunc _ = 0"

definition fp_to_u32 :: "fp \<Rightarrow> u32" where
  "fp_to_u32 x = (case x of FNaN \<Rightarrow> 0 | FInf s \<Rightarrow> if s then 0 else - 1
     | FNum s m e \<Rightarrow> of_int (max 0 (min (2 ^ 32 - 1) (fp_trunc x))))"

definition fp_to_i32 :: "fp \<Rightarrow> int" where
  "fp_to_i32 x = (case x of FNaN \<Rightarrow> 0 | FInf s \<Rightarrow> if s then - (2 ^ 31) else 2 ^ 31 - 1
     | FNum s m e \<Rightarrow> max (- (2 ^ 31)) (min (2 ^ 31 - 1) (fp_trunc x)))"

text \<open>\<open>f32\<close> widened to \<open>f64\<close>: exact, the value is renormalised in the wider format.\<close>

fun fp_cast :: "fmt \<Rightarrow> fp \<Rightarrow> fp" where
  "fp_cast f (FNum s m e) = fp_round f s m 1 e"
| "fp_cast f x = x"

section \<open>The error of rounding\<close>

named_theorems fp_err \<open>the standard error model, one lemma per operation\<close>

definition fmt_ok :: "fmt \<Rightarrow> bool" where
  "fmt_ok f \<longleftrightarrow> 2 \<le> prec f"

text \<open>The unit roundoff, the range of magnitudes the error model covers, and \<open>v\<close> as a rounding
  of the real \<open>x\<close>.\<close>

definition uro :: "fmt \<Rightarrow> real" where
  "uro f = 2 powi (- int (prec f))"

definition in_range :: "fmt \<Rightarrow> real \<Rightarrow> bool" where
  "in_range f x \<longleftrightarrow> x = 0 \<or>
     2 powi (emin f + int (prec f) - 1) \<le> \<bar>x\<bar> \<and> \<bar>x\<bar> < 2 powi (emax f + int (prec f) - 1)"

definition approx :: "fmt \<Rightarrow> real \<Rightarrow> fp \<Rightarrow> bool" where
  "approx f x v \<longleftrightarrow> is_fin v \<and> \<bar>fval v - x\<bar> \<le> uro f * \<bar>x\<bar>"

lemma fmt_ok_f32 [simp]: "fmt_ok f32" and fmt_ok_f64 [simp]: "fmt_ok f64"
  by (simp_all add: fmt_ok_def f32_def f64_def)

lemma powi2_pos [simp]: "(0::real) < 2 powi e"
  by (simp add: zero_less_power_int)

lemma powi2_nonneg [simp]: "(0::real) \<le> 2 powi e"
  using powi2_pos [of e] by linarith

lemma powi2_add: "(2::real) powi (a + b) = 2 powi a * 2 powi b"
  by (simp add: power_int_add)

lemma powi2_diff: "(2::real) powi (a - b) = 2 powi a / 2 powi b"
  by (simp add: power_int_diff)

lemma powi2_mono: "a \<le> b \<Longrightarrow> (2::real) powi a \<le> 2 powi b"
  by (simp add: power_int_increasing)

lemma powi2_less_cancel: "(2::real) powi a < 2 powi b \<Longrightarrow> a < b"
  by (meson linorder_not_less powi2_mono)

lemma powi2_nat: "0 \<le> k \<Longrightarrow> (2::real) ^ nat k = 2 powi k"
  by (simp add: power_int_nonneg_exp)

lemma shl_ratio:
  assumes "d > 0"
  shows "real_of_int (shl n k) / real_of_int (shl d (- k)) = real_of_int n / real_of_int d * 2 powi k"
proof (cases "0 \<le> k")
  case True
  then show ?thesis by (simp add: shl_def powi2_nat)
next
  case False
  then have "(2::real) ^ nat (- k) = 2 powi (- k)" by (intro powi2_nat) simp
  then have "(2::real) powi k = 1 / 2 ^ nat (- k)" by (simp add: power_int_minus_divide)
  then show ?thesis using False by (simp add: shl_def)
qed

lemma shl_pos [simp]: "0 < d \<Longrightarrow> 0 < shl d k" "0 \<le> d \<Longrightarrow> 0 \<le> shl d k"
  by (simp_all add: shl_def)

lemma bitlen_powi:
  assumes "0 < n"
  shows "2 powi (bitlen n - 1) \<le> real_of_int n" and "real_of_int n < 2 powi bitlen n"
proof -
  have b: "1 \<le> bitlen n" using assms by (simp add: bitlen_alt_def)
  note bb = bitlen_bounds [OF assms]
  have "real_of_int (2 ^ nat (bitlen n - 1)) \<le> real_of_int n" using bb by linarith
  then show "2 powi (bitlen n - 1) \<le> real_of_int n" using b by (simp add: powi2_nat)
  have "real_of_int n < real_of_int (2 ^ nat (bitlen n))" using bb by linarith
  then show "real_of_int n < 2 powi bitlen n" using b by (simp add: powi2_nat)
qed

lemma flog2_bounds:
  assumes "0 < n" and "0 < d"
  shows "2 powi flog2 n d \<le> real_of_int n / real_of_int d"
    and "real_of_int n / real_of_int d < 2 powi (flog2 n d + 1)"
proof -
  define b where "b = bitlen n - bitlen d"
  define q where "q = real_of_int n / real_of_int d"
  note bn = bitlen_powi [OF assms(1)] and bd = bitlen_powi [OF assms(2)]
  have "q < 2 powi bitlen n / 2 powi (bitlen d - 1)"
    unfolding q_def using bn bd assms by (intro frac_less) auto
  also have "\<dots> = 2 powi (b + 1)"
    unfolding powi2_diff [symmetric] by (rule arg_cong [where f = "power_int 2"]) (simp add: b_def)
  finally have hi: "q < 2 powi (b + 1)" .
  have "2 powi (b - 1) = (2::real) powi (bitlen n - 1) / 2 powi bitlen d"
    unfolding powi2_diff [symmetric] by (rule arg_cong [where f = "power_int 2"]) (simp add: b_def)
  also have "\<dots> \<le> q"
    unfolding q_def using bn bd assms by (intro frac_le) auto
  finally have lo: "2 powi (b - 1) \<le> q" .
  have "shl d b \<le> shl n (- b) \<longleftrightarrow> 1 \<le> real_of_int (shl n (- b)) / real_of_int (shl d b)"
    using assms by (simp add: le_divide_eq)
  also have "\<dots> \<longleftrightarrow> 2 powi b \<le> q"
    using shl_ratio [of d n "- b"] assms unfolding q_def [symmetric]
    by (simp add: power_int_minus_divide le_divide_eq)
  finally have cmp: "shl d b \<le> shl n (- b) \<longleftrightarrow> 2 powi b \<le> q" .
  show "2 powi flog2 n d \<le> real_of_int n / real_of_int d"
    using lo cmp by (auto simp: flog2_def Let_def b_def [symmetric] q_def [symmetric])
  show "real_of_int n / real_of_int d < 2 powi (flog2 n d + 1)"
    using hi cmp by (auto simp: flog2_def Let_def b_def [symmetric] q_def [symmetric])
qed

lemma rne_error:
  assumes "0 < d"
  shows "\<bar>real_of_int (rne n d) - real_of_int n / real_of_int d\<bar> \<le> 1 / 2"
proof -
  define q r where "q = n div d" and "r = n mod d"
  have n: "n = q * d + r" and r: "0 \<le> r" "r < d"
    using assms by (auto simp: q_def r_def)
  define h where "h = real_of_int r / real_of_int d"
  have eq: "real_of_int n / real_of_int d = real_of_int q + h"
    using assms by (simp add: n h_def field_simps)
  have lo: "2 * r \<le> d \<Longrightarrow> h \<le> 1 / 2" and hi: "d \<le> 2 * r \<Longrightarrow> 1 / 2 \<le> h"
    unfolding h_def using assms by (simp_all add: field_simps)
  have h: "0 \<le> h" "h \<le> 1" unfolding h_def using r assms by simp_all
  show ?thesis
  proof (cases "2 * r < d \<or> (2 * r = d \<and> even q)")
    case True
    then have "rne n d = q" by (simp add: rne_def Let_def q_def r_def)
    moreover from True have "2 * r \<le> d" by linarith
    ultimately show ?thesis using lo h eq by simp
  next
    case False
    then have "rne n d = q + 1" by (auto simp: rne_def Let_def q_def r_def)
    moreover from False have "d \<le> 2 * r" by linarith
    ultimately show ?thesis using hi h eq by simp
  qed
qed

lemma fp_pack_value:
  assumes "fmt_ok f" and "0 \<le> m" and "e < emax f"
  shows "is_fin (fp_pack f s m e)" and "fval (fp_pack f s m e) = sg s (real_of_int m * 2 powi e)"
proof -
  have "(2::real) ^ prec f = 2 ^ (prec f - 1) * 2"
    using assms(1) by (simp add: fmt_ok_def power_eq_if)
  then have "(2::real) ^ (prec f - 1) * 2 powi (e + 1) = 2 ^ prec f * 2 powi e"
    by (simp add: powi2_add)
  then show "is_fin (fp_pack f s m e)" and "fval (fp_pack f s m e) = sg s (real_of_int m * 2 powi e)"
    using assms by (auto simp: fp_pack_def Let_def)
qed

lemma abs_scale: "0 < p \<Longrightarrow> \<bar>m * p - x\<bar> = \<bar>m - x / p\<bar> * p" for m p x :: real
proof -
  assume p: "0 < p"
  have "m * p - x = (m - x / p) * p" using p by (simp add: left_diff_distrib)
  then show ?thesis using p by (simp add: abs_mult)
qed

text \<open>A significand within half a unit of \<open>x / 2 ^ e\<close>, at the exponent that puts \<open>x\<close> in the
  normal range, is a rounding of \<open>x\<close>.\<close>

lemma fp_pack_approx:
  assumes f: "fmt_ok f" and x: "in_range f x" "0 < x"
    and l: "2 powi l \<le> x" "x < 2 powi (l + 1)"
    and m: "0 \<le> m" "\<bar>real_of_int m - x / 2 powi round_exp f l\<bar> \<le> 1 / 2"
  shows "approx f (sg s x) (fp_pack f s m (round_exp f l))"
proof -
  define e where "e = round_exp f l"
  have "2 powi (emin f + int (prec f) - 1) < (2::real) powi (l + 1)"
    using x l by (auto simp: in_range_def)
  then have "emin f + int (prec f) - 1 < l + 1" by (rule powi2_less_cancel)
  then have e: "e = l - (int (prec f) - 1)" by (simp add: e_def round_exp_def)
  have "2 powi l < (2::real) powi (emax f + int (prec f) - 1)"
    using x l by (auto simp: in_range_def)
  then have "l < emax f + int (prec f) - 1" by (rule powi2_less_cancel)
  then have "e < emax f" by (simp add: e)
  note pk = fp_pack_value [OF f m(1) this, of s]
  have "\<bar>real_of_int m * 2 powi e - x\<bar> = \<bar>real_of_int m - x / 2 powi e\<bar> * 2 powi e"
    by (rule abs_scale) simp
  also have "\<dots> \<le> 1 / 2 * 2 powi e"
    using m(2) by (intro mult_right_mono) (simp_all add: e_def)
  also have "\<dots> = uro f * 2 powi l"
    by (simp add: e uro_def powi2_diff powi2_add power_int_minus_divide)
  also have "\<dots> \<le> uro f * x" using l by (intro mult_left_mono) (simp_all add: uro_def)
  finally have "\<bar>real_of_int m * 2 powi e - x\<bar> \<le> uro f * \<bar>x\<bar>" using x by simp
  then have "\<bar>sg s (real_of_int m * 2 powi e) - sg s x\<bar> \<le> uro f * \<bar>sg s x\<bar>"
    by (auto simp: sg_def abs_minus_commute)
  with pk show ?thesis by (simp add: approx_def e_def)
qed

lemma fp_round_approx [fp_err]:
  assumes f: "fmt_ok f" and "0 \<le> n" "0 < d"
    and x: "x = real_of_int n / real_of_int d * 2 powi k" and r: "in_range f x"
  shows "approx f (sg s x) (fp_round f s n d k)"
proof (cases "n = 0")
  case True
  then show ?thesis by (simp add: fp_round_def x approx_def sg_def)
next
  case False
  with assms have n: "0 < n" by simp
  with assms have pos: "0 < x" by simp
  define l where "l = flog2 n d + k"
  define e where "e = round_exp f l"
  note fb = flog2_bounds [OF n \<open>0 < d\<close>]
  have l: "2 powi l \<le> x" "x < 2 powi (l + 1)"
  proof -
    have "2 powi l = 2 powi flog2 n d * (2::real) powi k" by (simp add: l_def powi2_add)
    also have "\<dots> \<le> x" unfolding x using fb by (intro mult_right_mono) simp_all
    finally show "2 powi l \<le> x" .
    have "x < 2 powi (flog2 n d + 1) * 2 powi k"
      unfolding x using fb by (intro mult_strict_right_mono) simp_all
    also have "\<dots> = 2 powi (l + 1)" by (simp add: l_def powi2_add)
    finally show "x < 2 powi (l + 1)" .
  qed
  have "real_of_int (shl n (k - e)) / real_of_int (shl d (e - k)) = x / 2 powi e"
    using shl_ratio [OF \<open>0 < d\<close>, of n "k - e"] by (simp add: x powi2_diff)
  moreover have "0 \<le> rne (shl n (k - e)) (shl d (e - k))"
    using n \<open>0 < d\<close> by (simp add: rne_def Let_def pos_imp_zdiv_nonneg_iff)
  ultimately show ?thesis
    using fp_pack_approx [OF f r pos l, of "rne (shl n (k - e)) (shl d (e - k))" s]
      rne_error [of "shl d (e - k)" "shl n (k - e)"] \<open>0 < d\<close> n
    by (simp add: fp_round_def Let_def l_def e_def)
qed

section \<open>The error of each operation\<close>

lemma fval_at_exp:
  assumes "e' \<le> e"
  shows "real_of_int (at_exp e' s m e) * 2 powi e' = fval (FNum s m e)"
proof -
  have "(2::real) ^ nat (e - e') * 2 powi e' = 2 powi e"
    using assms by (simp add: powi2_nat powi2_diff)
  then show ?thesis by (simp add: at_exp_def sg_def shl_def)
qed

lemma is_finE:
  assumes "is_fin a"
  obtains s m e where "a = FNum s m e" and "0 \<le> m"
  using assms by (cases a) auto

lemma fp_neg_fin [simp]: "is_fin (fp_neg a) = is_fin a" and fval_neg [simp]: "fval (fp_neg a) = - fval a"
  by (cases a; simp add: sg_def)+

lemma fp_mul_approx [fp_err]:
  assumes "fmt_ok f" "is_fin a" "is_fin b" "in_range f (fval a * fval b)"
  shows "approx f (fval a * fval b) (fp_mul f a b)"
proof -
  from assms obtain s1 m1 e1 s2 m2 e2 where
    ab: "a = FNum s1 m1 e1" "b = FNum s2 m2 e2" and m: "0 \<le> m1" "0 \<le> m2"
    by (auto elim!: is_finE)
  define x where "x = real_of_int (m1 * m2) / real_of_int 1 * 2 powi (e1 + e2)"
  have v: "fval a * fval b = sg (s1 \<noteq> s2) x"
    by (simp add: ab x_def sg_def powi2_add)
  have "in_range f x" using assms(4) unfolding v by (simp add: in_range_def sg_def split: if_splits)
  then have "approx f (sg (s1 \<noteq> s2) x) (fp_round f (s1 \<noteq> s2) (m1 * m2) 1 (e1 + e2))"
    using m by (intro fp_round_approx [OF assms(1) _ _ x_def]) simp_all
  then show ?thesis unfolding v by (simp add: ab)
qed

lemma fp_div_approx [fp_err]:
  assumes "fmt_ok f" "is_fin a" "is_fin b" "fval b \<noteq> 0" "in_range f (fval a / fval b)"
  shows "approx f (fval a / fval b) (fp_div f a b)"
proof -
  from assms obtain s1 m1 e1 s2 m2 e2 where
    ab: "a = FNum s1 m1 e1" "b = FNum s2 m2 e2" and m: "0 \<le> m1" "0 \<le> m2"
    by (auto elim!: is_finE)
  have "m2 = 0 \<Longrightarrow> fval b = 0" by (simp add: ab sg_def)
  with m assms(4) have m2: "0 < m2" by linarith
  define x where "x = real_of_int m1 / real_of_int m2 * 2 powi (e1 - e2)"
  have v: "fval a / fval b = sg (s1 \<noteq> s2) x"
    by (simp add: ab x_def sg_def powi2_diff)
  have "in_range f x" using assms(5) unfolding v by (simp add: in_range_def sg_def split: if_splits)
  then have "approx f (sg (s1 \<noteq> s2) x) (fp_round f (s1 \<noteq> s2) m1 m2 (e1 - e2))"
    using m m2 by (intro fp_round_approx [OF assms(1) _ _ x_def]) simp_all
  then show ?thesis using m2 unfolding v by (simp add: ab)
qed

lemma fp_add_approx [fp_err]:
  assumes "fmt_ok f" "is_fin a" "is_fin b" "in_range f (fval a + fval b)"
  shows "approx f (fval a + fval b) (fp_add f a b)"
proof -
  from assms obtain s1 m1 e1 s2 m2 e2 where ab: "a = FNum s1 m1 e1" "b = FNum s2 m2 e2"
    by (auto elim!: is_finE)
  define e where "e = min e1 e2"
  define z where "z = at_exp e s1 m1 e1 + at_exp e s2 m2 e2"
  have v: "fval a + fval b = real_of_int z * 2 powi e"
    unfolding z_def ab using fval_at_exp [of e e1 s1 m1] fval_at_exp [of e e2 s2 m2]
    by (simp add: e_def distrib_right)
  show ?thesis
  proof (cases "z = 0")
    case True
    then have "fp_add f a b = FNum (s1 \<and> s2) 0 (emin f)" by (simp add: ab Let_def z_def e_def)
    with True show ?thesis by (simp add: v approx_def sg_def)
  next
    case False
    define x where "x = real_of_int \<bar>z\<bar> / real_of_int 1 * 2 powi e"
    have vx: "fval a + fval b = sg (z < 0) x" by (simp add: v x_def sg_def)
    have "in_range f x" using assms(4) unfolding vx by (simp add: in_range_def sg_def split: if_splits)
    then have "approx f (sg (z < 0) x) (fp_round f (z < 0) \<bar>z\<bar> 1 e)"
      by (intro fp_round_approx [OF assms(1) _ _ x_def]) simp_all
    then show ?thesis using False unfolding vx by (simp add: ab Let_def z_def e_def)
  qed
qed

lemma isqrt_correct: "0 \<le> n \<Longrightarrow> isqrt n * isqrt n \<le> n \<and> n < (isqrt n + 1) * (isqrt n + 1) \<and> 0 \<le> isqrt n"
proof (induction n rule: isqrt.induct)
  case (1 n)
  show ?case
  proof (cases "n \<le> 0")
    case True
    with "1.prems" show ?thesis by (simp add: isqrt.simps)
  next
    case False
    define q where "q = isqrt (n div 4)"
    from "1.IH" False have q: "q * q \<le> n div 4" "n div 4 < (q + 1) * (q + 1)" "0 \<le> q"
      by (auto simp: q_def)
    have "4 * (q * q) \<le> n" using q by linarith
    moreover have "n < 4 * ((q + 1) * (q + 1))" using q by linarith
    ultimately show ?thesis
      using q False by (simp add: isqrt.simps [of n] Let_def q_def [symmetric] algebra_simps)
  qed
qed

text \<open>The integer square root of \<open>floor y\<close> brackets the real square root of \<open>y\<close>.\<close>

lemma isqrt_floor_bounds:
  assumes "0 \<le> N" "0 < D"
  defines "y \<equiv> real_of_int N / real_of_int D"
  shows "real_of_int (isqrt (N div D)) \<le> sqrt y" and "sqrt y < real_of_int (isqrt (N div D)) + 1"
proof -
  define t where "t = isqrt (N div D)"
  have "0 \<le> N div D" using assms by (simp add: pos_imp_zdiv_nonneg_iff)
  from isqrt_correct [OF this] have t: "t * t \<le> N div D" "N div D < (t + 1) * (t + 1)" "0 \<le> t"
    by (simp_all add: t_def)
  have fl: "N div D = \<lfloor>y\<rfloor>" by (simp add: y_def floor_divide_of_int_eq)
  have "real_of_int (t * t) \<le> y" using t fl by linarith
  then have "(real_of_int t)\<^sup>2 \<le> y" by (simp add: power2_eq_square)
  then show "real_of_int (isqrt (N div D)) \<le> sqrt y" unfolding t_def by (rule real_le_rsqrt)
  have "y < real_of_int ((t + 1) * (t + 1))" using t fl by linarith
  then have "y < (real_of_int t + 1)\<^sup>2" by (simp add: power2_eq_square)
  then have "sqrt y < sqrt ((real_of_int t + 1)\<^sup>2)" by (simp only: real_sqrt_less_iff)
  then show "sqrt y < real_of_int (isqrt (N div D)) + 1" using t by (simp add: t_def)
qed

lemma sqrt_powi_bounds:
  assumes "2 powi l \<le> x" and "x < 2 powi (l + 1)"
  shows "2 powi (l div 2) \<le> sqrt x" and "sqrt x < 2 powi (l div 2 + 1)"
proof -
  define j where "j = l div 2"
  have sq: "sqrt (2 powi (2 * i)) = 2 powi i" for i :: int
    by (rule real_sqrt_unique) (simp_all add: power2_eq_square flip: powi2_add)
  have "2 powi (2 * j) \<le> (2::real) powi l" by (rule powi2_mono) (simp add: j_def)
  then have "sqrt (2 powi (2 * j)) \<le> sqrt x" using assms by simp
  then show "2 powi (l div 2) \<le> sqrt x" by (simp add: sq j_def)
  have "(2::real) powi (l + 1) \<le> 2 powi (2 * (j + 1))" by (rule powi2_mono) (simp add: j_def)
  then have "sqrt x < sqrt (2 powi (2 * (j + 1)))" using assms by simp
  then show "sqrt x < 2 powi (l div 2 + 1)" by (simp only: sq j_def)
qed

lemma half_round:
  assumes "real_of_int t \<le> y" and "y < real_of_int t + 1"
  shows "\<bar>real_of_int ((t + 1) div 2) - y / 2\<bar> \<le> 1 / 2"
proof -
  have "2 * ((t + 1) div 2) = t \<or> 2 * ((t + 1) div 2) = t + 1" by presburger
  then have "2 * real_of_int ((t + 1) div 2) = t \<or> 2 * real_of_int ((t + 1) div 2) = t + 1"
    by linarith
  with assms show ?thesis by linarith
qed

lemma fp_sqrt_approx [fp_err]:
  assumes f: "fmt_ok f" and a: "is_fin a" "0 < fval a" and r: "in_range f (sqrt (fval a))"
  shows "approx f (sqrt (fval a)) (fp_sqrt f a)"
proof -
  from a obtain s m e where ae: "a = FNum s m e" and "0 \<le> m" by (auto elim!: is_finE)
  have nz: "m = 0 \<Longrightarrow> fval a = 0" by (simp add: ae sg_def)
  with a \<open>0 \<le> m\<close> have m: "0 < m" by linarith
  have "s \<Longrightarrow> fval a \<le> 0" using m by (simp add: ae sg_def)
  with a have s: "\<not> s" by linarith
  define x where "x = real_of_int m * 2 powi e"
  have x: "fval a = x" using s by (simp add: ae x_def sg_def)
  define l where "l = bitlen m - 1 + e"
  have "2 powi l \<le> x" "x < 2 powi (l + 1)"
    using bitlen_powi [OF m] by (simp_all add: x_def l_def powi2_add)
  note L = sqrt_powi_bounds [OF this]
  define er where "er = round_exp f (l div 2)"
  define N D where "N = shl m (e + 2 - 2 * er)" and "D = shl 1 (2 * er - e - 2)"
  have ND: "0 \<le> N" "0 < D" using m by (simp_all add: N_def D_def)
  have "real_of_int N / real_of_int D = x * 2 powi (2 - 2 * er)"
    using shl_ratio [of 1 m "e + 2 - 2 * er"]
    by (simp add: N_def D_def x_def powi2_add powi2_diff algebra_simps)
  also have "(2::real) powi (2 * er) = (2 powi er)\<^sup>2"
    by (simp add: power2_eq_square flip: powi2_add)
  then have "x * 2 powi (2 - 2 * er) = (2 * (sqrt x / 2 powi er))\<^sup>2"
    using m by (simp add: x_def power_mult_distrib power_divide powi2_diff)
  finally have "sqrt (real_of_int N / real_of_int D) = 2 * (sqrt x / 2 powi er)"
    using m by (simp add: x_def real_sqrt_unique)
  with isqrt_floor_bounds [OF ND] half_round [of "isqrt (N div D)" "2 * (sqrt x / 2 powi er)"]
  have "\<bar>real_of_int ((isqrt (N div D) + 1) div 2) - sqrt x / 2 powi er\<bar> \<le> 1 / 2" by simp
  moreover have "0 \<le> (isqrt (N div D) + 1) div 2"
    using isqrt_correct [of "N div D"] ND by (simp add: pos_imp_zdiv_nonneg_iff)
  ultimately have "approx f (sg False (sqrt x)) (fp_pack f False ((isqrt (N div D) + 1) div 2) er)"
    unfolding er_def using r m L by (intro fp_pack_approx [OF f]) (simp_all add: x x_def er_def)
  then show ?thesis
    unfolding x using m s by (simp add: ae Let_def sg_def l_def er_def N_def D_def)
qed

lemma fp_lt_iff: "is_fin a \<Longrightarrow> is_fin b \<Longrightarrow> fp_lt a b \<longleftrightarrow> fval a < fval b"
proof -
  assume "is_fin a" "is_fin b"
  then obtain s1 m1 e1 s2 m2 e2 where ab: "a = FNum s1 m1 e1" "b = FNum s2 m2 e2"
    by (auto elim!: is_finE)
  define e where "e = min e1 e2"
  have "fval a < fval b \<longleftrightarrow> real_of_int (at_exp e s1 m1 e1) * 2 powi e < real_of_int (at_exp e s2 m2 e2) * 2 powi e"
    by (simp add: ab e_def fval_at_exp del: fval.simps)
  then show ?thesis by (simp add: ab e_def Let_def)
qed

end
