(* ===== verification/Core.thy ===== *)
theory Core
  imports IeeeFloat
begin

text \<open>
  The crate otap-core: the protocol errors, the five physical dimensions of a Transient
  (wavelength, polarization, orbital angular momentum, microstructure, payload) and the
  Transient itself. Newtypes keep their constructors, so that a wavelength or an OAM mode is
  built by \<open>wavelength_new\<close> and \<open>oam_new\<close> as in the source.

  The transcendental functions of \<open>f32\<close> are fields of a \<open>libm\<close> record: Rust documents
  their precision as unspecified, so a theorem that needs more than the function being a
  function says which documented behaviour it uses.
\<close>

section \<open>Errors\<close>

datatype protocol_error =
    WavelengthOutOfRange u16 u16
  | UnknownOamMode i8
  | AuthenticationFailure
  | IntegrityFailure
  | SequenceGap u16 u16
  | SchemaMismatch i8 nat nat
  | WireFormat string

section \<open>D2: wavelength\<close>

datatype wavelength = Wavelength (channel: u16)

definition MAX_CHANNEL :: u16 where
  "MAX_CHANNEL = 351"

definition wavelength_new :: "u16 \<Rightarrow> protocol_error + wavelength" where
  "wavelength_new ch =
     (if ch > MAX_CHANNEL then Inl (WavelengthOutOfRange ch MAX_CHANNEL) else Inr (Wavelength ch))"

definition SPACING_GHZ :: fp where
  "SPACING_GHZ = fp_lit f64 25 1"

definition ANCHOR_THZ :: fp where
  "ANCHOR_THZ = fp_lit f64 1931 10"

definition frequency_thz :: "wavelength \<Rightarrow> fp" where
  "frequency_thz w =
     fp_add f64 ANCHOR_THZ
       (fp_mul f64 (fp_of_int f64 (uint (channel w)))
          (fp_div f64 SPACING_GHZ (fp_lit f64 1000 1)))"

definition wavelength_nm :: "wavelength \<Rightarrow> fp" where
  "wavelength_nm w = fp_div f64 (fp_lit f64 299792458 1000) (frequency_thz w)"

section \<open>D3: polarization\<close>

record stokes =
  s1 :: fp
  s2 :: fp
  s3 :: fp

record libm =
  acos_f :: "fp \<Rightarrow> fp"
  atan2_f :: "fp \<Rightarrow> fp \<Rightarrow> fp"
  sin_f :: "fp \<Rightarrow> fp"
  cos_f :: "fp \<Rightarrow> fp"

text \<open>The dot product in the source's order of evaluation; \<open>new\<close> uses it on one vector.\<close>

definition dot3 :: "fp \<Rightarrow> fp \<Rightarrow> fp \<Rightarrow> fp \<Rightarrow> fp \<Rightarrow> fp \<Rightarrow> fp" where
  "dot3 a1 b1 a2 b2 a3 b3 =
     fp_add f32 (fp_add f32 (fp_mul f32 a1 b1) (fp_mul f32 a2 b2)) (fp_mul f32 a3 b3)"

definition stokes_new :: "fp \<Rightarrow> fp \<Rightarrow> fp \<Rightarrow> stokes" where
  "stokes_new a b c =
     (let mag = fp_max (fp_sqrt f32 (dot3 a a b b c c)) (fp_lit f32 1 1000000000)
      in \<lparr>s1 = fp_div f32 a mag, s2 = fp_div f32 b mag, s3 = fp_div f32 c mag\<rparr>)"

definition stokes_H :: stokes where
  "stokes_H = \<lparr>s1 = fp_lit f32 1 1, s2 = fp_lit f32 0 1, s3 = fp_lit f32 0 1\<rparr>"

definition stokes_V :: stokes where
  "stokes_V = \<lparr>s1 = fp_lit f32 (- 1) 1, s2 = fp_lit f32 0 1, s3 = fp_lit f32 0 1\<rparr>"

definition stokes_D :: stokes where
  "stokes_D = \<lparr>s1 = fp_lit f32 0 1, s2 = fp_lit f32 1 1, s3 = fp_lit f32 0 1\<rparr>"

definition stokes_R :: stokes where
  "stokes_R = \<lparr>s1 = fp_lit f32 0 1, s2 = fp_lit f32 0 1, s3 = fp_lit f32 1 1\<rparr>"

definition angular_distance :: "libm \<Rightarrow> stokes \<Rightarrow> stokes \<Rightarrow> fp" where
  "angular_distance lm a b =
     (let dot = fp_clamp (fp_lit f32 (- 1) 1) (fp_lit f32 1 1)
                  (dot3 (s1 a) (s1 b) (s2 a) (s2 b) (s3 a) (s3 b))
      in acos_f lm dot)"

definition TRAJECTORY_SAMPLES :: nat where
  "TRAJECTORY_SAMPLES = 16"

record trajectory =
  samples :: "stokes list"

definition trajectory_new :: "stokes list \<Rightarrow> trajectory" where
  "trajectory_new xs = \<lparr>samples = xs\<rparr>"

text \<open>The array has \<open>TRAJECTORY_SAMPLES\<close> elements.\<close>

definition wf_trajectory :: "trajectory \<Rightarrow> bool" where
  "wf_trajectory t \<longleftrightarrow> length (samples t) = TRAJECTORY_SAMPLES"

text \<open>\<open>core::f32::consts::PI\<close> and \<open>2.0 * PI\<close>.\<close>

definition PI32 :: fp where
  "PI32 = FNum False 13176795 (- 22)"

definition TWO_PI32 :: fp where
  "TWO_PI32 = fp_mul f32 (fp_lit f32 2 1) PI32"

text \<open>The two wrapping loops may fail to stop on an arbitrary float (adding \<open>2 * PI\<close> to a huge
  number does not change it), hence \<open>option\<close>.\<close>

partial_function (option) wrap_down :: "fp \<Rightarrow> fp option" where
  "wrap_down d = (if fp_lt PI32 d then wrap_down (fp_sub f32 d TWO_PI32) else Some d)"

partial_function (option) wrap_up :: "fp \<Rightarrow> fp option" where
  "wrap_up d = (if fp_le d (fp_neg PI32) then wrap_up (fp_add f32 d TWO_PI32) else Some d)"

declare wrap_down.simps [code] wrap_up.simps [code]

definition wrap_angle :: "fp \<Rightarrow> fp option" where
  "wrap_angle d = Option.bind (wrap_down d) wrap_up"

fun sum_angles :: "libm \<Rightarrow> stokes list \<Rightarrow> fp \<Rightarrow> nat list \<Rightarrow> fp option" where
  "sum_angles lm xs acc [] = Some acc"
| "sum_angles lm xs acc (i # is) =
     (let a = xs ! i; b = xs ! ((i + 1) mod TRAJECTORY_SAMPLES);
          theta_a = atan2_f lm (s2 a) (s1 a); theta_b = atan2_f lm (s2 b) (s1 b)
      in Option.bind (wrap_angle (fp_sub f32 theta_b theta_a))
           (\<lambda>d. sum_angles lm xs (fp_add f32 acc d) is))"

definition winding_number_s3 :: "libm \<Rightarrow> trajectory \<Rightarrow> int option" where
  "winding_number_s3 lm t =
     map_option (\<lambda>total. fp_to_i32 (fp_round_away f32 (fp_div f32 total TWO_PI32)))
       (sum_angles lm (samples t) (fp_lit f32 0 1) [0..<TRAJECTORY_SAMPLES])"

section \<open>D4: orbital angular momentum\<close>

datatype oam_mode = OamMode (charge: i8)

definition OAM_MIN :: int where "OAM_MIN = - 16"
definition OAM_MAX :: int where "OAM_MAX = 16"

definition OAM_RAW :: oam_mode where
  "OAM_RAW = OamMode 0"

definition oam_new :: "i8 \<Rightarrow> protocol_error + oam_mode" where
  "oam_new c = (if sint c < OAM_MIN \<or> sint c > OAM_MAX then Inl (UnknownOamMode c) else Inr (OamMode c))"

text \<open>\<open>new_const\<close> panics out of range: \<open>None\<close>.\<close>

definition oam_new_const :: "i8 \<Rightarrow> oam_mode option" where
  "oam_new_const c = (if OAM_MIN \<le> sint c \<and> sint c \<le> OAM_MAX then Some (OamMode c) else None)"

definition wf_oam :: "oam_mode \<Rightarrow> bool" where
  "wf_oam m \<longleftrightarrow> OAM_MIN \<le> sint (charge m) \<and> sint (charge m) \<le> OAM_MAX"

definition wf_wavelength :: "wavelength \<Rightarrow> bool" where
  "wf_wavelength w \<longleftrightarrow> channel w \<le> MAX_CHANNEL"

section \<open>D5: microstructure\<close>

datatype guard_interval = Nominal | Priority | EndOfMessage | Retransmission | Keepalive

record micro_structure =
  sequence :: u16
  guard :: guard_interval

definition micro_new :: "u16 \<Rightarrow> micro_structure" where
  "micro_new n = \<lparr>sequence = n, guard = Nominal\<rparr>"

definition with_eom :: "micro_structure \<Rightarrow> micro_structure" where
  "with_eom m = m\<lparr>guard := EndOfMessage\<rparr>"

definition with_priority :: "micro_structure \<Rightarrow> micro_structure" where
  "with_priority m = m\<lparr>guard := Priority\<rparr>"

section \<open>The Transient\<close>

record transient =
  t_wavelength :: wavelength
  t_polarization :: trajectory
  t_oam :: oam_mode
  t_micro :: micro_structure
  t_payload :: bytes

definition transient_new ::
  "wavelength \<Rightarrow> trajectory \<Rightarrow> oam_mode \<Rightarrow> micro_structure \<Rightarrow> bytes \<Rightarrow> transient" where
  "transient_new w p o' m b =
     \<lparr>t_wavelength = w, t_polarization = p, t_oam = o', t_micro = m, t_payload = b\<rparr>"

definition reference_size_bytes :: "transient \<Rightarrow> nat" where
  "reference_size_bytes t = length (t_payload t)"

section \<open>Range checks\<close>

lemma wavelength_new_ok: "wavelength_new ch = Inr w \<longleftrightarrow> w = Wavelength ch \<and> wf_wavelength w"
  by (auto simp: wavelength_new_def wf_wavelength_def)

lemma oam_new_ok: "oam_new c = Inr m \<longleftrightarrow> m = OamMode c \<and> wf_oam m"
  by (auto simp: oam_new_def wf_oam_def)

lemma oam_new_const_ok: "oam_new_const c = Some m \<longleftrightarrow> m = OamMode c \<and> wf_oam m"
  by (auto simp: oam_new_const_def wf_oam_def)

end
