(* ===== verification/Wire.thy ===== *)
theory Wire
  imports Prelude
begin

text \<open>
  The contract of a fixed-size wire format, which the application schemas and the three
  handshake messages all follow: an encoder that always writes the same number of bytes and a
  decoder that accepts exactly such buffers. The locale \<open>wire_codec\<close> has the laws, its lemmas
  are what the clients use: encoding is injective, no encoding is a prefix of another one, and
  a stream of frames is cut back into the values it was written from.
\<close>

section \<open>Frames\<close>

text \<open>A receiver that reads \<open>len\<close> bytes at a time, as \<open>read_exact\<close> into a fixed buffer does,
  until the stream ends. The first undecodable frame stops it with the error.\<close>

fun read_frames :: "nat \<Rightarrow> (bytes \<Rightarrow> 'e + 'a) \<Rightarrow> nat \<Rightarrow> bytes \<Rightarrow> 'e + 'a list" where
  "read_frames len dec 0 bs = Inr []"
| "read_frames len dec (Suc n) bs =
     try_bind (dec (take len bs))
       (\<lambda>v. try_bind (read_frames len dec n (drop len bs)) (\<lambda>vs. Inr (v # vs)))"

locale wire_codec =
  fixes enc :: "'a \<Rightarrow> bytes" and dec :: "bytes \<Rightarrow> 'e + 'a" and len :: nat and wf :: "'a \<Rightarrow> bool"
  assumes enc_length: "wf v \<Longrightarrow> length (enc v) = len"
    and dec_enc: "wf v \<Longrightarrow> dec (enc v) = Inr v"
    and dec_wf: "dec bs = Inr v \<Longrightarrow> wf v"
    and dec_length: "dec bs = Inr v \<Longrightarrow> length bs = len"
begin

lemma enc_inj: "wf v \<Longrightarrow> wf w \<Longrightarrow> enc v = enc w \<longleftrightarrow> v = w"
  by (metis dec_enc sum.inject(2))

lemma enc_prefix_free: "wf v \<Longrightarrow> wf w \<Longrightarrow> enc v @ xs = enc w @ ys \<longleftrightarrow> v = w \<and> xs = ys"
  using enc_length enc_inj by auto

lemma dec_wrong_length: "length bs \<noteq> len \<Longrightarrow> \<not> is_ok (dec bs)"
  by (auto simp: is_ok_iff dest: dec_length)

lemma frames_round_trip:
  "(\<And>v. v \<in> set vs \<Longrightarrow> wf v) \<Longrightarrow>
   read_frames len dec (length vs) (concat (map enc vs)) = Inr vs"
  by (induction vs) (simp_all add: dec_enc enc_length)

lemma accepted_idempotent: "dec bs = Inr v \<Longrightarrow> dec (enc v) = dec bs"
  by (simp add: dec_wf dec_enc)

end

text \<open>A format without ignored bytes: a buffer is accepted only if it is the encoding of the
  value it decodes to, so that no two buffers stand for the same value.\<close>

locale canonical_codec = wire_codec +
  assumes enc_dec: "dec bs = Inr v \<Longrightarrow> enc v = bs"
begin

lemma dec_inj: "dec as = Inr v \<Longrightarrow> dec bs = Inr v \<Longrightarrow> as = bs"
  using enc_dec by blast

lemma accepted_iff: "dec bs = Inr v \<longleftrightarrow> wf v \<and> bs = enc v"
  using dec_wf enc_dec dec_enc by blast

end

end
