(* ===== verification/Schema.thy ===== *)
theory Schema
  imports Core Wire
begin

text \<open>
  The crate otap-schema: three fixed-size application schemas (equity order, market tick,
  heartbeat), the dispatch from OAM mode to schema and the decoder of any schema. A Rust
  \<open>f64\<close> field is its 64 bits: the schemas only move it, and \<open>to_be_bytes\<close> and
  \<open>from_be_bytes\<close> preserve the bits. Fixed-size arrays are lists whose length is part of
  the well-formedness predicate of their record.
\<close>

type_synonym f64_bits = u64

section \<open>UTF-8\<close>

text \<open>\<open>core::str::from_utf8\<close> accepts the well-formed byte sequences of the Unicode standard.\<close>

definition in_rng :: "u8 \<Rightarrow> u8 \<Rightarrow> u8 \<Rightarrow> bool" where
  "in_rng lo hi b \<longleftrightarrow> lo \<le> b \<and> b \<le> hi"

definition second_range :: "u8 \<Rightarrow> u8 \<times> u8" where
  "second_range b =
     (if b = 0xE0 then (0xA0, 0xBF) else if b = 0xED then (0x80, 0x9F)
      else if b = 0xF0 then (0x90, 0xBF) else if b = 0xF4 then (0x80, 0x8F) else (0x80, 0xBF))"

definition cont_count :: "u8 \<Rightarrow> nat option" where
  "cont_count b =
     (if b < 0x80 then Some 0 else if in_rng 0xC2 0xDF b then Some 1
      else if in_rng 0xE0 0xEF b then Some 2 else if in_rng 0xF0 0xF4 b then Some 3 else None)"

fun utf8_valid :: "bytes \<Rightarrow> bool" where
  "utf8_valid [] = True"
| "utf8_valid (b # bs) =
     (case cont_count b of None \<Rightarrow> False
      | Some n \<Rightarrow>
          n \<le> length bs \<and>
          (n = 0 \<or> in_rng (fst (second_range b)) (snd (second_range b)) (hd bs)) \<and>
          list_all (in_rng 0x80 0xBF) (take (n - 1) (tl bs)) \<and>
          utf8_valid (drop n bs))"

section \<open>The equity order\<close>

datatype side = Buy | Sell

definition side_to_u8 :: "side \<Rightarrow> u8" where
  "side_to_u8 s = (case s of Buy \<Rightarrow> 0 | Sell \<Rightarrow> 1)"

definition side_from_u8 :: "u8 \<Rightarrow> protocol_error + side" where
  "side_from_u8 b =
     (if b = 0 then Inr Buy else if b = 1 then Inr Sell else Inl (WireFormat ''invalid side byte''))"

record equity_order =
  eq_symbol :: bytes
  eq_side :: side
  eq_quantity :: u32
  eq_price_cents :: f64_bits
  eq_timestamp_ns :: u64
  eq_client_order_id :: u64
  eq_firm_uuid :: bytes

definition EQ_OAM_MODE :: oam_mode where "EQ_OAM_MODE = the (oam_new_const 1)"
definition EQ_PAYLOAD_BYTES :: nat where "EQ_PAYLOAD_BYTES = 256"

text \<open>The loop over \<open>symbol.as_bytes().iter().take(4)\<close> that fills the four-byte array.\<close>

fun fill :: "nat \<Rightarrow> bytes \<Rightarrow> bytes \<Rightarrow> bytes" where
  "fill i [] arr = arr"
| "fill i (b # bs) arr = fill (Suc i) bs (arr[i := b])"

definition equity_new ::
  "bytes \<Rightarrow> side \<Rightarrow> u32 \<Rightarrow> f64_bits \<Rightarrow> u64 \<Rightarrow> u64 \<Rightarrow> bytes \<Rightarrow> equity_order" where
  "equity_new symbol sd qty price ts oid uuid =
     \<lparr>eq_symbol = fill 0 (take 4 symbol) (replicate 4 0), eq_side = sd, eq_quantity = qty,
      eq_price_cents = price, eq_timestamp_ns = ts, eq_client_order_id = oid, eq_firm_uuid = uuid\<rparr>"

definition symbol_str :: "equity_order \<Rightarrow> bytes" where
  "symbol_str o' =
     (let s = takeWhile (\<lambda>b. b \<noteq> 0) (eq_symbol o') in if utf8_valid s then s else [0x3F])"

definition equity_encode :: "equity_order \<Rightarrow> bytes" where
  "equity_encode o' =
     (let buf = replicate EQ_PAYLOAD_BYTES 0;
          buf = copy_at 0 (eq_symbol o') buf;
          buf = buf[4 := side_to_u8 (eq_side o')];
          buf = copy_at 8 (to_be_bytes 4 (eq_quantity o')) buf;
          buf = copy_at 16 (to_be_bytes 8 (eq_price_cents o')) buf;
          buf = copy_at 24 (to_be_bytes 8 (eq_timestamp_ns o')) buf;
          buf = copy_at 32 (to_be_bytes 8 (eq_client_order_id o')) buf;
          buf = copy_at 40 (eq_firm_uuid o') buf
      in buf)"

definition equity_decode :: "bytes \<Rightarrow> protocol_error + equity_order" where
  "equity_decode bs =
     (if length bs \<noteq> EQ_PAYLOAD_BYTES
      then Inl (SchemaMismatch (charge EQ_OAM_MODE) EQ_PAYLOAD_BYTES (length bs))
      else try_bind (side_from_u8 (bs ! 4)) (\<lambda>sd.
        Inr \<lparr>eq_symbol = sub_slice 0 4 bs, eq_side = sd,
             eq_quantity = from_be_bytes (sub_slice 8 12 bs),
             eq_price_cents = from_be_bytes (sub_slice 16 24 bs),
             eq_timestamp_ns = from_be_bytes (sub_slice 24 32 bs),
             eq_client_order_id = from_be_bytes (sub_slice 32 40 bs),
             eq_firm_uuid = sub_slice 40 56 bs\<rparr>))"

definition wf_equity :: "equity_order \<Rightarrow> bool" where
  "wf_equity o' \<longleftrightarrow> length (eq_symbol o') = 4 \<and> length (eq_firm_uuid o') = 16"

section \<open>The market tick\<close>

record market_tick =
  mt_symbol :: bytes
  mt_bid_cents :: f64_bits
  mt_ask_cents :: f64_bits
  mt_last_cents :: f64_bits
  mt_volume :: u64
  mt_timestamp_ns :: u64
  mt_reserved :: bytes

definition MT_OAM_MODE :: oam_mode where "MT_OAM_MODE = the (oam_new_const 3)"
definition MT_PAYLOAD_BYTES :: nat where "MT_PAYLOAD_BYTES = 64"

definition tick_encode :: "market_tick \<Rightarrow> bytes" where
  "tick_encode t =
     (let buf = replicate MT_PAYLOAD_BYTES 0;
          buf = copy_at 0 (mt_symbol t) buf;
          buf = copy_at 8 (to_be_bytes 8 (mt_bid_cents t)) buf;
          buf = copy_at 16 (to_be_bytes 8 (mt_ask_cents t)) buf;
          buf = copy_at 24 (to_be_bytes 8 (mt_last_cents t)) buf;
          buf = copy_at 32 (to_be_bytes 8 (mt_volume t)) buf;
          buf = copy_at 40 (to_be_bytes 8 (mt_timestamp_ns t)) buf;
          buf = copy_at 48 (mt_reserved t) buf
      in buf)"

definition tick_decode :: "bytes \<Rightarrow> protocol_error + market_tick" where
  "tick_decode bs =
     (if length bs \<noteq> MT_PAYLOAD_BYTES
      then Inl (SchemaMismatch (charge MT_OAM_MODE) MT_PAYLOAD_BYTES (length bs))
      else Inr \<lparr>mt_symbol = sub_slice 0 8 bs,
                mt_bid_cents = from_be_bytes (sub_slice 8 16 bs),
                mt_ask_cents = from_be_bytes (sub_slice 16 24 bs),
                mt_last_cents = from_be_bytes (sub_slice 24 32 bs),
                mt_volume = from_be_bytes (sub_slice 32 40 bs),
                mt_timestamp_ns = from_be_bytes (sub_slice 40 48 bs),
                mt_reserved = sub_slice 48 64 bs\<rparr>)"

definition wf_tick :: "market_tick \<Rightarrow> bool" where
  "wf_tick t \<longleftrightarrow> length (mt_symbol t) = 8 \<and> length (mt_reserved t) = 16"

section \<open>The heartbeat\<close>

record heartbeat =
  hb_node_id :: u64
  hb_clock_offset_ns :: i64
  hb_heartbeat_seq :: u64
  hb_reserved :: bytes

definition HB_OAM_MODE :: oam_mode where "HB_OAM_MODE = the (oam_new_const 4)"
definition HB_PAYLOAD_BYTES :: nat where "HB_PAYLOAD_BYTES = 32"

definition heartbeat_encode :: "heartbeat \<Rightarrow> bytes" where
  "heartbeat_encode h =
     (let buf = replicate HB_PAYLOAD_BYTES 0;
          buf = copy_at 0 (to_be_bytes 8 (hb_node_id h)) buf;
          buf = copy_at 8 (to_be_bytes 8 (hb_clock_offset_ns h)) buf;
          buf = copy_at 16 (to_be_bytes 8 (hb_heartbeat_seq h)) buf;
          buf = copy_at 24 (hb_reserved h) buf
      in buf)"

definition heartbeat_decode :: "bytes \<Rightarrow> protocol_error + heartbeat" where
  "heartbeat_decode bs =
     (if length bs \<noteq> HB_PAYLOAD_BYTES
      then Inl (SchemaMismatch (charge HB_OAM_MODE) HB_PAYLOAD_BYTES (length bs))
      else Inr \<lparr>hb_node_id = from_be_bytes (sub_slice 0 8 bs),
                hb_clock_offset_ns = from_be_bytes (sub_slice 8 16 bs),
                hb_heartbeat_seq = from_be_bytes (sub_slice 16 24 bs),
                hb_reserved = sub_slice 24 32 bs\<rparr>)"

definition wf_heartbeat :: "heartbeat \<Rightarrow> bool" where
  "wf_heartbeat h \<longleftrightarrow> length (hb_reserved h) = 8"

section \<open>The registry\<close>

datatype schema_id = SEquityTradeOrder | SMarketTick | SHeartbeat

definition resolve :: "oam_mode \<Rightarrow> schema_id option" where
  "resolve oam =
     (let c = sint (charge oam) in
      if c = 1 then Some SEquityTradeOrder else if c = 3 then Some SMarketTick
      else if c = 4 then Some SHeartbeat else None)"

definition payload_bytes :: "schema_id \<Rightarrow> nat" where
  "payload_bytes i = (case i of SEquityTradeOrder \<Rightarrow> EQ_PAYLOAD_BYTES
     | SMarketTick \<Rightarrow> MT_PAYLOAD_BYTES | SHeartbeat \<Rightarrow> HB_PAYLOAD_BYTES)"

datatype any_schema_value =
    VEquityTradeOrder equity_order
  | VMarketTick market_tick
  | VHeartbeat heartbeat

definition any_decode :: "oam_mode \<Rightarrow> bytes \<Rightarrow> protocol_error + any_schema_value" where
  "any_decode oam payload =
     try_bind (ok_or (resolve oam) (UnknownOamMode (charge oam))) (\<lambda>i.
       case i of
         SEquityTradeOrder \<Rightarrow> try_bind (equity_decode payload) (\<lambda>v. Inr (VEquityTradeOrder v))
       | SMarketTick \<Rightarrow> try_bind (tick_decode payload) (\<lambda>v. Inr (VMarketTick v))
       | SHeartbeat \<Rightarrow> try_bind (heartbeat_decode payload) (\<lambda>v. Inr (VHeartbeat v)))"

definition as_equity_order :: "any_schema_value \<Rightarrow> equity_order option" where
  "as_equity_order v = (case v of VEquityTradeOrder o' \<Rightarrow> Some o' | _ \<Rightarrow> None)"

section \<open>Layout lemmas\<close>

text \<open>Each encoder writes the concatenation of its fields, and a buffer is the concatenation of
  its slices at the field boundaries.\<close>

lemma oam_modes [simp]:
  "EQ_OAM_MODE = OamMode 1" "MT_OAM_MODE = OamMode 3" "HB_OAM_MODE = OamMode 4"
  by (simp_all add: EQ_OAM_MODE_def MT_OAM_MODE_def HB_OAM_MODE_def oam_new_const_def
      OAM_MIN_def OAM_MAX_def)

lemmas payload_sizes [simp] = EQ_PAYLOAD_BYTES_def MT_PAYLOAD_BYTES_def HB_PAYLOAD_BYTES_def

lemma copy_at_app:
  "length xs = i \<Longrightarrow> length src \<le> n \<Longrightarrow>
   copy_at i src (xs @ replicate n c) = (xs @ src) @ replicate (n - length src) c"
  by (simp add: copy_at_def)

lemma copy_at_replicate:
  "length src \<le> n \<Longrightarrow> copy_at 0 src (replicate n c) = src @ replicate (n - length src) c"
  by (simp add: copy_at_def)

lemma copy_at_gap:
  assumes "length xs + g = i" and "length src + g \<le> n"
  shows "copy_at i src (xs @ replicate n c) = (xs @ replicate g c @ src) @ replicate (n - g - length src) c"
proof -
  have "replicate n c = replicate g c @ replicate (n - g) c"
    using assms by (simp flip: replicate_add)
  then have "copy_at i src (xs @ replicate n c) = copy_at i src ((xs @ replicate g c) @ replicate (n - g) c)"
    by simp
  also have "\<dots> = ((xs @ replicate g c) @ src) @ replicate (n - g - length src) c"
    using assms by (intro copy_at_app) auto
  finally show ?thesis by simp
qed

lemma tick_encode_concat:
  assumes "wf_tick t"
  shows "tick_encode t = mt_symbol t @ to_be_bytes 8 (mt_bid_cents t) @ to_be_bytes 8 (mt_ask_cents t)
    @ to_be_bytes 8 (mt_last_cents t) @ to_be_bytes 8 (mt_volume t)
    @ to_be_bytes 8 (mt_timestamp_ns t) @ mt_reserved t"
  using assms by (simp add: tick_encode_def wf_tick_def Let_def copy_at_replicate copy_at_app del: append_assoc)

lemma heartbeat_encode_concat:
  assumes "wf_heartbeat h"
  shows "heartbeat_encode h = to_be_bytes 8 (hb_node_id h) @ to_be_bytes 8 (hb_clock_offset_ns h)
    @ to_be_bytes 8 (hb_heartbeat_seq h) @ hb_reserved h"
  using assms by (simp add: heartbeat_encode_def wf_heartbeat_def Let_def copy_at_replicate copy_at_app del: append_assoc)

lemma equity_encode_concat:
  assumes "wf_equity v"
  shows "equity_encode v = eq_symbol v @ [side_to_u8 (eq_side v)] @ replicate 3 0
    @ to_be_bytes 4 (eq_quantity v) @ replicate 4 0 @ to_be_bytes 8 (eq_price_cents v)
    @ to_be_bytes 8 (eq_timestamp_ns v) @ to_be_bytes 8 (eq_client_order_id v)
    @ eq_firm_uuid v @ replicate 200 0"
proof -
  have side: "i < length buf \<Longrightarrow> buf[i := b] = copy_at i [b] buf" for i b and buf :: bytes
    by (simp add: copy_at_def upd_conv_take_nth_drop)
  show ?thesis
    using assms
    by (simp add: equity_encode_def wf_equity_def Let_def side copy_at_replicate
        copy_at_gap [where g = 3] copy_at_gap [where g = 4] copy_at_app
        del: append_assoc replicate_Suc)
qed

section \<open>The three formats keep the wire contract\<close>

lemma side_round_trip [simp]: "side_from_u8 (side_to_u8 s) = Inr s"
  by (cases s) (simp_all add: side_from_u8_def side_to_u8_def)

lemma side_from_u8_Inr: "side_from_u8 b = Inr s \<longleftrightarrow> b = side_to_u8 s"
  by (cases s) (auto simp: side_from_u8_def side_to_u8_def)

lemma be_slice:
  "b - a = n \<Longrightarrow> b \<le> length bs \<Longrightarrow> LENGTH('a::len) = 8 * n \<Longrightarrow>
   to_be_bytes n (from_be_bytes (sub_slice a b bs) :: 'a word) = sub_slice a b bs"
  using to_from_be_bytes [of "sub_slice a b bs", where 'a = 'a] by simp

lemma slices_append: "a \<le> b \<Longrightarrow> b \<le> c \<Longrightarrow> sub_slice a b xs @ sub_slice b c xs = sub_slice a c xs"
proof -
  assume "a \<le> b" "b \<le> c"
  then obtain i j where "b = a + i" "c = a + i + j" by (auto simp: le_iff_add)
  then show ?thesis by (simp add: sub_slice_def take_add drop_drop add.commute)
qed

lemma slices_append': "a \<le> b \<Longrightarrow> b \<le> c \<Longrightarrow>
    sub_slice a b xs @ sub_slice b c xs @ ys = sub_slice a c xs @ ys"
  by (simp flip: slices_append [of a b c xs])

interpretation eqc: wire_codec equity_encode equity_decode EQ_PAYLOAD_BYTES wf_equity
proof
  fix v assume v: "wf_equity v"
  then show "length (equity_encode v) = EQ_PAYLOAD_BYTES"
    by (simp add: equity_encode_concat wf_equity_def)
  from v show "equity_decode (equity_encode v) = Inr v"
    by (simp add: equity_decode_def equity_encode_concat wf_equity_def sub_slice_def nth_append)
next
  fix bs v assume d: "equity_decode bs = Inr v"
  then show "wf_equity v"
    by (auto simp: equity_decode_def wf_equity_def try_bind_eq_Inr split: if_splits)
  from d show "length bs = EQ_PAYLOAD_BYTES"
    by (auto simp: equity_decode_def split: if_splits)
qed

interpretation mtc: canonical_codec tick_encode tick_decode MT_PAYLOAD_BYTES wf_tick
proof
  fix v assume v: "wf_tick v"
  then show "length (tick_encode v) = MT_PAYLOAD_BYTES"
    by (simp add: tick_encode_concat wf_tick_def)
  from v show "tick_decode (tick_encode v) = Inr v"
    by (simp add: tick_decode_def tick_encode_concat wf_tick_def sub_slice_def)
next
  fix bs v assume d: "tick_decode bs = Inr v"
  then show wf: "wf_tick v"
    by (auto simp: tick_decode_def wf_tick_def split: if_splits)
  from d show len: "length bs = MT_PAYLOAD_BYTES"
    by (auto simp: tick_decode_def split: if_splits)
  from d len show "tick_encode v = bs"
    by (auto simp: tick_encode_concat [OF wf] tick_decode_def be_slice slices_append slices_append')
qed

interpretation hbc: canonical_codec heartbeat_encode heartbeat_decode HB_PAYLOAD_BYTES wf_heartbeat
proof
  fix v assume v: "wf_heartbeat v"
  then show "length (heartbeat_encode v) = HB_PAYLOAD_BYTES"
    by (simp add: heartbeat_encode_concat wf_heartbeat_def)
  from v show "heartbeat_decode (heartbeat_encode v) = Inr v"
    by (simp add: heartbeat_decode_def heartbeat_encode_concat wf_heartbeat_def sub_slice_def)
next
  fix bs v assume d: "heartbeat_decode bs = Inr v"
  then show wf: "wf_heartbeat v"
    by (auto simp: heartbeat_decode_def wf_heartbeat_def split: if_splits)
  from d show len: "length bs = HB_PAYLOAD_BYTES"
    by (auto simp: heartbeat_decode_def split: if_splits)
  from d len show "heartbeat_encode v = bs"
    by (auto simp: heartbeat_encode_concat [OF wf] heartbeat_decode_def be_slice slices_append slices_append')
qed

text \<open>The equity order is not canonical: its decoder skips the reserved bytes. What it reads back
  and writes again is the buffer with those bytes cleared.\<close>

definition clear_reserved :: "bytes \<Rightarrow> bytes" where
  "clear_reserved bs =
     sub_slice 0 5 bs @ replicate 3 0 @ sub_slice 8 12 bs @ replicate 4 0 @ sub_slice 16 56 bs
     @ replicate 200 0"

lemma equity_reencode:
  assumes d: "equity_decode bs = Inr v"
  shows "equity_encode v = clear_reserved bs"
proof -
  have wf: "wf_equity v" and len: "length bs = 256"
    using eqc.dec_wf [OF d] eqc.dec_length [OF d] by simp_all
  have h: "bs ! 4 = b \<Longrightarrow> sub_slice 0 4 bs @ [b] = sub_slice 0 5 bs" for b
    using len by (simp add: sub_slice_def take_Suc_conv_app_nth [of 4 bs, simplified])
  from d len show ?thesis
    by (auto simp: equity_encode_concat [OF wf] equity_decode_def clear_reserved_def be_slice
        slices_append slices_append' try_bind_eq_Inr side_from_u8_Inr h)
qed

lemma clear_reserved_nth:
  assumes "length bs = 256" and "k < 256"
  shows "clear_reserved bs ! k = (if k \<in> {5..<8} \<union> {12..<16} \<union> {56..<256} then 0 else bs ! k)"
  using assms by (auto simp: clear_reserved_def sub_slice_def nth_append simp del: replicate_Suc)

lemma clear_reserved_length: "length bs = 256 \<Longrightarrow> length (clear_reserved bs) = 256"
  by (simp add: clear_reserved_def)

section \<open>The trait \<open>Schema\<close> and the dispatch\<close>

text \<open>What the codec relies on when it is generic in a schema: a wire format, an OAM mode inside
  the range, the error for a wrong length, and that the dispatcher sends that mode to that
  format.\<close>

locale payload_schema = wire_codec enc dec len wf
  for enc :: "'a \<Rightarrow> bytes" and dec :: "bytes \<Rightarrow> protocol_error + 'a" and len and wf +
  fixes oam :: oam_mode and wrap :: "'a \<Rightarrow> any_schema_value" and sid :: schema_id
  assumes oam_wf: "wf_oam oam"
    and resolves: "resolve oam = Some sid"
    and sid_len: "payload_bytes sid = len"
    and mismatch: "length bs \<noteq> len \<Longrightarrow> dec bs = Inl (SchemaMismatch (charge oam) len (length bs))"
    and dispatch: "any_decode oam bs = try_bind (dec bs) (\<lambda>v. Inr (wrap v))"
begin

lemma any_round_trip: "wf v \<Longrightarrow> any_decode oam (enc v) = Inr (wrap v)"
  by (simp add: dispatch dec_enc)

lemma any_mismatch:
  "length bs \<noteq> len \<Longrightarrow> any_decode oam bs = Inl (SchemaMismatch (charge oam) len (length bs))"
  by (simp add: dispatch mismatch)

lemma any_decode_wf: "any_decode oam bs = Inr a \<Longrightarrow> \<exists>v. a = wrap v \<and> wf v"
  by (auto simp: dispatch try_bind_eq_Inr dest: dec_wf)

end

interpretation eqs: payload_schema equity_encode equity_decode EQ_PAYLOAD_BYTES wf_equity
  EQ_OAM_MODE VEquityTradeOrder SEquityTradeOrder
  by unfold_locales
    (simp_all add: wf_oam_def OAM_MIN_def OAM_MAX_def resolve_def payload_bytes_def
      equity_decode_def any_decode_def)

interpretation mts: payload_schema tick_encode tick_decode MT_PAYLOAD_BYTES wf_tick
  MT_OAM_MODE VMarketTick SMarketTick
  by unfold_locales
    (simp_all add: wf_oam_def OAM_MIN_def OAM_MAX_def resolve_def payload_bytes_def
      tick_decode_def any_decode_def)

interpretation hbs: payload_schema heartbeat_encode heartbeat_decode HB_PAYLOAD_BYTES wf_heartbeat
  HB_OAM_MODE VHeartbeat SHeartbeat
  by unfold_locales
    (simp_all add: wf_oam_def OAM_MIN_def OAM_MAX_def resolve_def payload_bytes_def
      heartbeat_decode_def any_decode_def)

text \<open>The mode and the bytes of a value of any schema.\<close>

fun any_oam :: "any_schema_value \<Rightarrow> oam_mode" where
  "any_oam (VEquityTradeOrder v) = EQ_OAM_MODE"
| "any_oam (VMarketTick v) = MT_OAM_MODE"
| "any_oam (VHeartbeat v) = HB_OAM_MODE"

fun any_encode :: "any_schema_value \<Rightarrow> bytes" where
  "any_encode (VEquityTradeOrder v) = equity_encode v"
| "any_encode (VMarketTick v) = tick_encode v"
| "any_encode (VHeartbeat v) = heartbeat_encode v"

fun wf_any :: "any_schema_value \<Rightarrow> bool" where
  "wf_any (VEquityTradeOrder v) = wf_equity v"
| "wf_any (VMarketTick v) = wf_tick v"
| "wf_any (VHeartbeat v) = wf_heartbeat v"

lemma any_decode_encode: "wf_any v \<Longrightarrow> any_decode (any_oam v) (any_encode v) = Inr v"
  by (cases v) (simp_all add: eqs.any_round_trip [simplified] mts.any_round_trip [simplified]
      hbs.any_round_trip [simplified])

section \<open>Properties\<close>

lemma fill_app:
  "length bs \<le> n \<Longrightarrow> length xs = i \<Longrightarrow>
   fill i bs (xs @ replicate n 0) = xs @ bs @ replicate (n - length bs) 0"
proof (induction bs arbitrary: i xs n)
  case Nil
  then show ?case by simp
next
  case (Cons b bs)
  then obtain m where n: "n = Suc m" by (cases n) auto
  have "(xs @ replicate n 0)[i := b] = (xs @ [b]) @ replicate m 0"
    using Cons.prems by (simp add: n list_update_append)
  with Cons.IH [of m "xs @ [b]" "Suc i"] Cons.prems show ?case by (simp add: n)
qed

lemma takeWhile_pad:
  "takeWhile (\<lambda>b. b \<noteq> 0) (xs @ replicate n 0) = takeWhile (\<lambda>b. b \<noteq> 0) (xs :: bytes)"
  by (induction xs) (auto simp: takeWhile_eq_Nil_iff hd_replicate)

lemma resolve_Some:
  "resolve oam = Some SEquityTradeOrder \<longleftrightarrow> oam = EQ_OAM_MODE"
  "resolve oam = Some SMarketTick \<longleftrightarrow> oam = MT_OAM_MODE"
  "resolve oam = Some SHeartbeat \<longleftrightarrow> oam = HB_OAM_MODE"
proof -
  have c: "sint (charge oam) = sint (n :: i8) \<longleftrightarrow> oam = OamMode n" for n
    by (cases oam) (auto intro: signed_word_eqI)
  show "resolve oam = Some SEquityTradeOrder \<longleftrightarrow> oam = EQ_OAM_MODE"
    "resolve oam = Some SMarketTick \<longleftrightarrow> oam = MT_OAM_MODE"
    "resolve oam = Some SHeartbeat \<longleftrightarrow> oam = HB_OAM_MODE"
    using c [of 1] c [of 3] c [of 4] by (simp_all add: resolve_def Let_def)
qed

lemmas resolve_modes [simp] = eqs.resolves [simplified] mts.resolves [simplified] hbs.resolves [simplified]

lemma any_decode_cases:
  assumes "any_decode oam bs = Inr v"
  obtains (equity) w where "v = VEquityTradeOrder w" "equity_decode bs = Inr w" "resolve oam = Some SEquityTradeOrder"
    | (tick) w where "v = VMarketTick w" "tick_decode bs = Inr w" "resolve oam = Some SMarketTick"
    | (heartbeat) w where "v = VHeartbeat w" "heartbeat_decode bs = Inr w" "resolve oam = Some SHeartbeat"
  using assms
  by (auto simp: any_decode_def try_bind_eq_Inr ok_or_def split: option.splits schema_id.splits)

lemma any_decode_accepts:
  assumes "any_decode oam bs = Inr v"
  shows "wf_any v \<and> any_oam v = oam \<and> length bs = payload_bytes (the (resolve oam))"
  using assms
proof (cases rule: any_decode_cases)
  case (equity w)
  then show ?thesis
    using eqc.dec_wf [OF equity(2)] eqc.dec_length [OF equity(2)] by (simp add: payload_bytes_def resolve_Some)
next
  case (tick w)
  then show ?thesis
    using mtc.dec_wf [OF tick(2)] mtc.dec_length [OF tick(2)] by (simp add: payload_bytes_def resolve_Some)
next
  case (heartbeat w)
  then show ?thesis
    using hbc.dec_wf [OF heartbeat(2)] hbc.dec_length [OF heartbeat(2)] by (simp add: payload_bytes_def resolve_Some)
qed

lemma side_from_u8_Inl: "side_from_u8 b = Inl e \<longleftrightarrow> 1 < b \<and> e = WireFormat ''invalid side byte''"
proof -
  have "b = 0 \<or> b = 1 \<longleftrightarrow> \<not> 1 < unat b" by (auto simp: word_unat_eq_iff)
  then have "b = 0 \<or> b = 1 \<longleftrightarrow> \<not> 1 < b" by (simp add: word_less_nat_alt)
  then show ?thesis by (auto simp: side_from_u8_def)
qed

text \<open>(C29) Every failure of the dispatcher, with the error it returns: an OAM mode without a
  schema, a payload that has not the fixed size of the schema of its mode, or an equity order
  of the right size whose side byte is neither 0 nor 1. Nothing else is rejected.\<close>

theorem any_decode_errors:
  "any_decode oam bs = Inl e \<longleftrightarrow>
     (case resolve oam of
        None \<Rightarrow> e = UnknownOamMode (charge oam)
      | Some i \<Rightarrow>
          if length bs \<noteq> payload_bytes i
          then e = SchemaMismatch (charge oam) (payload_bytes i) (length bs)
          else i = SEquityTradeOrder \<and> 1 < bs ! 4 \<and> e = WireFormat ''invalid side byte'')"
proof (cases "resolve oam")
  case None
  then show ?thesis by (auto simp: any_decode_def)
next
  case (Some i)
  then show ?thesis
    by (cases i)
      (auto simp: any_decode_def try_bind_eq_Inl payload_bytes_def resolve_Some side_from_u8_Inl
        equity_decode_def tick_decode_def heartbeat_decode_def)
qed

text \<open>(C30) What an accepted payload means: writing the decoded value again gives every byte of the
  payload back, except that an equity order comes back with its reserved bytes 5 to 7, 12 to 15
  and 56 to 255 set to zero. So the decoder keeps all the information of a tick or heartbeat, which
  have one encoding per value, and of an order it drops the reserved bytes and nothing else.\<close>

theorem any_reencode:
  assumes "any_decode oam bs = Inr v"
  shows "length (any_encode v) = length bs \<and>
    (\<forall>k < length bs. any_encode v ! k =
       (if resolve oam = Some SEquityTradeOrder \<and> k \<in> {5..<8} \<union> {12..<16} \<union> {56..<256} then 0 else bs ! k))"
  using assms
proof (cases rule: any_decode_cases)
  case (equity w)
  have "length bs = 256" using eqc.dec_length [OF equity(2)] by simp
  with equity show ?thesis
    by (simp add: equity_reencode [OF equity(2)] clear_reserved_length clear_reserved_nth)
next
  case (tick w)
  then show ?thesis by (simp add: mtc.enc_dec)
next
  case (heartbeat w)
  then show ?thesis by (simp add: hbc.enc_dec)
qed

theorem any_reencode_witness:
  "let bs = (replicate 256 0)[100 := 7];
       v = VEquityTradeOrder \<lparr>eq_symbol = [0, 0, 0, 0], eq_side = Buy, eq_quantity = 0,
             eq_price_cents = 0, eq_timestamp_ns = 0, eq_client_order_id = 0,
             eq_firm_uuid = replicate 16 0\<rparr>
   in any_decode EQ_OAM_MODE bs = Inr v \<and> bs ! 100 = 7 \<and> any_encode v ! 100 = 0 \<and> any_encode v ! 30 = bs ! 30"
proof -
  define bs :: bytes where "bs = (replicate 256 0)[100 := 7]"
  define v where "v = VEquityTradeOrder \<lparr>eq_symbol = [0, 0, 0, 0], eq_side = Buy, eq_quantity = 0,
             eq_price_cents = 0, eq_timestamp_ns = 0, eq_client_order_id = 0,
             eq_firm_uuid = replicate 16 0\<rparr>"
  have d: "any_decode EQ_OAM_MODE bs = Inr v" unfolding bs_def v_def by code_simp
  have b: "length bs = 256" "bs ! 100 = 7" by (simp_all add: bs_def del: replicate_Suc)
  have "resolve EQ_OAM_MODE = Some SEquityTradeOrder" by code_simp
  with any_reencode [OF d] b have "any_encode v ! 100 = 0" "any_encode v ! 30 = bs ! 30" by simp_all
  with d b(2) show ?thesis by (simp only: bs_def v_def Let_def simp_thms)
qed

text \<open>The symbol a reader gets back from a constructed order: the bytes of the given symbol
  up to a NUL, cut to four, if they are well-formed UTF-8, and \<open>?\<close> otherwise. A multi-byte
  character that the cut splits therefore loses the whole symbol.\<close>

theorem symbol_str_new:
  "symbol_str (equity_new s sd q p ts oid uuid) =
     (let cut = takeWhile (\<lambda>b. b \<noteq> 0) (take 4 s) in if utf8_valid cut then cut else [0x3F])"
  using fill_app [of "take 4 s" 4 "[]" 0]
  by (simp add: symbol_str_def equity_new_def takeWhile_pad)

end
