(* ===== verification/F32Near.thy ===== *)
theory F32Near
  imports IeeeFloat
begin

text \<open>
  Propagation of rounding errors through \<open>f32\<close> expressions. \<open>near k x v\<close> says that the float
  \<open>v\<close> is the real \<open>x\<close> up to a relative error of \<open>k\<close> unit roundoffs; each operation adds to
  \<open>k\<close>. \<open>mid x\<close> keeps the exact value away from underflow and overflow. The constants are
  not the sharpest ones, they are chosen to add up.
\<close>

definition u32r :: real where
  "u32r = 1 / 16777216"

definition near :: "real \<Rightarrow> real \<Rightarrow> fp \<Rightarrow> bool" where
  "near k x v \<longleftrightarrow> is_fin v \<and> (\<exists>a. \<bar>a\<bar> \<le> k * u32r \<and> fval v = x * (1 + a))"

definition mid :: "real \<Rightarrow> bool" where
  "mid x \<longleftrightarrow> x = 0 \<or> 1 / 2 ^ 100 \<le> \<bar>x\<bar> \<and> \<bar>x\<bar> \<le> 2 ^ 100"

named_theorems nearI \<open>error propagation, one rule per operation\<close>

lemma uro_f32: "uro f32 = u32r"
  by (simp add: uro_def f32_def u32r_def power_int_minus)

lemma u32r_small: "0 < u32r" "u32r \<le> 1 / 10000000"
  by (simp_all add: u32r_def)

lemma near_fin: "near k x v \<Longrightarrow> is_fin v"
  by (simp add: near_def)

lemma near_nonneg: "near k x v \<Longrightarrow> 0 \<le> k"
  using u32r_small(1) by (auto simp: near_def) (metis abs_ge_zero mult_less_0_iff not_le order_trans)

lemma near_mono: "near k x v \<Longrightarrow> k \<le> k' \<Longrightarrow> near k' x v"
  using u32r_small(1) by (fastforce simp: near_def intro: order_trans mult_right_mono)

lemma near_exact: "is_fin v \<Longrightarrow> near 0 (fval v) v"
  by (auto simp: near_def intro!: exI [of _ 0])

lemma near_zero: "near k 0 v \<Longrightarrow> fval v = 0"
  by (auto simp: near_def)

lemma approx_near: "approx f32 x v \<Longrightarrow> near 1 x v"
proof -
  assume a: "approx f32 x v"
  show "near 1 x v"
  proof (cases "x = 0")
    case True
    with a show ?thesis by (auto simp: near_def approx_def u32r_def intro!: exI [of _ 0])
  next
    case False
    define e where "e = fval v / x - 1"
    have v: "fval v = x * (1 + e)" using False by (simp add: e_def)
    with a have "\<bar>x\<bar> * \<bar>e\<bar> \<le> u32r * \<bar>x\<bar>"
      by (simp add: approx_def uro_f32 distrib_left abs_mult)
    then have "\<bar>e\<bar> \<le> u32r" using False by simp
    with v a show ?thesis by (auto simp: near_def approx_def intro!: exI [of _ e])
  qed
qed

text \<open>A relative error of at most half does not leave the range of \<open>f32\<close>.\<close>

lemma in_range_mid:
  assumes "mid x" and "y = x * (1 + a)" and "\<bar>a\<bar> \<le> 1 / 2"
  shows "in_range f32 y"
proof (cases "x = 0")
  case True
  with assms show ?thesis by (simp add: in_range_def)
next
  case False
  have a: "1 / 2 \<le> 1 + a" "1 + a \<le> 3 / 2" using assms(3) by linarith+
  have x: "1 / 2 ^ 100 \<le> \<bar>x\<bar>" "\<bar>x\<bar> \<le> 2 ^ 100" using assms(1) False by (auto simp: mid_def)
  have "1 / 2 ^ 100 * (1 / 2) \<le> \<bar>x\<bar> * (1 + a)" using a x by (intro mult_mono) auto
  moreover have "\<bar>x\<bar> * (1 + a) \<le> 2 ^ 100 * (3 / 2)" using a x by (intro mult_mono) auto
  moreover have "\<bar>y\<bar> = \<bar>x\<bar> * (1 + a)" using a by (simp add: assms(2) abs_mult)
  moreover have "in_range f32 y \<longleftrightarrow> y = 0 \<or> 1 / 2 ^ 126 \<le> \<bar>y\<bar> \<and> \<bar>y\<bar> < 2 ^ 127"
    by (simp add: in_range_def f32_def power_int_minus)
  ultimately show ?thesis by simp
qed

lemma near_round:
  assumes "approx f32 y v" and "y = x * (1 + a)" and "\<bar>a\<bar> \<le> k * u32r" and "k \<le> 500"
  shows "near (k + 2) x v"
proof -
  from approx_near [OF assms(1)] obtain g where g: "\<bar>g\<bar> \<le> u32r" "fval v = y * (1 + g)"
    by (auto simp: near_def)
  define c where "c = a + g + a * g"
  have v: "fval v = x * (1 + c)" by (simp add: g assms(2) c_def algebra_simps)
  have "k * u32r \<le> 500 * u32r" using assms(4) u32r_small by (intro mult_right_mono) auto
  then have "\<bar>a\<bar> \<le> 1" using assms(3) u32r_small by linarith
  then have "\<bar>a * g\<bar> \<le> 1 * u32r" unfolding abs_mult using g by (intro mult_mono) auto
  then have "\<bar>c\<bar> \<le> (k + 2) * u32r"
    using assms(3) g unfolding c_def distrib_right by linarith
  with v assms(1) show ?thesis by (auto simp: near_def approx_def)
qed

lemma small_prod:
  assumes "\<bar>a\<bar> \<le> k1 * u32r" "\<bar>b\<bar> \<le> k2 * u32r" "k1 \<le> 500" "k2 \<le> 500"
  shows "\<bar>a * b\<bar> \<le> u32r" and "\<bar>a\<bar> \<le> 1 / 10000" and "\<bar>b\<bar> \<le> 1 / 10000"
proof -
  have "k1 * u32r \<le> 500 * u32r" "k2 * u32r \<le> 500 * u32r"
    using assms u32r_small by (auto intro!: mult_right_mono)
  then have ab: "\<bar>a\<bar> \<le> 500 * u32r" "\<bar>b\<bar> \<le> 500 * u32r" using assms by linarith+
  then show "\<bar>a\<bar> \<le> 1 / 10000" "\<bar>b\<bar> \<le> 1 / 10000" using u32r_small by linarith+
  have "\<bar>a * b\<bar> \<le> 1 / 10000 * (500 * u32r)"
    unfolding abs_mult using ab \<open>\<bar>a\<bar> \<le> 1 / 10000\<close> by (intro mult_mono) auto
  then show "\<bar>a * b\<bar> \<le> u32r" using u32r_small by linarith
qed

lemma near_mul [nearI]:
  assumes a: "near k1 x a" and b: "near k2 y b" and k: "k1 \<le> 200" "k2 \<le> 200" and m: "mid (x * y)"
  shows "near (k1 + k2 + 3) (x * y) (fp_mul f32 a b)"
proof -
  from a b obtain p q where p: "\<bar>p\<bar> \<le> k1 * u32r" "fval a = x * (1 + p)"
    and q: "\<bar>q\<bar> \<le> k2 * u32r" "fval b = y * (1 + q)" by (auto simp: near_def)
  define c where "c = p + q + p * q"
  have v: "fval a * fval b = x * y * (1 + c)" by (simp add: p q c_def algebra_simps)
  note sp = small_prod [OF p(1) q(1)]
  have c: "\<bar>c\<bar> \<le> (k1 + k2 + 1) * u32r" using p q sp k unfolding c_def distrib_right by linarith
  have "\<bar>c\<bar> \<le> 1 / 2" using sp k u32r_small unfolding c_def by linarith
  then have "approx f32 (fval a * fval b) (fp_mul f32 a b)"
    using a b in_range_mid [OF m v] by (intro fp_mul_approx) (auto dest: near_fin)
  from near_round [OF this v c] k show ?thesis by (simp add: ac_simps)
qed

text \<open>Addition of terms of one sign.\<close>

lemma near_add [nearI]:
  assumes a: "near k1 x a" and b: "near k2 y b" and k: "k1 \<le> 200" "k2 \<le> 200"
    and s: "0 \<le> x" "0 \<le> y" and m: "mid (x + y)"
  shows "near (max k1 k2 + 2) (x + y) (fp_add f32 a b)"
proof (cases "x + y = 0")
  case True
  with s have "x = 0" "y = 0" by auto
  with a b have z: "fval a = 0" "fval b = 0" by (auto dest: near_zero)
  then have "approx f32 (fval a + fval b) (fp_add f32 a b)"
    using a b by (intro fp_add_approx) (auto dest: near_fin simp: in_range_def)
  then have "near 1 (x + y) (fp_add f32 a b)" using z True by (auto dest: approx_near)
  then show ?thesis by (rule near_mono) (use near_nonneg [OF a] in simp)
next
  case False
  from a b obtain p q where p: "\<bar>p\<bar> \<le> k1 * u32r" "fval a = x * (1 + p)"
    and q: "\<bar>q\<bar> \<le> k2 * u32r" "fval b = y * (1 + q)" by (auto simp: near_def)
  define K where "K = max k1 k2"
  have K: "k1 * u32r \<le> K * u32r" "k2 * u32r \<le> K * u32r"
    unfolding K_def using u32r_small by (auto intro!: mult_right_mono)
  define c where "c = (x * p + y * q) / (x + y)"
  have v: "fval a + fval b = (x + y) * (1 + c)"
  proof -
    have "(x + y) * c = x * p + y * q" using False by (simp add: c_def)
    then show ?thesis by (simp add: p q distrib_left)
  qed
  have "\<bar>x * p + y * q\<bar> \<le> x * \<bar>p\<bar> + y * \<bar>q\<bar>"
    using abs_triangle_ineq [of "x * p" "y * q"] s by (simp add: abs_mult)
  also have "\<dots> \<le> x * (K * u32r) + y * (K * u32r)"
    using p q K s by (intro add_mono mult_left_mono) auto
  finally have c: "\<bar>c\<bar> \<le> K * u32r"
    using False s by (simp add: c_def divide_le_eq ac_simps distrib_left)
  have "K * u32r \<le> 200 * u32r" unfolding K_def using k u32r_small by (intro mult_right_mono) auto
  then have "\<bar>c\<bar> \<le> 1 / 2" using c u32r_small by linarith
  then have "approx f32 (fval a + fval b) (fp_add f32 a b)"
    using a b in_range_mid [OF m v] by (intro fp_add_approx) (auto dest: near_fin)
  from near_round [OF this v c] k show ?thesis by (simp add: K_def)
qed

lemma near_div [nearI]:
  assumes a: "near k1 x a" and b: "near k2 y b" and k: "k1 \<le> 200" "k2 \<le> 200"
    and y: "y \<noteq> 0" and m: "mid (x / y)"
  shows "near (k1 + k2 + 6) (x / y) (fp_div f32 a b)"
proof -
  from a b obtain p q where p: "\<bar>p\<bar> \<le> k1 * u32r" "fval a = x * (1 + p)"
    and q: "\<bar>q\<bar> \<le> k2 * u32r" "fval b = y * (1 + q)" by (auto simp: near_def)
  note sp = small_prod [OF p(1) q(1)]
  have sq: "\<bar>q * q\<bar> \<le> u32r" using small_prod [OF q(1) q(1)] k by simp
  have q1: "0 < 1 + q" "1 / 2 \<le> 1 + q" using sp k by linarith+
  define c where "c = (1 + p) / (1 + q) - 1"
  have v: "fval a / fval b = x / y * (1 + c)" by (simp add: p q c_def)
  have ceq: "c = (p - q) / (1 + q)" using q1 by (simp add: c_def divide_eq_eq eq_divide_eq left_diff_distrib)
  then have "c = p - q - c * q" using q1 by (simp add: field_simps)
  moreover have "c * q = (p - q) * q / (1 + q)" by (simp add: ceq)
  moreover have "\<bar>(p - q) * q / (1 + q)\<bar> \<le> 4 * u32r"
  proof -
    have "\<bar>p * q\<bar> \<le> u32r" using sp(1) k by simp
    then have "\<bar>(p - q) * q\<bar> \<le> 2 * u32r" using sq unfolding left_diff_distrib by linarith
    then have "\<bar>(p - q) * q\<bar> / (1 + q) \<le> 2 * u32r / (1 / 2)"
      using q1 by (intro frac_le) auto
    then show ?thesis unfolding abs_divide abs_of_pos [OF q1(1)] by simp
  qed
  ultimately have "\<bar>c\<bar> \<le> k1 * u32r + k2 * u32r + 4 * u32r" using p q by linarith
  then have c: "\<bar>c\<bar> \<le> (k1 + k2 + 4) * u32r" by (simp add: distrib_right)
  have "(k1 + k2 + 4) * u32r \<le> 404 * u32r" using k u32r_small by (intro mult_right_mono) auto
  then have "\<bar>c\<bar> \<le> 1 / 2" using c u32r_small by linarith
  have yv: "fval b \<noteq> 0" using y q1 by (simp add: q)
  have "approx f32 (fval a / fval b) (fp_div f32 a b)"
    using a b in_range_mid [OF m v \<open>\<bar>c\<bar> \<le> 1 / 2\<close>] yv by (intro fp_div_approx) (auto dest: near_fin)
  from near_round [OF this v c] k show ?thesis by (simp add: ac_simps)
qed

lemma near_sqrt [nearI]:
  assumes a: "near k x a" and k: "k \<le> 400" and x: "0 < x" and m: "mid (sqrt x)"
  shows "near (k + 2) (sqrt x) (fp_sqrt f32 a)"
proof -
  from a obtain p where p: "\<bar>p\<bar> \<le> k * u32r" "fval a = x * (1 + p)" by (auto simp: near_def)
  have p1: "\<bar>p\<bar> \<le> 1 / 10000" using small_prod(2) [OF p(1) p(1)] k by simp
  then have pos: "0 < fval a" using x by (simp add: p)
  define c where "c = sqrt (1 + p) - 1"
  have v: "sqrt (fval a) = sqrt x * (1 + c)" by (simp add: p c_def real_sqrt_mult)
  define r where "r = sqrt (1 + p)"
  have r: "0 \<le> r" "r * r = 1 + p" using p1 by (simp_all add: r_def)
  have "c * (r + 1) = p" using r by (simp add: c_def r_def [symmetric] algebra_simps)
  then have "\<bar>p\<bar> = \<bar>c * (r + 1)\<bar>" by simp
  then have "\<bar>c\<bar> * (r + 1) = \<bar>p\<bar>" using r by (simp add: abs_mult)
  moreover have "\<bar>c\<bar> * 1 \<le> \<bar>c\<bar> * (r + 1)" using r by (intro mult_left_mono) simp_all
  ultimately have "\<bar>c\<bar> \<le> \<bar>p\<bar>" by simp
  then have c: "\<bar>c\<bar> \<le> k * u32r" "\<bar>c\<bar> \<le> 1 / 2" using p p1 by linarith+
  have "approx f32 (sqrt (fval a)) (fp_sqrt f32 a)"
    using a pos in_range_mid [OF m v c(2)] by (intro fp_sqrt_approx) (auto dest: near_fin)
  from near_round [OF this v c(1)] k show ?thesis by simp
qed

end
