(* ===== verification/Crypto.thy ===== *)
theory Crypto
  imports Core F32Near
begin

text \<open>
  The crate otap-crypto: the polarization trajectory derived from a shared secret and the
  context of a Transient, and its verification in the two authentication modes. HMAC-SHA256
  and SHA-256 are parameters: \<open>hmac key message\<close> is the tag of the concatenation of all bytes
  given to \<open>update\<close>.
\<close>

section \<open>Shared secret\<close>

datatype shared_secret = SharedSecret (secret_bytes: bytes)

type_synonym hmac_fn = "bytes \<Rightarrow> bytes \<Rightarrow> bytes"
type_synonym hash_fn = "bytes \<Rightarrow> bytes"

definition wf_secret :: "shared_secret \<Rightarrow> bool" where
  "wf_secret s \<longleftrightarrow> length (secret_bytes s) = 32"

definition test_from_label :: "hash_fn \<Rightarrow> bytes \<Rightarrow> shared_secret" where
  "test_from_label sha256 label = SharedSecret (sha256 (ascii ''OTAP-TEST-KEY-'' @ label))"

section \<open>Derivation\<close>

record trajectory_context =
  ctx_wavelength :: wavelength
  ctx_oam :: oam_mode
  ctx_sequence :: u16
  ctx_payload :: bytes

text \<open>The bytes the context is bound by; the length is truncated to 32 bits as \<open>as u32\<close> does.\<close>

definition mac_input :: "trajectory_context \<Rightarrow> bytes" where
  "mac_input ctx =
     ascii ''OTAP-D3-TRAJECTORY-v1''
     @ to_be_bytes 2 (channel (ctx_wavelength ctx))
     @ to_be_bytes 1 (charge (ctx_oam ctx))
     @ to_be_bytes 2 (ctx_sequence ctx)
     @ to_be_bytes 4 (of_nat (length (ctx_payload ctx)) :: u32)
     @ ctx_payload ctx"

definition sample_input :: "bytes \<Rightarrow> nat \<Rightarrow> bytes" where
  "sample_input tag i = ascii ''OTAP-D3-SAMPLE-v1'' @ tag @ to_be_bytes 2 (of_nat i :: u16)"

text \<open>\<open>i16::from_be_bytes([hi, lo]) as f32 / 32768.0\<close>\<close>

definition to_signed :: "u8 \<Rightarrow> u8 \<Rightarrow> fp" where
  "to_signed hi lo =
     fp_div f32 (fp_of_int f32 (sint (from_be_bytes [hi, lo] :: 16 word))) (fp_lit f32 32768 1)"

definition stokes_from_bytes :: "bytes \<Rightarrow> stokes" where
  "stokes_from_bytes bs =
     stokes_new (to_signed (bs ! 0) (bs ! 1)) (to_signed (bs ! 2) (bs ! 3)) (to_signed (bs ! 4) (bs ! 5))"

definition derive_trajectory :: "hmac_fn \<Rightarrow> shared_secret \<Rightarrow> trajectory_context \<Rightarrow> trajectory" where
  "derive_trajectory hmac secret ctx =
     (let tag = hmac (secret_bytes secret) (mac_input ctx)
      in trajectory_new
           (map (\<lambda>i. stokes_from_bytes (sub_slice 0 6 (hmac (secret_bytes secret) (sample_input tag i))))
             [0..<TRAJECTORY_SAMPLES]))"

section \<open>Verification\<close>

datatype auth_mode = TrajectoryMatch (tolerance_rad: fp) | Topological

definition default_auth_mode :: auth_mode where
  "default_auth_mode = TrajectoryMatch (fp_lit f32 1 10)"

fun match_samples :: "libm \<Rightarrow> fp \<Rightarrow> trajectory \<Rightarrow> trajectory \<Rightarrow> nat list \<Rightarrow> protocol_error + unit" where
  "match_samples lm tol expected observed [] = Inr ()"
| "match_samples lm tol expected observed (i # is) =
     (let d = angular_distance lm (samples expected ! i) (samples observed ! i)
      in if fp_lt tol d then Inl AuthenticationFailure
         else match_samples lm tol expected observed is)"

text \<open>\<open>None\<close> when a winding number does not come back.\<close>

definition verify_trajectory ::
  "libm \<Rightarrow> hmac_fn \<Rightarrow> shared_secret \<Rightarrow> trajectory_context \<Rightarrow> trajectory \<Rightarrow> auth_mode
   \<Rightarrow> (protocol_error + unit) option" where
  "verify_trajectory lm hmac secret ctx observed mode =
     (let expected = derive_trajectory hmac secret ctx
      in case mode of
           TrajectoryMatch tol \<Rightarrow> Some (match_samples lm tol expected observed [0..<TRAJECTORY_SAMPLES])
         | Topological \<Rightarrow>
             Option.bind (winding_number_s3 lm expected) (\<lambda>e.
               map_option (\<lambda>ob. if e = ob then Inr () else Inl AuthenticationFailure)
                 (winding_number_s3 lm observed)))"

section \<open>What the tag covers\<close>

lemma wf_derive_trajectory [simp]: "wf_trajectory (derive_trajectory hmac s ctx)"
  by (simp add: derive_trajectory_def wf_trajectory_def trajectory_new_def Let_def)

lemma mac_input_inj: "mac_input a = mac_input b \<longleftrightarrow> a = b"
proof
  assume eq: "mac_input a = mac_input b"
  then have "to_be_bytes 2 (channel (ctx_wavelength a)) = to_be_bytes 2 (channel (ctx_wavelength b))"
    "to_be_bytes 1 (charge (ctx_oam a)) = to_be_bytes 1 (charge (ctx_oam b))"
    "to_be_bytes 2 (ctx_sequence a) = to_be_bytes 2 (ctx_sequence b)"
    "ctx_payload a = ctx_payload b"
    by (simp_all add: mac_input_def)
  then have "channel (ctx_wavelength a) = channel (ctx_wavelength b)"
    "charge (ctx_oam a) = charge (ctx_oam b)" "ctx_sequence a = ctx_sequence b"
    "ctx_payload a = ctx_payload b"
    by (auto dest!: to_be_bytes_inj [rotated])
  then show "a = b"
    by (intro trajectory_context.equality wavelength.expand oam_mode.expand) simp_all
qed simp

lemma mac_input_not_sample: "mac_input ctx \<noteq> sample_input tag i"
proof -
  have "mac_input ctx ! 8 = 0x54" "sample_input tag i ! 8 = 0x53"
    by (simp_all add: mac_input_def sample_input_def ascii_def nth_append)
  then show ?thesis by auto
qed

lemma match_samples_ok:
  "match_samples lm tol e ob is = Inr () \<longleftrightarrow>
   (\<forall>i \<in> set is. \<not> fp_lt tol (angular_distance lm (samples e ! i) (samples ob ! i)))"
  by (induction "is") (simp_all add: Let_def)

lemma match_samples_cases:
  "match_samples lm tol e ob is = Inr () \<or> match_samples lm tol e ob is = Inl AuthenticationFailure"
  by (induction "is") (simp_all add: Let_def)

end
