(* ===== verification/Stokes.thy ===== *)
theory Stokes
  imports Crypto
begin

text \<open>
  The accuracy of normalisation and angular distance in \<open>f32\<close>. A Stokes vector built from
  16-bit components differs from the exact unit vector by a few units of roundoff, so that the
  dot product of two such vectors for the same state is one up to \<open>2 ^ -17\<close>, and the distance
  between them is at most \<open>2 ^ -7\<close> plus the error of \<open>acos\<close>.
\<close>

section \<open>Magnitudes\<close>

definition rng :: "nat \<Rightarrow> nat \<Rightarrow> real \<Rightarrow> bool" where
  "rng p q x \<longleftrightarrow> x = 0 \<or> 1 / 2 ^ p \<le> \<bar>x\<bar> \<and> \<bar>x\<bar> \<le> 2 ^ q"

lemma rng_mid: "rng p q x \<Longrightarrow> p \<le> 100 \<Longrightarrow> q \<le> 100 \<Longrightarrow> mid x"
proof -
  assume r: "rng p q x" and "p \<le> 100" "q \<le> 100"
  then have "(1::real) / 2 ^ 100 \<le> 1 / 2 ^ p" "(2::real) ^ q \<le> 2 ^ 100"
    by (intro divide_left_mono power_increasing; simp)+
  with r show "mid x" unfolding rng_def mid_def by linarith
qed

lemma rng_mult: "rng p q x \<Longrightarrow> rng p' q' y \<Longrightarrow> rng (p + p') (q + q') (x * y)"
proof -
  assume r: "rng p q x" "rng p' q' y"
  show ?thesis
  proof (cases "x = 0 \<or> y = 0")
    case False
    with r have "1 / 2 ^ p * (1 / 2 ^ p') \<le> \<bar>x\<bar> * \<bar>y\<bar>" "\<bar>x\<bar> * \<bar>y\<bar> \<le> 2 ^ q * 2 ^ q'"
      by (intro mult_mono; auto simp: rng_def)+
    then show ?thesis by (simp add: rng_def abs_mult power_add)
  qed (auto simp: rng_def)
qed

lemma rng_add: "rng p q x \<Longrightarrow> rng p q y \<Longrightarrow> 0 \<le> x \<Longrightarrow> 0 \<le> y \<Longrightarrow> rng p (Suc q) (x + y)"
  unfolding rng_def by auto

lemma rng_mono: "rng p q x \<Longrightarrow> q \<le> q' \<Longrightarrow> rng p q' x"
  unfolding rng_def by (metis one_le_numeral order_trans power_increasing)

lemma rng_sqrt: "rng (2 * p) (2 * q) x \<Longrightarrow> 0 \<le> x \<Longrightarrow> rng p q (sqrt x)"
proof -
  assume r: "rng (2 * p) (2 * q) x" "0 \<le> x"
  show ?thesis
  proof (cases "x = 0")
    case False
    with r have "(1 / 2 ^ p)\<^sup>2 \<le> x" "x \<le> (2 ^ q)\<^sup>2"
      by (simp_all add: rng_def power_divide power_mult power2_eq_square flip: power_add mult_2)
    then have "1 / 2 ^ p \<le> sqrt x" "sqrt x \<le> 2 ^ q"
      by (auto intro: real_le_rsqrt real_le_lsqrt)
    then show ?thesis using r by (simp add: rng_def)
  qed (simp add: rng_def)
qed

lemma rng_div: "rng p q x \<Longrightarrow> rng p' q' y \<Longrightarrow> y \<noteq> 0 \<Longrightarrow> rng (p + q') (q + p') (x / y)"
proof -
  assume r: "rng p q x" "rng p' q' y" and y: "y \<noteq> 0"
  show ?thesis
  proof (cases "x = 0")
    case False
    have "1 / 2 ^ p / 2 ^ q' \<le> \<bar>x\<bar> / \<bar>y\<bar>" "\<bar>x\<bar> / \<bar>y\<bar> \<le> 2 ^ q / (1 / 2 ^ p')"
      using r y False by (intro frac_le; auto simp: rng_def)+
    then show ?thesis by (simp add: rng_def abs_divide power_add)
  qed (simp add: rng_def)
qed

section \<open>Exact conversions\<close>

lemma rne_one: "rne n 1 = n"
  by (simp add: rne_def)

lemma fp_round_exact:
  assumes f: "fmt_ok f" and n: "0 \<le> n" and e: "round_exp f (flog2 n 1 + k) \<le> k"
    and m: "round_exp f (flog2 n 1 + k) < emax f"
  shows "is_fin (fp_round f s n 1 k)" and "fval (fp_round f s n 1 k) = sg s (real_of_int n * 2 powi k)"
proof -
  define e where "e = round_exp f (flog2 n 1 + k)"
  have ek: "e \<le> k" using assms(3) by (simp add: e_def)
  have p: "(2::real) ^ nat (k - e) * 2 powi e = 2 powi k"
    using ek by (simp add: powi2_nat powi2_diff)
  have "shl 1 (e - k) = 1" using ek by (simp add: shl_def)
  then have "n \<noteq> 0 \<Longrightarrow> fp_round f s n 1 k = fp_pack f s (shl n (k - e)) e"
    by (simp add: fp_round_def Let_def e_def [symmetric] rne_one)
  moreover have "0 \<le> shl n (k - e)" "e < emax f" using n m by (simp_all add: e_def)
  note fp_pack_value [OF f this, of s]
  ultimately show "is_fin (fp_round f s n 1 k)" "fval (fp_round f s n 1 k) = sg s (real_of_int n * 2 powi k)"
    by (cases "n = 0"; simp add: fp_round_def shl_def p sg_def)+
qed

lemma fp_of_int_exact:
  assumes "\<bar>i\<bar> < 2 ^ 24"
  shows "is_fin (fp_of_int f32 i)" and "fval (fp_of_int f32 i) = real_of_int i"
proof -
  have *: "round_exp f32 (flog2 \<bar>i\<bar> 1 + 0) \<le> 0 \<and> round_exp f32 (flog2 \<bar>i\<bar> 1 + 0) < emax f32"
  proof (cases "i = 0")
    case True
    show ?thesis unfolding True abs_zero by code_simp
  next
    case False
    have "2 powi flog2 \<bar>i\<bar> 1 \<le> real_of_int \<bar>i\<bar>" using flog2_bounds(1) [of "\<bar>i\<bar>" 1] False by simp
    also have "\<dots> < 2 powi 24" using assms by (simp add: power_int_def)
    finally have "flog2 \<bar>i\<bar> 1 < 24" by (rule powi2_less_cancel)
    then show ?thesis by (simp add: round_exp_def f32_def)
  qed
  note ex = fp_round_exact [OF fmt_ok_f32 abs_ge_zero, of i 0 "i < 0"]
  from * ex show "is_fin (fp_of_int f32 i)" "fval (fp_of_int f32 i) = real_of_int i"
    by (auto simp: fp_of_int_def fp_lit_def sg_def)
qed

section \<open>Normalisation\<close>

lemma near_add_zero [nearI]:
  assumes a: "near k x a" and b: "is_fin b" "fval b = 0" and k: "k \<le> 200" and m: "mid x"
  shows "near (k + 2) x (fp_add f32 a b)" and "near (k + 2) x (fp_add f32 b a)"
proof -
  from a obtain p where p: "\<bar>p\<bar> \<le> k * u32r" "fval a = x * (1 + p)" by (auto simp: near_def)
  have "\<bar>p\<bar> \<le> 1 / 2" using small_prod(2) [OF p(1) p(1)] k by simp
  note r = in_range_mid [OF m p(2) this]
  have "approx f32 (fval a + fval b) (fp_add f32 a b)" "approx f32 (fval b + fval a) (fp_add f32 b a)"
    using near_fin [OF a] b r fp_add_approx [of f32 a b] fp_add_approx [of f32 b a] by simp_all
  with near_round [OF _ p(2,1)] k b show "near (k + 2) x (fp_add f32 a b)" "near (k + 2) x (fp_add f32 b a)"
    by simp_all
qed

lemma near_dot3:
  assumes k: "k1 \<le> 90" "k2 \<le> 190" "k1 + k2 \<le> 190"
    and a: "near k1 x1 a1" "near k1 x2 a2" "near k1 x3 a3"
    and b: "near k2 x1 b1" "near k2 x2 b2" "near k2 x3 b3"
    and r: "rng 16 1 x1" "rng 16 1 x2" "rng 16 1 x3"
  shows "near (k1 + k2 + 7) (x1 * x1 + x2 * x2 + x3 * x3) (dot3 a1 b1 a2 b2 a3 b3)"
proof -
  have sq: "rng 32 2 (x * x)" if "rng 16 1 x" for x using rng_mult [OF that that] by (simp add: numeral_2_eq_2)
  have s12: "rng 32 3 (x1 * x1 + x2 * x2)" using rng_add [OF sq sq] r by (simp add: numeral_eq_Suc)
  have s123: "rng 32 4 (x1 * x1 + x2 * x2 + x3 * x3)"
    using rng_add [OF s12 rng_mono [OF sq [OF r(3)]]] by simp
  have m: "near (k1 + k2 + 3) (x * x) (fp_mul f32 u v)" if "near k1 x u" "near k2 x v" "rng 16 1 x" for x u v
    using near_mul [OF that(1,2)] k rng_mid [OF sq [OF that(3)]] near_nonneg [OF that(1)] by simp
  have "near (max (k1 + k2 + 3) (k1 + k2 + 3) + 2) (x1 * x1 + x2 * x2) (fp_add f32 (fp_mul f32 a1 b1) (fp_mul f32 a2 b2))"
    using k rng_mid [OF s12] by (intro near_add m a b r) simp_all
  then have "near (k1 + k2 + 5) (x1 * x1 + x2 * x2) (fp_add f32 (fp_mul f32 a1 b1) (fp_mul f32 a2 b2))" by (simp add: ac_simps)
  then have "near (max (k1 + k2 + 5) (k1 + k2 + 3) + 2) (x1 * x1 + x2 * x2 + x3 * x3) (dot3 a1 b1 a2 b2 a3 b3)"
    unfolding dot3_def using k rng_mid [OF s123] by (intro near_add m a b r) simp_all
  then show ?thesis by (simp add: ac_simps)
qed

text \<open>The guard \<open>max(1e-9)\<close> never acts on a vector of this size.\<close>

lemma fp_max_left: "is_fin a \<Longrightarrow> is_fin b \<Longrightarrow> fval b \<le> fval a \<Longrightarrow> fp_max a b = a"
  by (auto simp: fp_max_def fp_lt_iff)

definition norm3 :: "real \<Rightarrow> real \<Rightarrow> real \<Rightarrow> real" where
  "norm3 a b c = sqrt (a * a + b * b + c * c)"

lemma norm3_rng:
  assumes r: "rng 16 1 a" "rng 16 1 b" "rng 16 1 c" and nz: "a \<noteq> 0 \<or> b \<noteq> 0 \<or> c \<noteq> 0"
  shows "rng 16 2 (norm3 a b c)" and "0 < norm3 a b c" and "0 < a * a + b * b + c * c"
    and "rng 32 4 (a * a + b * b + c * c)"
proof -
  have sq: "rng 32 2 (x * x)" if "rng 16 1 x" for x using rng_mult [OF that that] by (simp add: numeral_2_eq_2)
  have s12: "rng 32 3 (a * a + b * b)" using rng_add [OF sq sq] r by (simp add: numeral_eq_Suc)
  show s: "rng 32 4 (a * a + b * b + c * c)"
    using rng_add [OF s12 rng_mono [OF sq [OF r(3)]]] by simp
  show pos: "0 < a * a + b * b + c * c"
    using nz zero_le_square [of a] zero_le_square [of b] zero_le_square [of c]
    by (metis add_nonneg_eq_0_iff add_nonneg_nonneg less_eq_real_def mult_eq_0_iff)
  show "rng 16 2 (norm3 a b c)" unfolding norm3_def using s pos by (intro rng_sqrt) simp_all
  show "0 < norm3 a b c" unfolding norm3_def using pos by simp
qed

lemma stokes_new_near:
  assumes k: "0 \<le> k" "k \<le> 60"
    and n: "near k a A" "near k b B" "near k c C"
    and r: "rng 16 1 a" "rng 16 1 b" "rng 16 1 c" and nz: "a \<noteq> 0 \<or> b \<noteq> 0 \<or> c \<noteq> 0"
  shows "near (3 * k + 15) (a / norm3 a b c) (s1 (stokes_new A B C))"
    and "near (3 * k + 15) (b / norm3 a b c) (s2 (stokes_new A B C))"
    and "near (3 * k + 15) (c / norm3 a b c) (s3 (stokes_new A B C))"
proof -
  note nr = norm3_rng [OF r nz]
  define M where "M = fp_sqrt f32 (dot3 A A B B C C)"
  have "near (k + k + 7) (a * a + b * b + c * c) (dot3 A A B B C C)"
    using k by (intro near_dot3 n r) simp_all
  then have "near (k + k + 7 + 2) (norm3 a b c) M"
    unfolding M_def norm3_def using k nr rng_mid [OF nr(1)]
    by (intro near_sqrt) (simp_all add: norm3_def)
  then have M: "near (2 * k + 9) (norm3 a b c) M" by (simp add: algebra_simps)
  then obtain p where p: "\<bar>p\<bar> \<le> (2 * k + 9) * u32r" "fval M = norm3 a b c * (1 + p)" by (auto simp: near_def)
  have p1: "\<bar>p\<bar> \<le> 1 / 10000" using small_prod(2) [OF p(1) p(1)] k by simp
  have "1 / 2 ^ 16 \<le> norm3 a b c" using nr by (simp add: rng_def)
  then have "1 / 2 ^ 16 * (1 / 2) \<le> fval M" unfolding p(2) using p1 by (intro mult_mono) auto
  moreover have "is_fin (fp_lit f32 1 1000000000) \<and> fval (fp_lit f32 1 1000000000) \<le> 1 / 2 ^ 17"
  proof -
    have "fp_lit f32 1 1000000000 = FNum False 9007199 (- 53)" by code_simp
    then show ?thesis by (simp add: sg_def power_int_minus)
  qed
  ultimately have "fp_max M (fp_lit f32 1 1000000000) = M"
    using near_fin [OF M] by (intro fp_max_left) auto
  then have st: "stokes_new A B C = \<lparr>s1 = fp_div f32 A M, s2 = fp_div f32 B M, s3 = fp_div f32 C M\<rparr>"
    by (simp add: stokes_new_def Let_def M_def)
  have d: "near (3 * k + 15) (x / norm3 a b c) (fp_div f32 X M)" if "near k x X" "rng 16 1 x" for x X
  proof -
    have "mid (x / norm3 a b c)" using rng_div [OF that(2) nr(1)] nr(2) by (auto intro: rng_mid)
    then have "near (k + (2 * k + 9) + 6) (x / norm3 a b c) (fp_div f32 X M)"
      using k nr(2) by (intro near_div that M) simp_all
    then show ?thesis by (simp add: algebra_simps)
  qed
  show "near (3 * k + 15) (a / norm3 a b c) (s1 (stokes_new A B C))"
    "near (3 * k + 15) (b / norm3 a b c) (s2 (stokes_new A B C))"
    "near (3 * k + 15) (c / norm3 a b c) (s3 (stokes_new A B C))"
    unfolding st using d n r by simp_all
qed

section \<open>Angles\<close>

text \<open>\<open>acos\<close> of a float in \<open>[-1, 1]\<close> is a finite float, correct to \<open>2 ^ -10\<close>.\<close>

definition acos_accurate :: "libm \<Rightarrow> bool" where
  "acos_accurate lm \<longleftrightarrow>
     (\<forall>x. is_fin x \<longrightarrow> \<bar>fval x\<bar> \<le> 1 \<longrightarrow>
        is_fin (acos_f lm x) \<and> \<bar>fval (acos_f lm x) - arccos (fval x)\<bar> \<le> 1 / 1024)"

lemma sin_half_bound:
  assumes "0 \<le> x" and "x \<le> 1 / 2"
  shows "x / 2 \<le> sin (x::real)"
proof -
  have "sin 0 - 0 / 2 \<le> sin x - x / 2"
  proof (rule DERIV_nonneg_imp_nondecreasing [OF assms(1)])
    fix y :: real assume y: "0 \<le> y" "y \<le> x"
    have "1 / 2 \<le> pi / 3" using pi_ge_two by simp
    then have "cos (pi / 3) \<le> cos y" using y assms by (intro cos_monotone_0_pi_le) auto
    then have "0 \<le> cos y - 1 / 2" by (simp add: cos_60)
    moreover have "((\<lambda>y. sin y - y / 2) has_real_derivative (cos y - 1 / 2)) (at y)"
      by (auto intro!: derivative_eq_intros)
    ultimately show "\<exists>d. ((\<lambda>y. sin y - y / 2) has_real_derivative d) (at y) \<and> 0 \<le> d" by blast
  qed
  then show ?thesis by simp
qed

lemma arccos_small:
  assumes "1 - 1 / 2 ^ 17 \<le> y" and "y \<le> 1"
  shows "arccos y \<le> 1 / 2 ^ 7"
proof -
  define h :: real where "h = 1 / 2 ^ 8"
  have "h / 2 \<le> sin h" by (rule sin_half_bound) (simp_all add: h_def)
  then have "(h / 2)\<^sup>2 \<le> (sin h)\<^sup>2" by (rule power_mono) (simp add: h_def)
  moreover have "cos (2 * h) = 1 - 2 * (sin h)\<^sup>2" by (simp add: cos_double_sin)
  ultimately have "cos (2 * h) \<le> y" using assms by (simp add: h_def power2_eq_square)
  then have "arccos y \<le> arccos (cos (2 * h))" using assms by (intro arccos_le_arccos) simp_all
  also have "\<dots> = 2 * h" using pi_ge_two by (intro arccos_cos) (simp_all add: h_def)
  finally show ?thesis by (simp add: h_def)
qed

lemma fp_lit_ones:
  "fp_lit f32 1 1 = FNum False 8388608 (- 23)" "fp_lit f32 (- 1) 1 = FNum True 8388608 (- 23)"
  by code_simp+

lemma fp_clamp_val:
  assumes "is_fin x"
  shows "is_fin (fp_clamp (fp_lit f32 (- 1) 1) (fp_lit f32 1 1) x)"
    and "fval (fp_clamp (fp_lit f32 (- 1) 1) (fp_lit f32 1 1) x) = max (- 1) (min 1 (fval x))"
proof -
  have o: "is_fin (fp_lit f32 1 1)" "is_fin (fp_lit f32 (- 1) 1)" "fval (fp_lit f32 1 1) = 1"
    "fval (fp_lit f32 (- 1) 1) = - 1"
    by (simp_all add: fp_lit_ones sg_def power_int_minus)
  show "is_fin (fp_clamp (fp_lit f32 (- 1) 1) (fp_lit f32 1 1) x)"
    "fval (fp_clamp (fp_lit f32 (- 1) 1) (fp_lit f32 1 1) x) = max (- 1) (min 1 (fval x))"
    using assms o by (auto simp: fp_clamp_def Let_def fp_lt_iff)
qed

text \<open>Two roundings of one unit vector are close.\<close>

lemma angular_distance_close:
  assumes lm: "acos_accurate lm"
    and k: "k1 \<le> 90" "k2 \<le> 190" "k1 + k2 + 7 \<le> 128"
    and a: "near k1 x1 (s1 a)" "near k1 x2 (s2 a)" "near k1 x3 (s3 a)"
    and b: "near k2 x1 (s1 b)" "near k2 x2 (s2 b)" "near k2 x3 (s3 b)"
    and r: "rng 16 1 x1" "rng 16 1 x2" "rng 16 1 x3" and u: "x1 * x1 + x2 * x2 + x3 * x3 = 1"
  shows "is_fin (angular_distance lm a b)" and "fval (angular_distance lm a b) \<le> 9 / 1024"
proof -
  define D where "D = dot3 (s1 a) (s1 b) (s2 a) (s2 b) (s3 a) (s3 b)"
  define y where "y = fp_clamp (fp_lit f32 (- 1) 1) (fp_lit f32 1 1) D"
  have "near (k1 + k2 + 7) 1 D" using near_dot3 [OF k(1,2) _ a b r] k u by (simp add: D_def)
  then obtain p where p: "\<bar>p\<bar> \<le> (k1 + k2 + 7) * u32r" "fval D = 1 + p" and D: "is_fin D"
    by (auto simp: near_def)
  have "(k1 + k2 + 7) * u32r \<le> 128 * u32r" using k u32r_small by (intro mult_right_mono) auto
  then have "\<bar>p\<bar> \<le> 1 / 2 ^ 17" using p by (simp add: u32r_def)
  then have y: "is_fin y" "1 - 1 / 2 ^ 17 \<le> fval y" "fval y \<le> 1"
    using fp_clamp_val [OF D] p unfolding y_def by auto
  then have "arccos (fval y) \<le> 1 / 128" using arccos_small [of "fval y"] by simp
  moreover have "is_fin (acos_f lm y) \<and> \<bar>fval (acos_f lm y) - arccos (fval y)\<bar> \<le> 1 / 1024"
    using lm y by (auto simp: acos_accurate_def)
  ultimately show "is_fin (angular_distance lm a b)" "fval (angular_distance lm a b) \<le> 9 / 1024"
    unfolding angular_distance_def Let_def D_def [symmetric] y_def [symmetric] by linarith+
qed

section \<open>Samples\<close>

definition axis :: "u8 \<Rightarrow> u8 \<Rightarrow> real" where
  "axis hi lo = real_of_int (sint (from_be_bytes [hi, lo] :: 16 word)) / 32768"

text \<open>The six bytes that give no direction.\<close>

definition zero_sample :: "bytes \<Rightarrow> bool" where
  "zero_sample bs \<longleftrightarrow> sub_slice 0 6 bs = replicate 6 0"

lemma sint16_bounds: "- 32768 \<le> sint (w :: 16 word)" "sint (w :: 16 word) \<le> 32767"
  using sint_greater_eq [of w] sint_less [of w] by simp_all

lemma axis_rng: "rng 15 0 (axis hi lo)"
proof -
  define i where "i = sint (from_be_bytes [hi, lo] :: 16 word)"
  have "i = 0 \<or> 1 \<le> \<bar>i\<bar>" "\<bar>i\<bar> \<le> 32768"
    using sint16_bounds [of "from_be_bytes [hi, lo]"] by (auto simp: i_def)
  then have "i = 0 \<or> 1 \<le> \<bar>real_of_int i\<bar>" "\<bar>real_of_int i\<bar> \<le> 32768" by linarith+
  then show ?thesis by (auto simp: rng_def axis_def i_def [symmetric])
qed

lemma to_signed_near: "near 1 (axis hi lo) (to_signed hi lo)"
proof -
  define i where "i = sint (from_be_bytes [hi, lo] :: 16 word)"
  have "\<bar>i\<bar> < 2 ^ 24" using sint16_bounds [of "from_be_bytes [hi, lo]"] by (simp add: i_def)
  note ex = fp_of_int_exact [OF this]
  have l: "fp_lit f32 32768 1 = FNum False 8388608 (- 8)" by code_simp
  have v: "is_fin (fp_lit f32 32768 1)" "fval (fp_lit f32 32768 1) = 32768"
    by (simp_all add: l sg_def power_int_minus)
  have "mid (real_of_int i / 32768)"
    using axis_rng [of hi lo] rng_mid [of 15 0] by (simp add: axis_def i_def)
  from in_range_mid [OF this, of _ 0]
  have "in_range f32 (fval (fp_of_int f32 i) / fval (fp_lit f32 32768 1))" by (simp add: ex v)
  then have "approx f32 (real_of_int i / 32768) (fp_div f32 (fp_of_int f32 i) (fp_lit f32 32768 1))"
    using fp_div_approx [of f32 "fp_of_int f32 i" "fp_lit f32 32768 1"] ex v by simp
  from approx_near [OF this] show ?thesis by (simp add: axis_def to_signed_def i_def)
qed

lemma axis_zero: "axis hi lo = 0 \<longleftrightarrow> hi = 0 \<and> lo = 0"
proof -
  have "axis hi lo = 0 \<longleftrightarrow> (from_be_bytes [hi, lo] :: 16 word) = 0"
    using signed_word_eqI [of "from_be_bytes [hi, lo] :: 16 word" 0] by (auto simp: axis_def)
  also have "\<dots> \<longleftrightarrow> [hi, lo] = [0, 0]"
    using to_from_be_bytes [of "[hi, lo]", where 'a = 16] to_from_be_bytes [of "[0, 0]", where 'a = 16]
    by (auto simp: from_be_bytes_def nat_of_be_def)
  finally show ?thesis by simp
qed

text \<open>A Stokes vector that rounds the unit vector \<open>(x, y, z)\<close>.\<close>

definition near_dir :: "real \<Rightarrow> stokes \<Rightarrow> real \<Rightarrow> real \<Rightarrow> real \<Rightarrow> bool" where
  "near_dir k v x y z \<longleftrightarrow>
     near k x (s1 v) \<and> near k y (s2 v) \<and> near k z (s3 v)
     \<and> rng 16 1 x \<and> rng 16 1 y \<and> rng 16 1 z \<and> x * x + y * y + z * z = 1"

lemma rng15: "rng 15 0 x \<Longrightarrow> rng 16 1 x"
  by (auto simp: rng_def)

lemma normalised_dir:
  assumes r: "rng 15 0 a" "rng 15 0 b" "rng 15 0 c" and nz: "a \<noteq> 0 \<or> b \<noteq> 0 \<or> c \<noteq> 0"
  defines "n \<equiv> norm3 a b c"
  shows "rng 16 1 (a / n)" and "rng 16 1 (b / n)" and "rng 16 1 (c / n)"
    and "a / n * (a / n) + b / n * (b / n) + c / n * (c / n) = 1"
proof -
  define S where "S = a * a + b * b + c * c"
  note nr = norm3_rng [OF rng15 [OF r(1)] rng15 [OF r(2)] rng15 [OF r(3)] nz]
  have n: "n * n = S" "0 < n" using nr by (simp_all add: n_def norm3_def S_def)
  have one: "x * x \<le> 1" if "rng 15 0 x" for x
    using that abs_le_square_iff [of x 1] by (auto simp: rng_def power2_eq_square)
  have "S \<le> 2\<^sup>2" using one [OF r(1)] one [OF r(2)] one [OF r(3)] by (simp add: S_def)
  then have n2: "n \<le> 2" using n by (simp add: n_def norm3_def S_def real_le_lsqrt)
  have c: "rng 16 1 (x / n)" if x: "rng 15 0 x" "x * x \<le> S" for x
  proof (cases "x = 0")
    case False
    have "\<bar>x\<bar> \<le> n" using x(2) n abs_le_square_iff [of x n] by (simp add: power2_eq_square)
    then have "\<bar>x\<bar> / n \<le> 2" using n by (simp add: divide_le_eq)
    moreover have "1 / 2 ^ 15 / 2 \<le> \<bar>x\<bar> / n" using x False n n2 by (intro frac_le) (auto simp: rng_def)
    ultimately show ?thesis using n by (simp add: rng_def abs_divide)
  qed (simp add: rng_def)
  show "rng 16 1 (a / n)" "rng 16 1 (b / n)" "rng 16 1 (c / n)"
    by (intro c r; simp add: S_def)+
  have "a / n * (a / n) + b / n * (b / n) + c / n * (c / n) = S / (n * n)"
    by (simp add: S_def add_divide_distrib)
  then show "a / n * (a / n) + b / n * (b / n) + c / n * (c / n) = 1"
    using n by (metis divide_self less_numeral_extra(3) mult_pos_pos)
qed

lemma stokes_from_bytes_near:
  assumes len: "length bs = 6" and nz: "bs \<noteq> replicate 6 0"
  shows "\<exists>x y z. near_dir 18 (stokes_from_bytes bs) x y z"
proof -
  define a b c where "a = axis (bs ! 0) (bs ! 1)" and "b = axis (bs ! 2) (bs ! 3)" and "c = axis (bs ! 4) (bs ! 5)"
  have z: "a \<noteq> 0 \<or> b \<noteq> 0 \<or> c \<noteq> 0"
  proof (rule ccontr)
    assume "\<not> ?thesis"
    then have "\<forall>i < 6. bs ! i = 0"
      by (auto simp: a_def b_def c_def axis_zero numeral_eq_Suc less_Suc_eq)
    then have "bs = replicate 6 0" using len by (intro nth_equalityI) simp_all
    with nz show False by contradiction
  qed
  have r: "rng 15 0 a" "rng 15 0 b" "rng 15 0 c" by (simp_all add: a_def b_def c_def axis_rng)
  note sn = stokes_new_near [OF _ _ to_signed_near to_signed_near to_signed_near,
      of "bs ! 0" "bs ! 1" "bs ! 2" "bs ! 3" "bs ! 4" "bs ! 5", folded a_def b_def c_def]
  show ?thesis
    using sn [OF _ _ rng15 [OF r(1)] rng15 [OF r(2)] rng15 [OF r(3)] z] normalised_dir [OF r z]
    unfolding near_dir_def stokes_from_bytes_def
    by (intro exI [of _ "a / norm3 a b c"] exI [of _ "b / norm3 a b c"] exI [of _ "c / norm3 a b c"]) simp
qed

lemma near_dir_distance:
  assumes lm: "acos_accurate lm" and k: "k1 \<le> 90" "k2 \<le> 190" "k1 + k2 + 7 \<le> 128"
    and a: "near_dir k1 a x y z" and b: "near_dir k2 b x y z"
    and tol: "is_fin tol" "9 / 1024 \<le> fval tol"
  shows "\<not> fp_lt tol (angular_distance lm a b)"
  using angular_distance_close [OF lm k, of x "a" y z b] a b tol
  by (auto simp: near_dir_def fp_lt_iff)

lemma zero_stokes: "stokes_from_bytes (replicate 6 0) = \<lparr>s1 = FNum False 0 (- 149), s2 = FNum False 0 (- 149), s3 = FNum False 0 (- 149)\<rparr>"
  by code_simp

lemma zero_distance:
  assumes lm: "acos_accurate lm" and a: "a = stokes_from_bytes (replicate 6 0)"
    and tol: "is_fin tol" "fval tol \<le> 1 / 2"
  shows "fp_lt tol (angular_distance lm a a)"
proof -
  have d: "angular_distance lm a a = acos_f lm (FNum False 0 (- 149))"
  proof -
    have "fp_clamp (fp_lit f32 (- 1) 1) (fp_lit f32 1 1)
      (dot3 (FNum False 0 (- 149)) (FNum False 0 (- 149)) (FNum False 0 (- 149)) (FNum False 0 (- 149))
        (FNum False 0 (- 149)) (FNum False 0 (- 149))) = FNum False 0 (- 149)" by code_simp
    then show ?thesis by (simp add: a zero_stokes angular_distance_def)
  qed
  have "is_fin (acos_f lm (FNum False 0 (- 149))) \<and>
      \<bar>fval (acos_f lm (FNum False 0 (- 149))) - arccos (fval (FNum False 0 (- 149)))\<bar> \<le> 1 / 1024"
    using lm [unfolded acos_accurate_def, rule_format, of "FNum False 0 (- 149)"] by (simp add: sg_def)
  moreover have "arccos (fval (FNum False 0 (- 149))) = pi / 2" by (simp add: sg_def)
  moreover have "1 / 2 + 1 / 1024 < pi / 2" using pi_ge_two by simp
  ultimately have "is_fin (acos_f lm (FNum False 0 (- 149)))" "fval tol < fval (acos_f lm (FNum False 0 (- 149)))"
    using tol by linarith+
  then show ?thesis using tol unfolding d by (simp add: fp_lt_iff)
qed

end
