(* ===== verification/Winding.thy ===== *)
theory Winding
  imports Stokes
begin

text \<open>
  The winding number behind the topological authentication mode. Its two \<open>while\<close> loops would
  run forever on a large angle, so that it comes back at all needs an argument: angles from
  \<open>atan2\<close> are at most \<open>PI\<close> in magnitude, hence each loop runs at most once. The same bounds
  give the range of the result.
\<close>

section \<open>Absolute rounding errors\<close>

lemma fp_round_abs:
  assumes f: "fmt_ok f" and n: "0 \<le> n" "0 < d" and x: "x = real_of_int n / real_of_int d * 2 powi k"
    and L: "x < 2 powi L" and m: "round_exp f (L - 1) < emax f"
  shows "is_fin (fp_round f s n d k)"
    and "\<bar>fval (fp_round f s n d k) - sg s x\<bar> \<le> 2 powi round_exp f (L - 1) / 2"
proof -
  have "is_fin (fp_round f s n d k) \<and> \<bar>fval (fp_round f s n d k) - sg s x\<bar> \<le> 2 powi round_exp f (L - 1) / 2"
  proof (cases "n = 0")
    case True
    then show ?thesis by (simp add: fp_round_def x sg_def)
  next
    case False
    define e where "e = round_exp f (flog2 n d + k)"
    define q where "q = rne (shl n (k - e)) (shl d (e - k))"
    have "2 powi (flog2 n d + k) \<le> x"
      unfolding x powi2_add using flog2_bounds(1) [of n d] n False by (intro mult_right_mono) auto
    with L have "2 powi (flog2 n d + k) < (2::real) powi L" by linarith
    then have "flog2 n d + k \<le> L - 1" using powi2_less_cancel by fastforce
    then have eE: "e \<le> round_exp f (L - 1)" by (simp add: e_def round_exp_def)
    have "real_of_int (shl n (k - e)) / real_of_int (shl d (e - k)) = x / 2 powi e"
      using shl_ratio [OF n(2), of n "k - e"] by (simp add: x powi2_diff)
    then have "\<bar>real_of_int q - x / 2 powi e\<bar> \<le> 1 / 2"
      using rne_error [of "shl d (e - k)" "shl n (k - e)"] n by (simp add: q_def)
    then have "\<bar>real_of_int q * 2 powi e - x\<bar> \<le> 1 / 2 * 2 powi e"
      by (subst abs_scale) (auto intro: mult_right_mono)
    also have "\<dots> \<le> 2 powi round_exp f (L - 1) / 2" using powi2_mono [OF eE] by simp
    finally have err: "\<bar>real_of_int q * 2 powi e - x\<bar> \<le> 2 powi round_exp f (L - 1) / 2" .
    have "0 \<le> q" using n by (simp add: q_def rne_def Let_def pos_imp_zdiv_nonneg_iff)
    moreover have "e < emax f" using eE m by simp
    ultimately show ?thesis
      using fp_pack_value [OF f, of q e s] err False
      by (auto simp: fp_round_def Let_def e_def [symmetric] q_def [symmetric] sg_def abs_minus_commute)
  qed
  then show "is_fin (fp_round f s n d k)"
    "\<bar>fval (fp_round f s n d k) - sg s x\<bar> \<le> 2 powi round_exp f (L - 1) / 2" by auto
qed

text \<open>Below 64, an \<open>f32\<close> operation is off by at most \<open>2 ^ -18\<close>, subnormal results included.\<close>

definition bounded_by :: "real \<Rightarrow> fp \<Rightarrow> bool" where
  "bounded_by b v \<longleftrightarrow> is_fin v \<and> \<bar>fval v\<bar> \<le> b"

lemma f32_round_abs:
  assumes "0 \<le> n" "0 < d" and x: "x = real_of_int n / real_of_int d * 2 powi k" and "x < 64"
  shows "is_fin (fp_round f32 s n d k)" and "\<bar>fval (fp_round f32 s n d k) - sg s x\<bar> \<le> 1 / 262144"
proof -
  have e: "round_exp f32 (6 - 1) = - 18" by (simp add: round_exp_def f32_def)
  have "x < 2 powi 6" using assms by (simp add: power_int_def)
  note fp_round_abs [OF fmt_ok_f32 assms(1,2) x this, unfolded e, of s]
  then show "is_fin (fp_round f32 s n d k)" "\<bar>fval (fp_round f32 s n d k) - sg s x\<bar> \<le> 1 / 262144"
    by (simp_all add: f32_def power_int_minus)
qed

lemma fp_add_abs:
  assumes "is_fin a" "is_fin b" "\<bar>fval a + fval b\<bar> < 64"
  shows "is_fin (fp_add f32 a b)" and "\<bar>fval (fp_add f32 a b) - (fval a + fval b)\<bar> \<le> 1 / 262144"
proof -
  from assms obtain s1 m1 e1 s2 m2 e2 where ab: "a = FNum s1 m1 e1" "b = FNum s2 m2 e2"
    by (auto elim!: is_finE)
  define e where "e = min e1 e2"
  define z where "z = at_exp e s1 m1 e1 + at_exp e s2 m2 e2"
  have v: "fval a + fval b = real_of_int z * 2 powi e"
    unfolding z_def ab using fval_at_exp [of e e1 s1 m1] fval_at_exp [of e e2 s2 m2]
    by (simp add: e_def distrib_right)
  have z0: "fp_add f32 a b = (if z = 0 then FNum (s1 \<and> s2) 0 (emin f32) else fp_round f32 (z < 0) \<bar>z\<bar> 1 e)"
    by (simp add: ab Let_def z_def e_def)
  define x where "x = real_of_int \<bar>z\<bar> / real_of_int 1 * 2 powi e"
  have x: "fval a + fval b = sg (z < 0) x" by (simp add: v x_def sg_def)
  then have "x < 64" using assms(3) by (simp add: sg_def split: if_splits)
  note r = f32_round_abs [OF abs_ge_zero zero_less_one x_def this, of "z < 0"]
  show "is_fin (fp_add f32 a b)" using r by (simp add: z0)
  show "\<bar>fval (fp_add f32 a b) - (fval a + fval b)\<bar> \<le> 1 / 262144"
    using r(2) unfolding x [symmetric] by (cases "z = 0") (simp_all add: z0 v sg_def)
qed

lemma bounded_by_add:
  "bounded_by p a \<Longrightarrow> bounded_by q b \<Longrightarrow> p + q < 64 \<Longrightarrow> bounded_by (p + q + 1 / 262144) (fp_add f32 a b)"
  using fp_add_abs [of a b] unfolding bounded_by_def by linarith

lemma bounded_by_mono: "bounded_by p a \<Longrightarrow> p \<le> q \<Longrightarrow> bounded_by q a"
  by (auto simp: bounded_by_def)

lemma bounded_by_neg [simp]: "bounded_by p (fp_neg a) = bounded_by p a"
  by (simp add: bounded_by_def)

section \<open>The constants\<close>

lemma PI32_val: "is_fin PI32" "fval PI32 = 13176795 / 4194304"
  by (simp_all add: PI32_def sg_def power_int_minus)

lemma TWO_PI32_val: "is_fin TWO_PI32" "fval TWO_PI32 = 13176795 / 2097152"
proof -
  have e: "TWO_PI32 = FNum False 13176795 (- 21)" by code_simp
  show "is_fin TWO_PI32" "fval TWO_PI32 = 13176795 / 2097152"
    unfolding e by (simp_all add: sg_def power_int_minus)
qed

lemma fp_le_iff: "is_fin a \<Longrightarrow> is_fin b \<Longrightarrow> fp_le a b \<longleftrightarrow> fval a \<le> fval b"
proof -
  assume f: "is_fin a" "is_fin b"
  then have "fp_eq a b \<longleftrightarrow> \<not> fp_lt a b \<and> \<not> fp_lt b a" by (cases a; cases b) simp_all
  with f show ?thesis by (auto simp: fp_le_def fp_lt_iff)
qed

section \<open>Wrapping\<close>

text \<open>An angle or nothing: what \<open>atan2\<close> returns.\<close>

definition atan2_range :: "libm \<Rightarrow> bool" where
  "atan2_range lm \<longleftrightarrow>
     (\<forall>y x. atan2_f lm y x = FNaN \<or> is_fin (atan2_f lm y x) \<and> \<bar>fval (atan2_f lm y x)\<bar> \<le> fval PI32)"

definition angle_or_nan :: "real \<Rightarrow> fp \<Rightarrow> bool" where
  "angle_or_nan b v \<longleftrightarrow> v = FNaN \<or> bounded_by b v"

lemma wrap_down_within:
  assumes "bounded_by (63 / 10) d"
  shows "\<exists>r. wrap_down d = Some r \<and> bounded_by (63 / 10) r \<and> fval r \<le> fval PI32"
proof -
  have d: "is_fin d" "\<bar>fval d\<bar> \<le> 63 / 10" using assms by (auto simp: bounded_by_def)
  show ?thesis
  proof (cases "fval PI32 < fval d")
    case False
    then have "wrap_down d = Some d" using d PI32_val by (subst wrap_down.simps) (simp add: fp_lt_iff)
    then show ?thesis using assms False by simp
  next
    case True
    define r where "r = fp_sub f32 d TWO_PI32"
    have "\<bar>fval d + fval (fp_neg TWO_PI32)\<bar> < 64" using True d by (simp add: PI32_val TWO_PI32_val)
    note ab = fp_add_abs [OF d(1) _ this, folded fp_sub_def, folded r_def]
    have rf: "is_fin r" using ab TWO_PI32_val by simp
    have r: "\<bar>fval r\<bar> \<le> 63 / 10" "fval r \<le> fval PI32"
      using ab(2) True d TWO_PI32_val(1) unfolding fval_neg fp_neg_fin PI32_val TWO_PI32_val by linarith+
    have "wrap_down r = Some r" using rf r PI32_val by (subst wrap_down.simps) (simp add: fp_lt_iff)
    then have "wrap_down d = Some r"
      using True d PI32_val by (subst wrap_down.simps) (simp add: fp_lt_iff r_def [symmetric])
    then show ?thesis using rf r by (simp add: bounded_by_def)
  qed
qed

lemma wrap_up_within:
  assumes "bounded_by (63 / 10) d" and "fval d \<le> fval PI32"
  shows "\<exists>r. wrap_up d = Some r \<and> bounded_by (315 / 100) r"
proof -
  have d: "is_fin d" "\<bar>fval d\<bar> \<le> 63 / 10" using assms by (auto simp: bounded_by_def)
  have np: "is_fin (fp_neg PI32)" using PI32_val by simp
  show ?thesis
  proof (cases "fval d \<le> - fval PI32")
    case False
    then have "wrap_up d = Some d" using d PI32_val by (subst wrap_up.simps) (simp add: fp_le_iff)
    then show ?thesis using assms False d by (simp add: bounded_by_def PI32_val abs_le_iff)
  next
    case True
    define r where "r = fp_add f32 d TWO_PI32"
    have "\<bar>fval d + fval TWO_PI32\<bar> < 64" using True d by (simp add: PI32_val TWO_PI32_val)
    note ab = fp_add_abs [OF d(1) TWO_PI32_val(1) this, folded r_def]
    have rf: "is_fin r" by (rule ab)
    have r: "\<bar>fval r\<bar> \<le> 315 / 100" "- fval PI32 < fval r"
      using ab(2) True d unfolding PI32_val TWO_PI32_val by linarith+
    have "wrap_up r = Some r" using rf r PI32_val by (subst wrap_up.simps) (simp add: fp_le_iff)
    then have "wrap_up d = Some r"
      using True d PI32_val by (subst wrap_up.simps) (simp add: fp_le_iff r_def [symmetric])
    then show ?thesis using rf r by (simp add: bounded_by_def)
  qed
qed

lemma wrap_angle_within:
  assumes "angle_or_nan (63 / 10) d"
  shows "\<exists>r. wrap_angle d = Some r \<and> angle_or_nan (315 / 100) r"
proof (cases "d = FNaN")
  case True
  have "wrap_down FNaN = Some FNaN" "wrap_up FNaN = Some FNaN"
    by (subst wrap_down.simps wrap_up.simps, simp add: PI32_def fp_le_def)+
  then show ?thesis by (simp add: True wrap_angle_def angle_or_nan_def)
next
  case False
  with assms have "bounded_by (63 / 10) d" by (simp add: angle_or_nan_def)
  from wrap_down_within [OF this] obtain r where r: "wrap_down d = Some r" "bounded_by (63 / 10) r" "fval r \<le> fval PI32"
    by auto
  from wrap_up_within [OF r(2,3)] r(1) show ?thesis by (auto simp: wrap_angle_def angle_or_nan_def)
qed

section \<open>The sum of the increments\<close>

lemma fp_add_nan [simp]: "fp_add f FNaN a = FNaN" "fp_add f a FNaN = FNaN"
  by (cases a; simp)+

lemma fp_div_nan [simp]: "fp_div f FNaN a = FNaN"
  by (cases a) simp_all

lemma angle_add:
  assumes "angle_or_nan p a" "angle_or_nan q b" "p + q < 64" "p + q + 1 / 262144 \<le> r"
  shows "angle_or_nan r (fp_add f32 a b)"
  using assms bounded_by_add [of p a q b] by (auto simp: angle_or_nan_def intro: bounded_by_mono)

lemma angle_atan2: "atan2_range lm \<Longrightarrow> angle_or_nan (fval PI32) (atan2_f lm y x)"
  by (auto simp: atan2_range_def angle_or_nan_def bounded_by_def)

lemma angle_neg: "angle_or_nan p a \<Longrightarrow> angle_or_nan p (fp_neg a)"
  by (auto simp: angle_or_nan_def)

lemma sum_angles_range:
  assumes "atan2_range lm" and "angle_or_nan (316 / 100 * real j) acc" and "j + length is \<le> 16"
  shows "\<exists>r. sum_angles lm xs acc is = Some r \<and> angle_or_nan (316 / 100 * real (j + length is)) r"
  using assms(2,3)
proof (induction "is" arbitrary: acc j)
  case Nil
  then show ?case by simp
next
  case (Cons i js)
  define d where "d = fp_sub f32 (atan2_f lm (s2 (xs ! ((i + 1) mod TRAJECTORY_SAMPLES))) (s1 (xs ! ((i + 1) mod TRAJECTORY_SAMPLES))))
    (atan2_f lm (s2 (xs ! i)) (s1 (xs ! i)))"
  have "angle_or_nan (63 / 10) d"
    unfolding d_def fp_sub_def
    by (rule angle_add [OF angle_atan2 angle_neg [OF angle_atan2]]) (simp_all add: assms PI32_val)
  then obtain w where w: "wrap_angle d = Some w" "angle_or_nan (315 / 100) w"
    using wrap_angle_within by blast
  have j: "real j \<le> 15" using Cons.prems(2) by simp
  have "angle_or_nan (316 / 100 * real (Suc j)) (fp_add f32 acc w)"
    by (rule angle_add [OF Cons.prems(1) w(2)]) (use j in \<open>simp_all add: distrib_left\<close>)
  from Cons.IH [OF this] Cons.prems(2) w(1) show ?case by (simp add: Let_def d_def)
qed

section \<open>The result\<close>

lemma fp_div_abs:
  assumes "is_fin a" "is_fin b" "fval b \<noteq> 0" "\<bar>fval a / fval b\<bar> < 64"
  shows "is_fin (fp_div f32 a b)" and "\<bar>fval (fp_div f32 a b) - fval a / fval b\<bar> \<le> 1 / 262144"
proof -
  from assms obtain s1 m1 e1 s2 m2 e2 where
    ab: "a = FNum s1 m1 e1" "b = FNum s2 m2 e2" and m: "0 \<le> m1" "0 \<le> m2"
    by (auto elim!: is_finE)
  have "m2 = 0 \<Longrightarrow> fval b = 0" by (simp add: ab sg_def)
  with m assms(3) have m2: "0 < m2" by linarith
  define x where "x = real_of_int m1 / real_of_int m2 * 2 powi (e1 - e2)"
  have v: "fval a / fval b = sg (s1 \<noteq> s2) x" by (simp add: ab x_def sg_def powi2_diff)
  then have "x < 64" using assms(4) by (simp add: sg_def split: if_splits)
  note f32_round_abs [OF m(1) m2 x_def this, of "s1 \<noteq> s2"]
  then show "is_fin (fp_div f32 a b)" "\<bar>fval (fp_div f32 a b) - fval a / fval b\<bar> \<le> 1 / 262144"
    unfolding v using m2 by (simp_all add: ab)
qed

lemma shl_div_floor: "shl m e div shl 1 (- e) = \<lfloor>real_of_int m * 2 powi e\<rfloor>"
  using shl_ratio [of 1 m e] floor_divide_of_int_eq [of "shl m e" "shl 1 (- e)", where 'a = real] by simp

lemma fp_trunc_bound: "is_fin x \<Longrightarrow> \<bar>real_of_int (fp_trunc x)\<bar> \<le> \<bar>fval x\<bar>"
proof -
  assume "is_fin x"
  then obtain s m e where x: "x = FNum s m e" "0 \<le> m" by (elim is_finE)
  define y where "y = real_of_int m * 2 powi e"
  have "0 \<le> y" using x by (simp add: y_def)
  then have "0 \<le> \<lfloor>y\<rfloor>" "real_of_int \<lfloor>y\<rfloor> \<le> y" by simp_all
  with \<open>0 \<le> y\<close> show ?thesis by (simp add: x shl_div_floor y_def [symmetric] sg_def)
qed

lemma fp_to_int_round_bound:
  assumes "is_fin x" "\<bar>fval x\<bar> < 17 / 2"
  shows "\<bar>fp_to_int_round x\<bar> \<le> 8"
proof -
  from assms obtain s m e where x: "x = FNum s m e" "0 \<le> m" by (auto elim: is_finE)
  define y where "y = real_of_int m * 2 powi e"
  have y: "0 \<le> y" "y < 17 / 2" using x assms by (auto simp: y_def sg_def split: if_splits)
  define D where "D = shl 1 (- e)"
  have D: "0 < D" by (simp add: D_def)
  have "real_of_int (shl m e) / real_of_int D = y"
    using shl_ratio [of 1 m e] by (simp add: y_def D_def)
  then have "real_of_int (2 * shl m e + D) / real_of_int (2 * D) = y + 1 / 2"
    using D by (simp add: add_divide_distrib)
  then have "(2 * shl m e + D) div (2 * D) = \<lfloor>y + 1 / 2\<rfloor>"
    using floor_divide_of_int_eq [of "2 * shl m e + D" "2 * D", where 'a = real] by simp
  moreover have "0 \<le> \<lfloor>y + 1 / 2\<rfloor>" "\<lfloor>y + 1 / 2\<rfloor> \<le> 8" using y by linarith+
  ultimately show ?thesis by (simp add: x D_def [symmetric] sg_def)
qed

lemma round_to_i32_bound:
  assumes "is_fin x" "\<bar>fval x\<bar> < 17 / 2"
  shows "\<bar>fp_to_i32 (fp_round_away f32 x)\<bar> \<le> 8"
proof -
  from assms obtain s m e where x: "x = FNum s m e" by (auto elim: is_finE)
  define r where "r = fp_round_away f32 x"
  have "is_fin r \<and> \<bar>fval r\<bar> < 9"
  proof (cases "0 \<le> e")
    case True
    then show ?thesis using assms by (simp add: r_def x)
  next
    case False
    define i where "i = \<bar>fp_to_int_round x\<bar>"
    have i: "0 \<le> i" "i \<le> 8" using fp_to_int_round_bound [OF assms] by (simp_all add: i_def)
    define v where "v = real_of_int i / real_of_int 1 * 2 powi 0"
    have "v < 64" using i by (simp add: v_def)
    note rr = f32_round_abs [OF i(1) zero_less_one v_def this, of s]
    have re: "r = fp_round f32 s i 1 0" using False by (simp add: r_def x i_def)
    have "\<bar>sg s v\<bar> \<le> 8" using i by (simp add: v_def sg_def)
    then have "\<bar>fval r\<bar> < 9" using rr(2) unfolding re by linarith
    moreover have "is_fin r" using rr(1) by (simp add: re)
    ultimately show ?thesis by simp
  qed
  then have "is_fin r" "\<bar>real_of_int (fp_trunc r)\<bar> < 9" using fp_trunc_bound [of r] by auto
  then have "is_fin r" "\<bar>fp_trunc r\<bar> \<le> 8" by linarith+
  then show ?thesis unfolding r_def [symmetric] by (cases r) (simp_all add: fp_to_i32_def)
qed

lemma winding_range:
  assumes "atan2_range lm"
  shows "\<exists>w. winding_number_s3 lm t = Some w \<and> \<bar>w\<bar> \<le> 8"
proof -
  have "angle_or_nan (316 / 100 * real 0) (fp_lit f32 0 1)"
    by (simp add: angle_or_nan_def bounded_by_def fp_lit_def fp_round_def sg_def)
  from sum_angles_range [OF assms this, of "[0..<TRAJECTORY_SAMPLES]" "samples t"]
  obtain r where r: "sum_angles lm (samples t) (fp_lit f32 0 1) [0..<TRAJECTORY_SAMPLES] = Some r"
    "angle_or_nan (316 / 100 * 16) r" by (auto simp: TRAJECTORY_SAMPLES_def)
  have "\<bar>fp_to_i32 (fp_round_away f32 (fp_div f32 r TWO_PI32))\<bar> \<le> 8"
  proof (cases "r = FNaN")
    case True
    then show ?thesis by (simp add: fp_to_i32_def)
  next
    case False
    with r have b: "is_fin r" "\<bar>fval r\<bar> \<le> 316 / 100 * 16" by (auto simp: angle_or_nan_def bounded_by_def)
    define q where "q = fval r / fval TWO_PI32"
    have "\<bar>q\<bar> \<le> 81 / 10" using b(2) by (simp add: q_def TWO_PI32_val abs_divide)
    moreover have "fval TWO_PI32 \<noteq> 0" by (simp add: TWO_PI32_val)
    note d = fp_div_abs [OF b(1) TWO_PI32_val(1) this, folded q_def]
    ultimately have "is_fin (fp_div f32 r TWO_PI32)" "\<bar>fval (fp_div f32 r TWO_PI32)\<bar> < 17 / 2"
      using d by linarith+
    then show ?thesis by (rule round_to_i32_bound)
  qed
  with r(1) show ?thesis by (simp add: winding_number_s3_def)
qed

text \<open>A trajectory that stays in one state does not wind, and neither does one without angles.\<close>

lemma fp_sub_self: "is_fin a \<Longrightarrow> fp_sub f32 a a = FNum False 0 (- 149)"
  by (elim is_finE) (simp add: fp_sub_def Let_def at_exp_def sg_def f32_def)

lemma sum_angles_constant:
  assumes "\<And>i. i < 16 \<Longrightarrow> xs ! i = v" and "set is \<subseteq> {..<16}"
    and "atan2_f lm (s2 v) (s1 v) = FNaN \<and> acc = FNaN
      \<or> is_fin (atan2_f lm (s2 v) (s1 v)) \<and> acc = FNum False 0 (- 149)"
  shows "sum_angles lm xs acc is = Some acc"
  using assms(2)
proof (induction "is")
  case (Cons i js)
  have i: "xs ! i = v" "xs ! (Suc i mod 16) = v" using Cons.prems assms(1) by simp_all
  have z: "fp_sub f32 FNaN FNaN = FNaN" by (simp add: fp_sub_def)
  have n: "wrap_angle FNaN = Some FNaN"
    by (simp add: wrap_angle_def wrap_down.simps [of FNaN] wrap_up.simps [of FNaN] PI32_def fp_le_def)
  have w: "wrap_angle (FNum False 0 (- 149)) = Some (FNum False 0 (- 149))"
  proof -
    have "\<not> fp_lt PI32 (FNum False 0 (- 149))" "\<not> fp_le (FNum False 0 (- 149)) (fp_neg PI32)" by code_simp+
    then show ?thesis by (simp add: wrap_angle_def wrap_down.simps [of "FNum False 0 (- 149)"] wrap_up.simps [of "FNum False 0 (- 149)"])
  qed
  have a: "fp_add f32 (FNum False 0 (- 149)) (FNum False 0 (- 149)) = FNum False 0 (- 149)" by code_simp
  from Cons assms(3) show ?case
    by (auto simp: Let_def i TRAJECTORY_SAMPLES_def fp_sub_self z n w a simp del: fp_add.simps)
qed simp

lemma winding_constant:
  assumes lm: "atan2_range lm" and s: "samples t = replicate TRAJECTORY_SAMPLES v"
  shows "winding_number_s3 lm t = Some 0"
proof -
  have z: "fp_lit f32 0 1 = FNum False 0 (- 149)" by code_simp
  have x: "\<And>i. i < 16 \<Longrightarrow> samples t ! i = v" by (simp add: s TRAJECTORY_SAMPLES_def)
  show ?thesis
  proof (cases "atan2_f lm (s2 v) (s1 v) = FNaN")
    case False
    then have "is_fin (atan2_f lm (s2 v) (s1 v))" using lm by (auto simp: atan2_range_def)
    then have "sum_angles lm (samples t) (fp_lit f32 0 1) [0..<TRAJECTORY_SAMPLES] = Some (FNum False 0 (- 149))"
      unfolding z by (intro sum_angles_constant [OF x]) (auto simp: TRAJECTORY_SAMPLES_def)
    moreover have "fp_to_i32 (fp_round_away f32 (fp_div f32 (FNum False 0 (- 149)) TWO_PI32)) = 0" by code_simp
    ultimately show ?thesis by (simp add: winding_number_s3_def)
  next
    case True
    have n: "fp_sub f32 FNaN FNaN = FNaN" by (simp add: fp_sub_def)
    have w: "wrap_angle FNaN = Some FNaN"
      by (simp add: wrap_angle_def wrap_down.simps [of FNaN] wrap_up.simps [of FNaN] PI32_def fp_le_def)
    have "sum_angles lm (samples t) (fp_lit f32 0 1) (0 # [1..<TRAJECTORY_SAMPLES])
        = sum_angles lm (samples t) FNaN [1..<TRAJECTORY_SAMPLES]"
      using True x [of 0] x [of 1] by (simp add: Let_def TRAJECTORY_SAMPLES_def n w)
    also have "\<dots> = Some FNaN"
      using True by (intro sum_angles_constant [OF x]) (auto simp: TRAJECTORY_SAMPLES_def)
    finally show ?thesis
      by (simp add: winding_number_s3_def TRAJECTORY_SAMPLES_def upt_rec [of 0 16] fp_to_i32_def)
  qed
qed

end
