(* ===== verification/Authentication.thy ===== *)
theory Authentication
  imports Winding
begin

text \<open>
  What \<open>verify_trajectory\<close> decides: which honest trajectories pass, that it always returns, what
  the tag binds, and which trajectories pass without the key.
\<close>

section \<open>An accurate math library\<close>

text \<open>A library that meets every hypothesis of this theory: \<open>acos\<close> rounded down to 20 fractional
  bits inside \<open>[-1, 1]\<close> and not-a-number elsewhere.\<close>

definition sample_libm :: libm where
  "sample_libm = \<lparr>
     acos_f = (\<lambda>x. if is_fin x \<and> \<bar>fval x\<bar> \<le> 1 then FNum False \<lfloor>arccos (fval x) * 2 ^ 20\<rfloor> (- 20) else FNaN),
     atan2_f = (\<lambda>y x. FNum False 0 0),
     sin_f = (\<lambda>x. FNum False 0 0),
     cos_f = (\<lambda>x. fp_lit f32 1 1)\<rparr>"

lemma sample_libm_accurate: "acos_accurate sample_libm"
  unfolding acos_accurate_def
proof (intro allI impI)
  fix x assume x: "is_fin x" "\<bar>fval x\<bar> \<le> 1"
  define y where "y = arccos (fval x) * 2 ^ 20"
  have a: "0 \<le> arccos (fval x)" using x by (intro arccos_lbound) (simp_all add: abs_le_iff)
  then have y: "0 \<le> \<lfloor>y\<rfloor>" "\<bar>real_of_int \<lfloor>y\<rfloor> - y\<bar> \<le> 1" by (simp add: y_def, linarith)
  have v: "acos_f sample_libm x = FNum False \<lfloor>y\<rfloor> (- 20)" using x by (simp add: sample_libm_def y_def)
  have "fval (acos_f sample_libm x) - arccos (fval x) = (real_of_int \<lfloor>y\<rfloor> - y) / 2 ^ 20"
    by (simp add: v y_def sg_def power_int_minus diff_divide_distrib)
  then have "\<bar>fval (acos_f sample_libm x) - arccos (fval x)\<bar> = \<bar>real_of_int \<lfloor>y\<rfloor> - y\<bar> / 2 ^ 20"
    by (simp only: abs_divide power_abs abs_numeral)
  also have "\<dots> \<le> 1 / 2 ^ 20" using y by (intro divide_right_mono) simp_all
  finally have "\<bar>fval (acos_f sample_libm x) - arccos (fval x)\<bar> \<le> 1 / 1024" by simp
  then show "is_fin (acos_f sample_libm x) \<and> \<bar>fval (acos_f sample_libm x) - arccos (fval x)\<bar> \<le> 1 / 1024"
    using y by (simp add: v)
qed

lemma sample_libm_atan2: "atan2_range sample_libm"
  by (simp add: atan2_range_def sample_libm_def sg_def PI32_val)

section \<open>Honest trajectories\<close>

text \<open>The block of HMAC output a sample is made of, and a derivation all of whose samples have a
  direction.\<close>

definition sample_block :: "hmac_fn \<Rightarrow> shared_secret \<Rightarrow> trajectory_context \<Rightarrow> nat \<Rightarrow> bytes" where
  "sample_block hmac secret ctx i =
     hmac (secret_bytes secret) (sample_input (hmac (secret_bytes secret) (mac_input ctx)) i)"

definition directed :: "hmac_fn \<Rightarrow> shared_secret \<Rightarrow> trajectory_context \<Rightarrow> bool" where
  "directed hmac secret ctx \<longleftrightarrow> (\<forall>i < TRAJECTORY_SAMPLES. \<not> zero_sample (sample_block hmac secret ctx i))"

text \<open>HMAC-SHA256 returns 32 bytes.\<close>

definition hmac_len :: "hmac_fn \<Rightarrow> bool" where
  "hmac_len hmac \<longleftrightarrow> (\<forall>k m. length (hmac k m) = 32)"

lemma derived_sample:
  "i < TRAJECTORY_SAMPLES \<Longrightarrow>
   samples (derive_trajectory hmac secret ctx) ! i = stokes_from_bytes (sub_slice 0 6 (sample_block hmac secret ctx i))"
  by (simp add: derive_trajectory_def Let_def trajectory_new_def sample_block_def)

lemma derived_sample_near:
  assumes "hmac_len hmac" and "directed hmac secret ctx" and "i < TRAJECTORY_SAMPLES"
  shows "\<exists>x y z. near_dir 18 (samples (derive_trajectory hmac secret ctx) ! i) x y z"
  unfolding derived_sample [OF assms(3)]
  using assms by (intro stokes_from_bytes_near) (auto simp: hmac_len_def directed_def zero_sample_def sample_block_def)

lemma honest_verdict:
  assumes "acos_accurate lm" and "hmac_len hmac"
    and "is_fin tol" and "9 / 1024 \<le> fval tol" and "fval tol \<le> 1 / 2"
  shows "verify_trajectory lm hmac secret ctx (derive_trajectory hmac secret ctx) (TrajectoryMatch tol)
    = Some (if directed hmac secret ctx then Inr () else Inl AuthenticationFailure)"
proof (cases "directed hmac secret ctx")
  case True
  have "\<not> fp_lt tol (angular_distance lm (samples (derive_trajectory hmac secret ctx) ! i)
      (samples (derive_trajectory hmac secret ctx) ! i))" if i: "i < TRAJECTORY_SAMPLES" for i
    using derived_sample_near [OF assms(2) True i] near_dir_distance [OF assms(1) _ _ _ _ _ assms(3,4), of 18 18]
    by auto
  then have "match_samples lm tol (derive_trajectory hmac secret ctx) (derive_trajectory hmac secret ctx)
      [0..<TRAJECTORY_SAMPLES] = Inr ()" by (simp add: match_samples_ok)
  with True show ?thesis by (simp add: verify_trajectory_def)
next
  case False
  then obtain i where i: "i < TRAJECTORY_SAMPLES" "zero_sample (sample_block hmac secret ctx i)"
    by (auto simp: directed_def)
  from i(2) have "samples (derive_trajectory hmac secret ctx) ! i = stokes_from_bytes (replicate 6 0)"
    by (simp add: derived_sample [OF i(1)] zero_sample_def)
  from zero_distance [OF assms(1) this assms(3,5)] i(1)
  have "match_samples lm tol (derive_trajectory hmac secret ctx) (derive_trajectory hmac secret ctx)
      [0..<TRAJECTORY_SAMPLES] \<noteq> Inr ()" by (auto simp: match_samples_ok)
  with match_samples_cases False show ?thesis by (simp add: verify_trajectory_def) blast
qed

text \<open>(C9) The sender's own trajectory, received without distortion, is accepted for every
  tolerance between \<open>9 / 1024\<close> and \<open>1 / 2\<close> radians, unless one of its sixteen samples was
  derived from six zero bytes: then it is always rejected. The \<open>f32\<close> rounding of
  normalisation, dot product and \<open>acos\<close> is accounted for.\<close>

theorem honest_match:
  assumes "acos_accurate lm" and "hmac_len hmac"
    and "is_fin tol" and "9 / 1024 \<le> fval tol" and "fval tol \<le> 1 / 2"
  shows "verify_trajectory lm hmac secret ctx (derive_trajectory hmac secret ctx) (TrajectoryMatch tol)
    = Some (if directed hmac secret ctx then Inr () else Inl AuthenticationFailure)"
  using assms by (rule honest_verdict)

theorem honest_match_witness:
  "let hmac = (\<lambda>k m. replicate 32 7); s = SharedSecret (replicate 32 1);
       ctx = \<lparr>ctx_wavelength = Wavelength 40, ctx_oam = OamMode 1, ctx_sequence = 0, ctx_payload = [1, 2]\<rparr>;
       tol = fp_lit f32 1 100
   in acos_accurate sample_libm \<and> hmac_len hmac \<and> is_fin tol \<and> 9 / 1024 \<le> fval tol \<and> fval tol \<le> 1 / 2
      \<and> verify_trajectory sample_libm hmac s ctx (derive_trajectory hmac s ctx) (TrajectoryMatch tol) = Some (Inr ())"
proof -
  define hmac :: hmac_fn where "hmac = (\<lambda>k m. replicate 32 7)"
  define s where "s = SharedSecret (replicate 32 1)"
  define ctx where "ctx = \<lparr>ctx_wavelength = Wavelength 40, ctx_oam = OamMode 1, ctx_sequence = 0, ctx_payload = [1, 2]\<rparr>"
  define tol where "tol = fp_lit f32 1 100"
  have "tol = FNum False 10737418 (- 30)" unfolding tol_def by code_simp
  then have t: "is_fin tol" "9 / 1024 \<le> fval tol" "fval tol \<le> 1 / 2"
    by (simp_all add: sg_def power_int_minus)
  have l: "hmac_len hmac" by (simp add: hmac_len_def hmac_def)
  have d: "directed hmac s ctx"
    by (simp add: directed_def sample_block_def hmac_def zero_sample_def sub_slice_def)
  from honest_match [OF sample_libm_accurate l t, of s ctx] d
  have "verify_trajectory sample_libm hmac s ctx (derive_trajectory hmac s ctx) (TrajectoryMatch tol) = Some (Inr ())"
    by simp
  with t l sample_libm_accurate show ?thesis unfolding Let_def hmac_def s_def ctx_def tol_def by blast
qed

section \<open>Every verification returns\<close>

lemma verify_total:
  assumes "atan2_range lm"
  shows "verify_trajectory lm hmac secret ctx ob mode \<in> {Some (Inr ()), Some (Inl AuthenticationFailure)}"
proof (cases mode)
  case (TrajectoryMatch tol)
  then show ?thesis
    using match_samples_cases [of lm tol "derive_trajectory hmac secret ctx" ob] by (auto simp: verify_trajectory_def)
next
  case Topological
  then show ?thesis
    using winding_range [OF assms, of "derive_trajectory hmac secret ctx"] winding_range [OF assms, of ob]
    by (auto simp: verify_trajectory_def split: if_splits)
qed

text \<open>In topological mode the sender's own trajectory is always accepted.\<close>

lemma honest_topological:
  assumes "atan2_range lm"
  shows "verify_trajectory lm hmac secret ctx (derive_trajectory hmac secret ctx) Topological = Some (Inr ())"
  using winding_range [OF assms, of "derive_trajectory hmac secret ctx"] by (auto simp: verify_trajectory_def)

text \<open>(C16) Verification always returns, with \<open>Ok\<close> or \<open>AuthenticationFailure\<close> and nothing else,
  in both modes and for every observed trajectory, not-a-number and infinite samples included:
  the two wrapping loops of the winding number stop.\<close>

theorem verify_returns:
  assumes "atan2_range lm"
  shows "verify_trajectory lm hmac secret ctx ob mode \<in> {Some (Inr ()), Some (Inl AuthenticationFailure)}"
  using assms by (rule verify_total)

theorem verify_returns_witness:
  "atan2_range sample_libm \<and>
   verify_trajectory sample_libm (\<lambda>k m. replicate 32 7) (SharedSecret []) 
     \<lparr>ctx_wavelength = Wavelength 40, ctx_oam = OamMode 1, ctx_sequence = 0, ctx_payload = []\<rparr>
     \<lparr>samples = replicate 16 \<lparr>s1 = FNaN, s2 = FInf True, s3 = FNaN\<rparr>\<rparr> Topological
   \<in> {Some (Inr ()), Some (Inl AuthenticationFailure)}"
  using verify_returns [OF sample_libm_atan2] sample_libm_atan2 by blast

section \<open>What the tag binds\<close>

text \<open>(C17) The bytes under the first HMAC determine the wavelength, the OAM mode, the sequence
  number and the whole payload, and are never the bytes under a sample's HMAC. So two
  Transients that differ in any of these dimensions are authenticated under different
  messages, for payloads of any length.\<close>

theorem mac_input_binding:
  "(mac_input a = mac_input b \<longleftrightarrow> a = b) \<and> mac_input a \<noteq> sample_input tag i"
  by (simp add: mac_input_inj mac_input_not_sample)

section \<open>Trajectories that pass without the key\<close>

text \<open>(C37) In topological mode the check has at most 17 outcomes, and a trajectory that holds
  one polarization state throughout is accepted exactly when the expected winding number is
  zero. No key is needed to send one.\<close>

theorem topological_forgery:
  assumes "atan2_range lm" and "samples ob = replicate TRAJECTORY_SAMPLES v"
  shows "\<exists>w. winding_number_s3 lm (derive_trajectory hmac secret ctx) = Some w \<and> \<bar>w\<bar> \<le> 8
    \<and> verify_trajectory lm hmac secret ctx ob Topological
      = Some (if w = 0 then Inr () else Inl AuthenticationFailure)"
  using winding_range [OF assms(1), of "derive_trajectory hmac secret ctx"] winding_constant [OF assms]
  by (auto simp: verify_trajectory_def)

theorem topological_forgery_witness:
  "atan2_range sample_libm \<and>
   verify_trajectory sample_libm (\<lambda>k m. replicate 32 7) (SharedSecret (replicate 32 9))
     \<lparr>ctx_wavelength = Wavelength 40, ctx_oam = OamMode 1, ctx_sequence = 0, ctx_payload = []\<rparr>
     \<lparr>samples = replicate 16 stokes_H\<rparr> Topological = Some (Inr ())"
proof -
  let ?ctx = "\<lparr>ctx_wavelength = Wavelength 40, ctx_oam = OamMode 1, ctx_sequence = 0, ctx_payload = []\<rparr>"
  have c: "samples (derive_trajectory (\<lambda>k m. replicate 32 7) (SharedSecret (replicate 32 9)) ?ctx)
      = replicate TRAJECTORY_SAMPLES (stokes_from_bytes (sub_slice 0 6 (replicate 32 7)))"
    by (simp add: derive_trajectory_def Let_def trajectory_new_def map_replicate_const)
  have "samples \<lparr>samples = replicate 16 stokes_H\<rparr> = replicate TRAJECTORY_SAMPLES stokes_H"
    by (simp add: TRAJECTORY_SAMPLES_def)
  from topological_forgery [OF sample_libm_atan2 this, of "\<lambda>k m. replicate 32 7" "SharedSecret (replicate 32 9)" ?ctx]
    winding_constant [OF sample_libm_atan2 c] sample_libm_atan2
  show ?thesis by auto
qed

text \<open>In trajectory-match mode every comparison with a not-a-number distance is false, so an
  observed trajectory whose samples are not numbers is accepted for every key, context and
  tolerance.\<close>

theorem nan_trajectory_accepted:
  assumes "acos_f lm FNaN = FNaN" and "\<forall>i < TRAJECTORY_SAMPLES. s1 (samples ob ! i) = FNaN"
  shows "verify_trajectory lm hmac secret ctx ob (TrajectoryMatch tol) = Some (Inr ())"
proof -
  have m: "fp_mul f32 a FNaN = FNaN" for a by (cases a) simp_all
  have "angular_distance lm a (samples ob ! i) = FNaN" if "i < TRAJECTORY_SAMPLES" for a i
    using that assms by (simp add: angular_distance_def dot3_def m fp_clamp_def fp_lit_ones)
  moreover have "\<not> fp_lt a FNaN" for a by (cases a) simp_all
  ultimately show ?thesis by (simp add: verify_trajectory_def match_samples_ok)
qed

theorem nan_trajectory_accepted_witness:
  "acos_f sample_libm FNaN = FNaN \<and>
   verify_trajectory sample_libm (\<lambda>k m. replicate 32 7) (SharedSecret (replicate 32 9))
     \<lparr>ctx_wavelength = Wavelength 40, ctx_oam = OamMode 1, ctx_sequence = 0, ctx_payload = [1]\<rparr>
     \<lparr>samples = replicate 16 \<lparr>s1 = FNaN, s2 = FNaN, s3 = FNaN\<rparr>\<rparr> (TrajectoryMatch (fp_lit f32 1 1000))
   = Some (Inr ())"
proof -
  have n: "acos_f sample_libm FNaN = FNaN" by (simp add: sample_libm_def)
  have "\<forall>i < TRAJECTORY_SAMPLES. s1 (samples \<lparr>samples = replicate 16 \<lparr>s1 = FNaN, s2 = FNaN, s3 = FNaN\<rparr>\<rparr> ! i) = FNaN"
    by (simp add: TRAJECTORY_SAMPLES_def)
  from nan_trajectory_accepted [OF n this] n show ?thesis by blast
qed

end
