(* ===== verification/Codec.thy ===== *)
theory Codec
  imports Schema Authentication
begin

text \<open>
  The crate otap-codec: the encoder with its sequence counter and the decoder. \<open>encode\<close> is
  generic in a type that implements the trait \<open>Schema\<close>; here it takes the trait's two items
  it uses, the OAM mode and the encoding function, as arguments.
\<close>

section \<open>Encoder\<close>

record encoder =
  enc_secret :: shared_secret
  enc_next_sequence :: u16
  enc_wavelength :: wavelength

definition encoder_new :: "shared_secret \<Rightarrow> wavelength \<Rightarrow> encoder" where
  "encoder_new s w = \<lparr>enc_secret = s, enc_next_sequence = 0, enc_wavelength = w\<rparr>"

definition encode_raw :: "hmac_fn \<Rightarrow> encoder \<Rightarrow> oam_mode \<Rightarrow> bytes \<Rightarrow> transient \<times> encoder" where
  "encode_raw hmac e oam payload =
     (let seq = enc_next_sequence e;
          e' = e\<lparr>enc_next_sequence := enc_next_sequence e + 1\<rparr>;
          micro = micro_new seq;
          traj = derive_trajectory hmac (enc_secret e)
            \<lparr>ctx_wavelength = enc_wavelength e, ctx_oam = oam, ctx_sequence = seq, ctx_payload = payload\<rparr>
      in (transient_new (enc_wavelength e) traj oam micro payload, e'))"

definition encode :: "hmac_fn \<Rightarrow> oam_mode \<Rightarrow> ('a \<Rightarrow> bytes) \<Rightarrow> encoder \<Rightarrow> 'a \<Rightarrow> transient \<times> encoder" where
  "encode hmac oam_mode schema_encode e v = encode_raw hmac e oam_mode (schema_encode v)"

section \<open>Decoder\<close>

record decoder_config =
  dec_secret :: shared_secret
  dec_expected_wavelength :: wavelength
  dec_auth_mode :: auth_mode

record decode_report =
  rep_value :: any_schema_value
  rep_wavelength :: wavelength
  rep_oam :: oam_mode
  rep_micro :: micro_structure
  rep_auth_ok :: bool

record decoder =
  config :: decoder_config

definition decoder_new :: "decoder_config \<Rightarrow> decoder" where
  "decoder_new c = \<lparr>config = c\<rparr>"

text \<open>\<open>None\<close> when the verification does not come back.\<close>

definition decode :: "libm \<Rightarrow> hmac_fn \<Rightarrow> decoder \<Rightarrow> transient \<Rightarrow> (protocol_error + decode_report) option" where
  "decode lm hmac d t =
     (if t_wavelength t \<noteq> dec_expected_wavelength (config d)
      then Some (Inl (WireFormat ''wavelength does not match decoder binding''))
      else let wl = t_wavelength t; micro = t_micro t; oam = t_oam t
           in map_option
                (\<lambda>auth. let auth_ok = is_ok auth
                  in try_bind (any_decode oam (t_payload t)) (\<lambda>v.
                       Inr \<lparr>rep_value = v, rep_wavelength = wl, rep_oam = oam, rep_micro = micro,
                            rep_auth_ok = auth_ok\<rparr>))
                (verify_trajectory lm hmac (dec_secret (config d))
                   \<lparr>ctx_wavelength = wl, ctx_oam = oam, ctx_sequence = sequence micro, ctx_payload = t_payload t\<rparr>
                   (t_polarization t) (dec_auth_mode (config d))))"

section \<open>Runs of the encoder\<close>

fun encode_run :: "hmac_fn \<Rightarrow> encoder \<Rightarrow> (oam_mode \<times> bytes) list \<Rightarrow> transient list" where
  "encode_run hmac e [] = []"
| "encode_run hmac e ((oam, p) # ps) =
     (let (t, e') = encode_raw hmac e oam p in t # encode_run hmac e' ps)"

text \<open>The context the receiver of a Transient verifies it in.\<close>

definition transient_ctx :: "transient \<Rightarrow> trajectory_context" where
  "transient_ctx t = \<lparr>ctx_wavelength = t_wavelength t, ctx_oam = t_oam t,
     ctx_sequence = sequence (t_micro t), ctx_payload = t_payload t\<rparr>"

lemma encode_raw_fields:
  "t_wavelength (fst (encode_raw hmac e oam p)) = enc_wavelength e"
  "t_oam (fst (encode_raw hmac e oam p)) = oam"
  "t_payload (fst (encode_raw hmac e oam p)) = p"
  "t_micro (fst (encode_raw hmac e oam p)) = micro_new (enc_next_sequence e)"
  "t_polarization (fst (encode_raw hmac e oam p))
     = derive_trajectory hmac (enc_secret e) (transient_ctx (fst (encode_raw hmac e oam p)))"
  "snd (encode_raw hmac e oam p) = e\<lparr>enc_next_sequence := enc_next_sequence e + 1\<rparr>"
  by (simp_all add: encode_raw_def Let_def transient_new_def transient_ctx_def micro_new_def)

lemma encode_run_nth:
  "i < length ps \<Longrightarrow>
   encode_run hmac e ps ! i =
     fst (encode_raw hmac (e\<lparr>enc_next_sequence := enc_next_sequence e + of_nat i\<rparr>) (fst (ps ! i)) (snd (ps ! i)))"
proof (induction ps arbitrary: e i)
  case (Cons q ps)
  obtain oam p where q: "q = (oam, p)" by (cases q)
  show ?case
  proof (cases i)
    case 0
    then show ?thesis by (simp add: q split_beta Let_def)
  next
    case (Suc j)
    then show ?thesis
      using Cons.IH [of j "snd (encode_raw hmac e oam p)"] Cons.prems
      by (simp add: q split_beta Let_def encode_raw_fields add.assoc)
  qed
qed simp

lemma length_encode_run [simp]: "length (encode_run hmac e ps) = length ps"
  by (induction ps arbitrary: e) (auto simp: split_beta Let_def)

lemma of_nat_u16_eq: "(of_nat i :: u16) = of_nat j \<longleftrightarrow> i mod 65536 = j mod 65536"
  by (simp add: word_unat_eq_iff unat_of_nat)

section \<open>Properties\<close>

text \<open>The sequence numbers of a session: the \<open>i\<close>-th Transient of an encoder carries the
  start value plus \<open>i\<close> modulo \<open>2 ^ 16\<close>, so numbers are distinct within 65536 consecutive
  Transients and repeat after that. Two positions give the same Transient, polarization
  included, exactly when mode and payload agree and the positions agree modulo 65536.\<close>

theorem encoder_sequence:
  assumes "i < length ps" and "j < length ps"
  shows "sequence (t_micro (encode_run hmac e ps ! i)) = enc_next_sequence e + of_nat i
    \<and> (encode_run hmac e ps ! i = encode_run hmac e ps ! j \<longleftrightarrow>
         ps ! i = ps ! j \<and> i mod 65536 = j mod 65536)"
proof -
  let ?t = "\<lambda>i. encode_run hmac e ps ! i"
  note n = encode_run_nth [OF assms(1), of hmac e] encode_run_nth [OF assms(2), of hmac e]
  have s: "sequence (t_micro (?t i)) = enc_next_sequence e + of_nat i"
    "sequence (t_micro (?t j)) = enc_next_sequence e + of_nat j"
    by (simp_all add: n encode_raw_fields micro_new_def)
  have f: "t_oam (?t i) = fst (ps ! i)" "t_payload (?t i) = snd (ps ! i)"
    "t_oam (?t j) = fst (ps ! j)" "t_payload (?t j) = snd (ps ! j)"
    by (simp_all add: n encode_raw_fields)
  have "?t i = ?t j \<longleftrightarrow> ps ! i = ps ! j \<and> (of_nat i :: u16) = of_nat j"
  proof
    assume "?t i = ?t j"
    then show "ps ! i = ps ! j \<and> (of_nat i :: u16) = of_nat j"
      using s f by (metis add_left_cancel prod_eqI)
  next
    assume "ps ! i = ps ! j \<and> (of_nat i :: u16) = of_nat j"
    then show "?t i = ?t j" by (simp add: n)
  qed
  then show ?thesis by (simp add: s of_nat_u16_eq)
qed

theorem encoder_sequence_witness:
  "let e = encoder_new (SharedSecret (replicate 32 1)) (Wavelength 40);
       ps = [(OamMode 4, [1]), (OamMode 4, [1]), (OamMode 4, [2])]
   in sequence (t_micro (encode_run (\<lambda>k m. replicate 32 7) e ps ! 1)) = 1
      \<and> encode_run (\<lambda>k m. replicate 32 7) e ps ! 1 \<noteq> encode_run (\<lambda>k m. replicate 32 7) e ps ! 0"
proof -
  define e where "e = encoder_new (SharedSecret (replicate 32 1)) (Wavelength 40)"
  define ps :: "(oam_mode \<times> bytes) list" where "ps = [(OamMode 4, [1]), (OamMode 4, [1]), (OamMode 4, [2])]"
  have "1 < length ps" "0 < length ps" by (simp_all add: ps_def)
  from encoder_sequence [OF this, of "\<lambda>k m. replicate 32 7" e]
  show ?thesis unfolding Let_def e_def [symmetric] ps_def [symmetric]
    by (simp add: e_def encoder_new_def)
qed

text \<open>A session that sends values of any schema: \<open>encode\<close> at the type of each value.\<close>

fun encode_values :: "hmac_fn \<Rightarrow> encoder \<Rightarrow> any_schema_value list \<Rightarrow> transient list" where
  "encode_values hmac e [] = []"
| "encode_values hmac e (v # vs) =
     (let (t, e') = encode hmac (any_oam v) any_encode e v in t # encode_values hmac e' vs)"

lemma encode_values_run: "encode_values hmac e vs = encode_run hmac e (map (\<lambda>v. (any_oam v, any_encode v)) vs)"
  by (induction vs arbitrary: e) (simp_all add: encode_def)

text \<open>Authentication modes that accept what an honest sender derives: the topological one, and tolerances
  that leave room for the rounding of \<open>f32\<close>.\<close>

fun tolerant :: "auth_mode \<Rightarrow> bool" where
  "tolerant Topological \<longleftrightarrow> True"
| "tolerant (TrajectoryMatch tol) \<longleftrightarrow> is_fin tol \<and> 9 / 1024 \<le> fval tol \<and> fval tol \<le> 1 / 2"

lemma decode_honest:
  assumes "acos_accurate lm" and "atan2_range lm" and "hmac_len hmac" and "tolerant (dec_auth_mode c)"
    and "t_polarization t = derive_trajectory hmac (dec_secret c) (transient_ctx t)"
    and "any_decode (t_oam t) (t_payload t) = Inr v" and "t_wavelength t = dec_expected_wavelength c"
  shows "decode lm hmac (decoder_new c) t = Some (Inr \<lparr>rep_value = v, rep_wavelength = t_wavelength t,
    rep_oam = t_oam t, rep_micro = t_micro t,
    rep_auth_ok = (dec_auth_mode c = Topological \<or> directed hmac (dec_secret c) (transient_ctx t))\<rparr>)"
proof -
  have "verify_trajectory lm hmac (dec_secret c) (transient_ctx t) (t_polarization t) (dec_auth_mode c)
    = Some (if dec_auth_mode c = Topological \<or> directed hmac (dec_secret c) (transient_ctx t)
            then Inr () else Inl AuthenticationFailure)"
  proof (cases "dec_auth_mode c")
    case (TrajectoryMatch tol)
    then show ?thesis using honest_verdict [OF assms(1,3), of tol] assms(4,5) by simp
  next
    case Topological
    then show ?thesis using honest_topological [OF assms(2)] assms(5) by simp
  qed
  then show ?thesis using assms(6,7) by (simp add: decode_def decoder_new_def Let_def transient_ctx_def)
qed

text \<open>(C21) A whole session, from typed values to typed values: an encoder sends a list of values of any
  mixture of schemas, and a decoder with the same secret reads them. A decoder bound to another
  wavelength refuses every Transient. A decoder bound to that wavelength returns exactly the
  \<open>i\<close>-th value from the \<open>i\<close>-th Transient, with the OAM mode of its schema and the sequence number
  counted from the start modulo \<open>2 ^ 16\<close>, and reports it authentic: always in topological mode,
  and with a tolerance unless one of the samples was derived from six zero bytes. So what the sender
  puts in the tag, the counter included, is what the receiver recomputes.\<close>

theorem session_roundtrip:
  assumes "acos_accurate lm" and "atan2_range lm" and "hmac_len hmac" and "tolerant (dec_auth_mode c)"
    and "dec_secret c = enc_secret e" and "list_all wf_any vs" and "i < length vs"
  shows "decode lm hmac (decoder_new c) (encode_values hmac e vs ! i) = Some
    (if dec_expected_wavelength c \<noteq> enc_wavelength e
     then Inl (WireFormat ''wavelength does not match decoder binding'')
     else Inr \<lparr>rep_value = vs ! i, rep_wavelength = enc_wavelength e, rep_oam = any_oam (vs ! i),
       rep_micro = micro_new (enc_next_sequence e + of_nat i),
       rep_auth_ok = (dec_auth_mode c = Topological \<or> directed hmac (enc_secret e)
         \<lparr>ctx_wavelength = enc_wavelength e, ctx_oam = any_oam (vs ! i),
          ctx_sequence = enc_next_sequence e + of_nat i, ctx_payload = any_encode (vs ! i)\<rparr>)\<rparr>)"
proof -
  let ?e = "e\<lparr>enc_next_sequence := enc_next_sequence e + of_nat i\<rparr>"
  let ?t = "fst (encode_raw hmac ?e (any_oam (vs ! i)) (any_encode (vs ! i)))"
  have t: "encode_values hmac e vs ! i = ?t" using assms(7) by (simp add: encode_values_run encode_run_nth)
  have w: "t_wavelength ?t = enc_wavelength e" by (simp add: encode_raw_fields)
  have x: "transient_ctx ?t = \<lparr>ctx_wavelength = enc_wavelength e, ctx_oam = any_oam (vs ! i),
      ctx_sequence = enc_next_sequence e + of_nat i, ctx_payload = any_encode (vs ! i)\<rparr>"
    by (simp add: transient_ctx_def encode_raw_fields micro_new_def)
  show ?thesis
  proof (cases "dec_expected_wavelength c = enc_wavelength e")
    case True
    have "any_decode (t_oam ?t) (t_payload ?t) = Inr (vs ! i)"
      using assms(6,7) by (simp add: encode_raw_fields any_decode_encode list_all_length)
    from decode_honest [OF assms(1-4) _ this] True show ?thesis
      by (simp add: t x w encode_raw_fields(2,4,5) assms(5))
  next
    case False
    then show ?thesis by (simp add: t w decode_def decoder_new_def)
  qed
qed

theorem session_roundtrip_witness:
  "let hmac = (\<lambda>k m. replicate 32 7); s = SharedSecret (replicate 32 1);
       e = (encoder_new s (Wavelength 40))\<lparr>enc_next_sequence := 65535\<rparr>;
       c = \<lparr>dec_secret = s, dec_expected_wavelength = Wavelength 40, dec_auth_mode = TrajectoryMatch (fp_lit f32 1 100)\<rparr>;
       v = VHeartbeat \<lparr>hb_node_id = 7, hb_clock_offset_ns = - 8, hb_heartbeat_seq = 9, hb_reserved = replicate 8 0\<rparr>
   in acos_accurate sample_libm \<and> atan2_range sample_libm \<and> hmac_len hmac \<and> tolerant (dec_auth_mode c) \<and> wf_any v
      \<and> decode sample_libm hmac (decoder_new c) (encode_values hmac e [v, v] ! 1) = Some (Inr \<lparr>rep_value = v,
          rep_wavelength = Wavelength 40, rep_oam = HB_OAM_MODE, rep_micro = micro_new 0, rep_auth_ok = True\<rparr>)"
proof -
  define hmac :: hmac_fn where "hmac = (\<lambda>k m. replicate 32 7)"
  define s where "s = SharedSecret (replicate 32 1)"
  define e where "e = (encoder_new s (Wavelength 40))\<lparr>enc_next_sequence := 65535\<rparr>"
  define c where "c = \<lparr>dec_secret = s, dec_expected_wavelength = Wavelength 40, dec_auth_mode = TrajectoryMatch (fp_lit f32 1 100)\<rparr>"
  define v where "v = VHeartbeat \<lparr>hb_node_id = 7, hb_clock_offset_ns = - 8, hb_heartbeat_seq = 9, hb_reserved = replicate 8 0\<rparr>"
  have "fp_lit f32 1 100 = FNum False 10737418 (- 30)" by code_simp
  then have m: "tolerant (dec_auth_mode c)" by (simp add: c_def sg_def power_int_minus)
  have l: "hmac_len hmac" by (simp add: hmac_len_def hmac_def)
  have w: "wf_any v" unfolding v_def by code_simp
  have d: "directed hmac s ctx" for ctx
    by (simp add: directed_def sample_block_def hmac_def zero_sample_def sub_slice_def)
  have z: "(65536 :: u16) = 0" by code_simp
  have "dec_secret c = enc_secret e" "list_all wf_any [v, v]" "1 < length [v, v]"
    using w by (simp_all add: c_def e_def encoder_new_def)
  from session_roundtrip [OF sample_libm_accurate sample_libm_atan2 l m this] d
  have "decode sample_libm hmac (decoder_new c) (encode_values hmac e [v, v] ! 1) = Some (Inr \<lparr>rep_value = v,
      rep_wavelength = Wavelength 40, rep_oam = HB_OAM_MODE, rep_micro = micro_new 0, rep_auth_ok = True\<rparr>)"
    by (simp add: e_def encoder_new_def c_def v_def z del: encode_values.simps)
  with sample_libm_accurate sample_libm_atan2 l m w show ?thesis
    unfolding Let_def hmac_def s_def e_def c_def v_def by blast
qed

end
