(* ===== verification/WordStore.thy ===== *)
theory WordStore
  imports Prelude
begin

text \<open>
  The contract of a space of 32-bit registers: which offsets are registers, that a write there
  succeeds and changes that register only, and that everything else is refused. The register
  file of the control plane provides it; the lemmas on runs of writes are proved here.
\<close>

locale word_store =
  fixes rd :: "'s \<Rightarrow> nat \<Rightarrow> 'e + u32" and wr :: "'s \<Rightarrow> nat \<Rightarrow> u32 \<Rightarrow> 'e + 's"
    and wf :: "'s \<Rightarrow> bool" and reg :: "nat \<Rightarrow> bool"
  assumes write_ok: "wf s \<Longrightarrow> reg a \<Longrightarrow> \<exists>s'. wr s a v = Inr s' \<and> wf s'"
    and read_ok: "wf s \<Longrightarrow> reg a \<Longrightarrow> \<exists>v. rd s a = Inr v"
    and read_write: "wf s \<Longrightarrow> wr s a v = Inr s' \<Longrightarrow> reg b \<Longrightarrow> rd s' b = (if b = a then Inr v else rd s b)"
    and refused: "\<not> reg a \<Longrightarrow> \<not> is_ok (rd s a) \<and> \<not> is_ok (wr s a v)"
begin

lemma write_wf: "wf s \<Longrightarrow> wr s a v = Inr s' \<Longrightarrow> wf s'"
  using write_ok refused by (metis is_ok_simps(2) sum.inject(2))

lemma write_reg: "wr s a v = Inr s' \<Longrightarrow> reg a"
  using refused by (metis is_ok_simps(2))

lemma write_overwrites:
  assumes "wf s" "wr s a v = Inr s'" "wr s' a w = Inr s''" "wr s a w = Inr t" "reg b"
  shows "rd s'' b = rd t b"
  using read_write [OF write_wf [OF assms(1,2)] assms(3,5)] read_write [OF assms(1,2,5)]
    read_write [OF assms(1,4,5)] by simp

text \<open>A loop of writes at the offsets \<open>f i\<close>: afterwards each of them holds its value, and no other
  register has changed.\<close>

lemma write_loop:
  assumes "wf s" and "\<And>i. i \<in> set is \<Longrightarrow> reg (f i)" and "inj_on f (set is)" and "distinct is"
  shows "\<exists>s'. try_fold (\<lambda>s i. wr s (f i) (v i)) s is = Inr s' \<and> wf s'
    \<and> (\<forall>i \<in> set is. rd s' (f i) = Inr (v i))
    \<and> (\<forall>b. reg b \<longrightarrow> b \<notin> f ` set is \<longrightarrow> rd s' b = rd s b)"
  using assms
proof (induction "is" arbitrary: s)
  case Nil
  then show ?case by simp
next
  case (Cons i js)
  from Cons.prems obtain s1 where s1: "wr s (f i) (v i) = Inr s1" "wf s1"
    using write_ok by (meson list.set_intros(1))
  from Cons.IH [OF s1(2)] Cons.prems obtain s' where s':
    "try_fold (\<lambda>s i. wr s (f i) (v i)) s1 js = Inr s'" "wf s'"
    "\<forall>i \<in> set js. rd s' (f i) = Inr (v i)"
    "\<forall>b. reg b \<longrightarrow> b \<notin> f ` set js \<longrightarrow> rd s' b = rd s1 b"
    by auto
  have "f i \<notin> f ` set js" using Cons.prems by auto
  then have "rd s' (f i) = Inr (v i)" using s'(4) Cons.prems s1 read_write by simp
  moreover have "rd s' b = rd s b" if "reg b" "b \<notin> f ` set (i # js)" for b
    using that s'(4) read_write [OF Cons.prems(1) s1(1), of b] by simp
  ultimately show ?case using s1 s' by auto
qed

end

end
