(* ===== verification/Csr.thy ===== *)
theory Csr
  imports Crypto WordStore
begin

text \<open>
  The crate otap-csr: the control and status register file and its typed writers and views.
  Offsets are \<open>usize\<close> (natural numbers). A writer returns \<open>Inr\<close> with the new register file, or
  \<open>Inl\<close> with the error and leaves the file as it was. The last part gives the register map its
  meaning: the configuration the views show, and that each writer is an update of one field of
  that configuration.
\<close>

section \<open>The register map\<close>

definition MAP_VERSION :: u8 where "MAP_VERSION = 1"
definition REG_WAVELENGTH :: nat where "REG_WAVELENGTH = 0x000"
definition REG_CTRL :: nat where "REG_CTRL = 0x004"
definition REG_AUTH_TOLERANCE :: nat where "REG_AUTH_TOLERANCE = 0x008"
definition REG_STATUS :: nat where "REG_STATUS = 0x00C"
definition REG_SECRET_BASE :: nat where "REG_SECRET_BASE = 0x010"
definition SECRET_WORDS :: nat where "SECRET_WORDS = 8"
definition REG_SECRET_VALID :: nat where "REG_SECRET_VALID = 0x030"
definition REG_SCHEMA_PAYLOAD_BASE :: nat where "REG_SCHEMA_PAYLOAD_BASE = 0x040"
definition SCHEMA_TABLE_ENTRIES :: nat where "SCHEMA_TABLE_ENTRIES = 32"
definition REG_OAM_TABLE_BASE :: nat where "REG_OAM_TABLE_BASE = 0x100"
definition OAM_TABLE_ENTRIES :: nat where "OAM_TABLE_ENTRIES = 33"
definition REG_PEER_WAVELENGTH_BASE :: nat where "REG_PEER_WAVELENGTH_BASE = 0x200"
definition PEER_TABLE_ENTRIES :: nat where "PEER_TABLE_ENTRIES = 16"
definition CSR_SPACE_BYTES :: nat where "CSR_SPACE_BYTES = 0x400"
definition CSR_SPACE_WORDS :: nat where "CSR_SPACE_WORDS = CSR_SPACE_BYTES div 4"
definition CTRL_ENABLE_TX :: u32 where "CTRL_ENABLE_TX = push_bit 0 1"
definition CTRL_ENABLE_RX :: u32 where "CTRL_ENABLE_RX = push_bit 1 1"
definition CTRL_AUTH_TOPOLOGICAL :: u32 where "CTRL_AUTH_TOPOLOGICAL = push_bit 2 1"
definition STATUS_ARMED :: u32 where "STATUS_ARMED = push_bit 0 1"
definition STATUS_PEER_READY :: u32 where "STATUS_PEER_READY = push_bit 1 1"
definition STATUS_ERROR :: u32 where "STATUS_ERROR = push_bit 31 1"

lemmas csr_map = REG_WAVELENGTH_def REG_CTRL_def REG_AUTH_TOLERANCE_def REG_SECRET_BASE_def
  SECRET_WORDS_def REG_SECRET_VALID_def REG_SCHEMA_PAYLOAD_BASE_def SCHEMA_TABLE_ENTRIES_def
  REG_OAM_TABLE_BASE_def CSR_SPACE_BYTES_def CSR_SPACE_WORDS_def

datatype csr_error =
    OutOfRange nat nat
  | Misaligned nat
  | SchemaIdOutOfRange u8 nat
  | OamOutOfRange i8
  | CsrProtocol protocol_error

section \<open>The register file\<close>

record register_file =
  words :: "u32 list"

definition register_file_new :: register_file where
  "register_file_new = \<lparr>words = replicate CSR_SPACE_WORDS 0\<rparr>"

definition read_u32 :: "register_file \<Rightarrow> nat \<Rightarrow> csr_error + u32" where
  "read_u32 rf off =
     (if off \<ge> CSR_SPACE_BYTES then Inl (OutOfRange off CSR_SPACE_BYTES)
      else if off AND 3 \<noteq> 0 then Inl (Misaligned off)
      else Inr (words rf ! (off div 4)))"

definition write_u32 :: "register_file \<Rightarrow> nat \<Rightarrow> u32 \<Rightarrow> csr_error + register_file" where
  "write_u32 rf off v =
     (if off \<ge> CSR_SPACE_BYTES then Inl (OutOfRange off CSR_SPACE_BYTES)
      else if off AND 3 \<noteq> 0 then Inl (Misaligned off)
      else Inr (rf\<lparr>words := (words rf)[off div 4 := v]\<rparr>))"

definition snapshot :: "register_file \<Rightarrow> u32 list" where
  "snapshot rf = words rf"

definition wf_rf :: "register_file \<Rightarrow> bool" where
  "wf_rf rf \<longleftrightarrow> length (words rf) = CSR_SPACE_WORDS"

section \<open>Writers\<close>

definition set_wavelength :: "register_file \<Rightarrow> wavelength \<Rightarrow> csr_error + register_file" where
  "set_wavelength rf w = write_u32 rf REG_WAVELENGTH (ucast (channel w))"

definition set_ctrl :: "register_file \<Rightarrow> u32 \<Rightarrow> csr_error + register_file" where
  "set_ctrl rf v = write_u32 rf REG_CTRL v"

definition to_mrad :: "fp \<Rightarrow> u32" where
  "to_mrad radians =
     fp_to_u32 (fp_max (fp_round_away f32 (fp_mul f32 radians (fp_lit f32 1000 1))) (fp_lit f32 0 1))"

definition set_auth_tolerance :: "register_file \<Rightarrow> fp \<Rightarrow> csr_error + register_file" where
  "set_auth_tolerance rf radians = write_u32 rf REG_AUTH_TOLERANCE (to_mrad radians)"

definition secret_word :: "bytes \<Rightarrow> nat \<Rightarrow> u32" where
  "secret_word bs i = from_be_bytes [bs ! (i * 4), bs ! (i * 4 + 1), bs ! (i * 4 + 2), bs ! (i * 4 + 3)]"

definition set_secret :: "register_file \<Rightarrow> bytes \<Rightarrow> csr_error + register_file" where
  "set_secret rf bs =
     try_bind
       (try_fold (\<lambda>rf i. write_u32 rf (REG_SECRET_BASE + i * 4) (secret_word bs i)) rf [0..<SECRET_WORDS])
       (\<lambda>rf. write_u32 rf REG_SECRET_VALID 1)"

definition put_half :: "nat \<Rightarrow> u32 \<Rightarrow> u16 \<Rightarrow> u32" where
  "put_half entry word p =
     (if even entry then (word AND 0xFFFF0000) OR ucast p
      else (word AND 0x0000FFFF) OR push_bit 16 (ucast p))"

definition set_schema_payload :: "register_file \<Rightarrow> u8 \<Rightarrow> u16 \<Rightarrow> csr_error + register_file" where
  "set_schema_payload rf schema_id p =
     (if schema_id = 0 \<or> unat schema_id \<ge> SCHEMA_TABLE_ENTRIES
      then Inl (SchemaIdOutOfRange schema_id SCHEMA_TABLE_ENTRIES)
      else let entry = unat schema_id; word_off = REG_SCHEMA_PAYLOAD_BASE + (entry div 2) * 4
           in try_bind (read_u32 rf word_off) (\<lambda>word. write_u32 rf word_off (put_half entry word p)))"

definition put_byte :: "nat \<Rightarrow> u32 \<Rightarrow> u8 \<Rightarrow> u32" where
  "put_byte shift word b = (word AND NOT (push_bit shift 0xFF)) OR push_bit shift (ucast b)"

definition set_oam_to_schema :: "register_file \<Rightarrow> oam_mode \<Rightarrow> u8 \<Rightarrow> csr_error + register_file" where
  "set_oam_to_schema rf oam schema_id =
     (let idx = sint (charge oam) + 16
      in if idx < 0 \<or> 32 < idx then Inl (OamOutOfRange (charge oam))
         else let idx = nat idx; word_off = REG_OAM_TABLE_BASE + (idx div 4) * 4; shift = idx mod 4 * 8
              in try_bind (read_u32 rf word_off) (\<lambda>word. write_u32 rf word_off (put_byte shift word schema_id)))"

section \<open>Views\<close>

definition view_wavelength :: "register_file \<Rightarrow> csr_error + wavelength" where
  "view_wavelength rf =
     try_bind (read_u32 rf REG_WAVELENGTH)
       (\<lambda>v. map_err CsrProtocol (wavelength_new (ucast (v AND 0xFFFF))))"

definition view_ctrl :: "register_file \<Rightarrow> csr_error + u32" where
  "view_ctrl rf = read_u32 rf REG_CTRL"

definition auth_tolerance :: "register_file \<Rightarrow> csr_error + fp" where
  "auth_tolerance rf =
     try_bind (read_u32 rf REG_AUTH_TOLERANCE)
       (\<lambda>v. Inr (fp_div f32 (fp_of_int f32 (uint v)) (fp_lit f32 1000 1)))"

definition secret_valid :: "register_file \<Rightarrow> csr_error + bool" where
  "secret_valid rf = try_bind (read_u32 rf REG_SECRET_VALID) (\<lambda>v. Inr (v AND 1 \<noteq> 0))"

definition view_shared_secret :: "register_file \<Rightarrow> csr_error + shared_secret option" where
  "view_shared_secret rf =
     try_bind (secret_valid rf) (\<lambda>ok.
       if \<not> ok then Inr None
       else try_bind
              (try_fold (\<lambda>bs i. try_bind (read_u32 rf (REG_SECRET_BASE + i * 4))
                                 (\<lambda>w. Inr (copy_at (i * 4) (to_be_bytes 4 w) bs)))
                (replicate 32 0) [0..<SECRET_WORDS])
              (\<lambda>bs. Inr (Some (SharedSecret bs))))"

definition get_half :: "nat \<Rightarrow> u32 \<Rightarrow> u16" where
  "get_half entry word = ucast (if even entry then word AND 0xFFFF else drop_bit 16 word AND 0xFFFF)"

definition schema_payload_bytes :: "register_file \<Rightarrow> u8 \<Rightarrow> csr_error + u16" where
  "schema_payload_bytes rf schema_id =
     (if schema_id = 0 \<or> unat schema_id \<ge> SCHEMA_TABLE_ENTRIES
      then Inl (SchemaIdOutOfRange schema_id SCHEMA_TABLE_ENTRIES)
      else let entry = unat schema_id; word_off = REG_SCHEMA_PAYLOAD_BASE + (entry div 2) * 4
           in try_bind (read_u32 rf word_off) (\<lambda>word. Inr (get_half entry word)))"

definition schema_id_for_oam :: "register_file \<Rightarrow> oam_mode \<Rightarrow> csr_error + u8" where
  "schema_id_for_oam rf oam =
     (let idx = sint (charge oam) + 16
      in if idx < 0 \<or> 32 < idx then Inl (OamOutOfRange (charge oam))
         else let idx = nat idx; word_off = REG_OAM_TABLE_BASE + (idx div 4) * 4
              in try_bind (read_u32 rf word_off)
                   (\<lambda>word. Inr (ucast (drop_bit (idx mod 4 * 8) word AND 0xFF))))"

section \<open>The register file is a word store\<close>

definition csr_reg :: "nat \<Rightarrow> bool" where
  "csr_reg off \<longleftrightarrow> off < CSR_SPACE_BYTES \<and> off mod 4 = 0"

lemma and_3_eq: "(off :: nat) AND 3 = off mod 4"
proof -
  have "off AND mask 2 = take_bit 2 off" by (simp only: take_bit_eq_mask)
  moreover have "(mask 2 :: nat) = 3" by (simp add: mask_eq_exp_minus_1)
  moreover have "take_bit 2 off = off mod 4" by (simp add: take_bit_eq_mod)
  ultimately show ?thesis by simp
qed

lemma read_u32_reg: "csr_reg off \<Longrightarrow> read_u32 rf off = Inr (words rf ! (off div 4))"
  by (simp add: csr_reg_def read_u32_def and_3_eq)

lemma write_u32_reg: "csr_reg off \<Longrightarrow> write_u32 rf off v = Inr (rf\<lparr>words := (words rf)[off div 4 := v]\<rparr>)"
  by (simp add: csr_reg_def write_u32_def and_3_eq)

lemma csr_reg_div: "csr_reg a \<Longrightarrow> csr_reg b \<Longrightarrow> a div 4 = b div 4 \<longleftrightarrow> a = b"
  unfolding csr_reg_def by (metis add.right_neutral div_mult_mod_eq)

interpretation csr: word_store read_u32 write_u32 wf_rf csr_reg
proof
  fix rf a v assume "wf_rf rf" "csr_reg a"
  then show "\<exists>rf'. write_u32 rf a v = Inr rf' \<and> wf_rf rf'" by (simp add: write_u32_reg wf_rf_def)
next
  fix rf a assume "wf_rf rf" "csr_reg a"
  then show "\<exists>v. read_u32 rf a = Inr v" by (simp add: read_u32_reg)
next
  fix rf a v rf' b assume wf: "wf_rf rf" and w: "write_u32 rf a v = Inr rf'" and b: "csr_reg b"
  have a: "csr_reg a"
  proof (rule ccontr)
    assume "\<not> csr_reg a"
    with w show False by (simp add: write_u32_def csr_reg_def and_3_eq split: if_splits)
  qed
  then have "a < 1024" by (simp add: csr_reg_def CSR_SPACE_BYTES_def)
  then have "a div 4 < length (words rf)"
    using wf by (simp add: wf_rf_def CSR_SPACE_WORDS_def CSR_SPACE_BYTES_def less_mult_imp_div_less)
  moreover have "rf' = rf\<lparr>words := (words rf)[a div 4 := v]\<rparr>" using w by (simp add: write_u32_reg [OF a])
  ultimately show "read_u32 rf' b = (if b = a then Inr v else read_u32 rf b)"
    using csr_reg_div [OF a b] by (simp add: read_u32_reg [OF b] nth_list_update)
next
  fix rf a v assume "\<not> csr_reg a"
  then show "\<not> is_ok (read_u32 rf a) \<and> \<not> is_ok (write_u32 rf a v)"
    by (simp add: csr_reg_def read_u32_def write_u32_def and_3_eq)
qed

section \<open>Packed table entries\<close>

lemma csr_masks: "(0xFFFF :: u32) = mask 16" "(0xFFFF0000 :: u32) = NOT (mask 16)" "(0xFF :: u32) = mask 8"
  by (simp_all add: mask_eq_exp_minus_1)

lemma get_put_half: "get_half j (put_half i w p) = (if even i = even j then p else get_half j w)"
  by (intro bit_word_eqI)
    (auto simp: get_half_def put_half_def csr_masks bit_simps dest: bit_imp_le_length)

lemma get_put_byte_same: "s < 25 \<Longrightarrow> ucast (drop_bit s (put_byte s w b) AND 0xFF) = (b :: u8)"
  by (intro bit_word_eqI) (auto simp: put_byte_def csr_masks bit_simps dest: bit_imp_le_length)

lemma get_put_byte_other:
  "s' + 8 \<le> s \<or> s + 8 \<le> s' \<Longrightarrow>
   (ucast (drop_bit s' (put_byte s w b) AND 0xFF) :: u8) = ucast (drop_bit s' w AND 0xFF)"
  by (intro bit_word_eqI) (auto simp: put_byte_def csr_masks bit_simps dest: bit_imp_le_length)

definition payload_off :: "u8 \<Rightarrow> nat" where
  "payload_off i = REG_SCHEMA_PAYLOAD_BASE + (unat i div 2) * 4"

definition valid_schema :: "u8 \<Rightarrow> bool" where
  "valid_schema i \<longleftrightarrow> i \<noteq> 0 \<and> unat i < SCHEMA_TABLE_ENTRIES"

definition oam_idx :: "oam_mode \<Rightarrow> nat" where
  "oam_idx m = nat (sint (charge m) + 16)"

definition oam_off :: "oam_mode \<Rightarrow> nat" where
  "oam_off m = REG_OAM_TABLE_BASE + (oam_idx m div 4) * 4"

lemma payload_off_range:
  assumes "valid_schema i"
  shows "csr_reg (payload_off i)" and "64 \<le> payload_off i" and "payload_off i < 128"
proof -
  from assms have "unat i < 16 * 2" by (simp add: valid_schema_def SCHEMA_TABLE_ENTRIES_def)
  then have "unat i div 2 < 16" by (rule less_mult_imp_div_less)
  then show "csr_reg (payload_off i)" "64 \<le> payload_off i" "payload_off i < 128"
    by (simp_all add: csr_reg_def payload_off_def csr_map)
qed

lemma oam_idx_bound: "wf_oam m \<Longrightarrow> oam_idx m \<le> 32"
  by (auto simp: wf_oam_def OAM_MIN_def OAM_MAX_def oam_idx_def)

lemma oam_off_range:
  assumes "wf_oam m"
  shows "csr_reg (oam_off m)" and "256 \<le> oam_off m" and "oam_off m < 512"
proof -
  have "oam_idx m < 9 * 4" using oam_idx_bound [OF assms] by simp
  then have "oam_idx m div 4 < 9" by (rule less_mult_imp_div_less)
  then show "csr_reg (oam_off m)" "256 \<le> oam_off m" "oam_off m < 512"
    by (simp_all add: csr_reg_def oam_off_def csr_map)
qed

lemma oam_idx_inj: "wf_oam m \<Longrightarrow> wf_oam n \<Longrightarrow> oam_idx m = oam_idx n \<longleftrightarrow> m = n"
  by (cases m; cases n)
    (auto simp: wf_oam_def OAM_MIN_def OAM_MAX_def oam_idx_def eq_nat_nat_iff intro!: signed_word_eqI)

text \<open>The four table operations in terms of an entry's register.\<close>

lemma set_schema_payload_eq:
  "set_schema_payload rf i p =
     (if valid_schema i
      then try_bind (read_u32 rf (payload_off i)) (\<lambda>w. write_u32 rf (payload_off i) (put_half (unat i) w p))
      else Inl (SchemaIdOutOfRange i SCHEMA_TABLE_ENTRIES))"
  by (auto simp: set_schema_payload_def valid_schema_def payload_off_def Let_def)

lemma schema_payload_bytes_eq:
  "schema_payload_bytes rf i =
     (if valid_schema i then try_bind (read_u32 rf (payload_off i)) (\<lambda>w. Inr (get_half (unat i) w))
      else Inl (SchemaIdOutOfRange i SCHEMA_TABLE_ENTRIES))"
  by (auto simp: schema_payload_bytes_def valid_schema_def payload_off_def Let_def)

lemma set_oam_to_schema_eq:
  "set_oam_to_schema rf m i =
     (if wf_oam m
      then try_bind (read_u32 rf (oam_off m)) (\<lambda>w. write_u32 rf (oam_off m) (put_byte (oam_idx m mod 4 * 8) w i))
      else Inl (OamOutOfRange (charge m)))"
  by (auto simp: set_oam_to_schema_def wf_oam_def OAM_MIN_def OAM_MAX_def oam_idx_def oam_off_def Let_def)

lemma schema_id_for_oam_eq:
  "schema_id_for_oam rf m =
     (if wf_oam m
      then try_bind (read_u32 rf (oam_off m)) (\<lambda>w. Inr (ucast (drop_bit (oam_idx m mod 4 * 8) w AND 0xFF)))
      else Inl (OamOutOfRange (charge m)))"
  by (auto simp: schema_id_for_oam_def wf_oam_def OAM_MIN_def OAM_MAX_def oam_idx_def oam_off_def Let_def)

section \<open>The secret\<close>

lemma secret_read_loop:
  assumes "\<And>i. i < SECRET_WORDS \<Longrightarrow> read_u32 rf (REG_SECRET_BASE + i * 4) = Inr (w i)"
  shows "try_fold (\<lambda>bs i. try_bind (read_u32 rf (REG_SECRET_BASE + i * 4))
      (\<lambda>w. Inr (copy_at (i * 4) (to_be_bytes 4 w) bs))) (replicate 32 0) [0..<SECRET_WORDS]
    = Inr (concat (map (\<lambda>i. to_be_bytes 4 (w i)) [0..<SECRET_WORDS]))"
proof -
  have "try_fold (\<lambda>bs i. try_bind (read_u32 rf (REG_SECRET_BASE + i * 4))
      (\<lambda>w. Inr (copy_at (i * 4) (to_be_bytes 4 w) bs))) (replicate 32 0) [0..<n]
    = Inr (concat (map (\<lambda>i. to_be_bytes 4 (w i)) [0..<n]) @ replicate (32 - 4 * n) 0)" if "n \<le> 8" for n
    using that
  proof (induction n)
    case 0
    then show ?case by simp
  next
    case (Suc n)
    have l: "length (concat (map (\<lambda>i. to_be_bytes 4 (w i)) [0..<n])) = 4 * n"
      by (induction n) simp_all
    from Suc assms [of n] show ?case
      by (simp add: try_fold_append SECRET_WORDS_def copy_at_def l)
  qed
  from this [of 8] show ?thesis by (simp add: SECRET_WORDS_def)
qed

lemma view_shared_secret_words:
  assumes "\<And>i. i < SECRET_WORDS \<Longrightarrow> read_u32 rf (REG_SECRET_BASE + i * 4) = Inr (w i)"
    and "read_u32 rf REG_SECRET_VALID = Inr v"
  shows "view_shared_secret rf =
    Inr (if v AND 1 \<noteq> 0 then Some (SharedSecret (concat (map (\<lambda>i. to_be_bytes 4 (w i)) [0..<SECRET_WORDS])))
         else None)"
  using secret_read_loop [of rf w] assms by (simp add: view_shared_secret_def secret_valid_def)

lemma secret_words_concat:
  assumes "length bs = 32"
  shows "concat (map (\<lambda>i. to_be_bytes 4 (secret_word bs i)) [0..<SECRET_WORDS]) = bs"
proof -
  have w: "to_be_bytes 4 (secret_word bs i) = [bs ! (i * 4), bs ! (i * 4 + 1), bs ! (i * 4 + 2), bs ! (i * 4 + 3)]" for i
    using to_from_be_bytes [of "[bs ! (i * 4), bs ! (i * 4 + 1), bs ! (i * 4 + 2), bs ! (i * 4 + 3)]", where 'a = 32]
    by (simp add: secret_word_def numeral_eq_Suc)
  also have "[bs ! (i * 4), bs ! (i * 4 + 1), bs ! (i * 4 + 2), bs ! (i * 4 + 3)] = take 4 (drop (4 * i) bs)"
    if "i < 8" for i
    using assms that
    by (intro nth_equalityI) (auto simp: numeral_eq_Suc less_Suc_eq ac_simps)
  finally have s: "to_be_bytes 4 (secret_word bs i) = take 4 (drop (4 * i) bs)" if "i < 8" for i
    using that by simp
  have "concat (map (\<lambda>i. take 4 (drop (4 * i) bs)) [0..<n]) = take (4 * n) bs" for n
  proof (induction n)
    case (Suc n)
    then show ?case using take_add [of "4 * n" 4 bs] by (simp add: add.commute)
  qed simp
  moreover have "map (\<lambda>i. to_be_bytes 4 (secret_word bs i)) [0..<8] = map (\<lambda>i. take 4 (drop (4 * i) bs)) [0..<8]"
    by (rule map_cong) (simp_all add: s)
  ultimately show ?thesis using assms by (simp only: SECRET_WORDS_def) simp
qed

section \<open>The configuration the views show\<close>

text \<open>All that a reader of the register file can learn through the typed views, and the commands
  of the writer module with the update each of them stands for.\<close>

record csr_config =
  cfg_wavelength :: "csr_error + wavelength"
  cfg_ctrl :: "csr_error + u32"
  cfg_tolerance :: "csr_error + fp"
  cfg_secret :: "csr_error + shared_secret option"
  cfg_payload :: "u8 \<Rightarrow> csr_error + u16"
  cfg_schema :: "oam_mode \<Rightarrow> csr_error + u8"

definition csr_abs :: "register_file \<Rightarrow> csr_config" where
  "csr_abs rf = \<lparr>cfg_wavelength = view_wavelength rf, cfg_ctrl = view_ctrl rf,
     cfg_tolerance = auth_tolerance rf, cfg_secret = view_shared_secret rf,
     cfg_payload = schema_payload_bytes rf, cfg_schema = schema_id_for_oam rf\<rparr>"

datatype csr_cmd =
    SetWavelength wavelength
  | SetCtrl u32
  | SetAuthTolerance fp
  | SetSecret bytes
  | SetSchemaPayload u8 u16
  | SetOamToSchema oam_mode u8

fun csr_exec :: "register_file \<Rightarrow> csr_cmd \<Rightarrow> csr_error + register_file" where
  "csr_exec rf (SetWavelength w) = set_wavelength rf w"
| "csr_exec rf (SetCtrl v) = set_ctrl rf v"
| "csr_exec rf (SetAuthTolerance r) = set_auth_tolerance rf r"
| "csr_exec rf (SetSecret bs) = set_secret rf bs"
| "csr_exec rf (SetSchemaPayload i p) = set_schema_payload rf i p"
| "csr_exec rf (SetOamToSchema m i) = set_oam_to_schema rf m i"

text \<open>Arguments the types of the source allow: a wavelength in range and 32 secret bytes.\<close>

fun cmd_typed :: "csr_cmd \<Rightarrow> bool" where
  "cmd_typed (SetWavelength w) = wf_wavelength w"
| "cmd_typed (SetSecret bs) = (length bs = 32)"
| "cmd_typed _ = True"

fun cfg_exec :: "csr_config \<Rightarrow> csr_cmd \<Rightarrow> csr_error + csr_config" where
  "cfg_exec c (SetWavelength w) = Inr (c\<lparr>cfg_wavelength := Inr w\<rparr>)"
| "cfg_exec c (SetCtrl v) = Inr (c\<lparr>cfg_ctrl := Inr v\<rparr>)"
| "cfg_exec c (SetAuthTolerance r) =
     Inr (c\<lparr>cfg_tolerance := Inr (fp_div f32 (fp_of_int f32 (uint (to_mrad r))) (fp_lit f32 1000 1))\<rparr>)"
| "cfg_exec c (SetSecret bs) = Inr (c\<lparr>cfg_secret := Inr (Some (SharedSecret bs))\<rparr>)"
| "cfg_exec c (SetSchemaPayload i p) =
     (if valid_schema i then Inr (c\<lparr>cfg_payload := (cfg_payload c)(i := Inr p)\<rparr>)
      else Inl (SchemaIdOutOfRange i SCHEMA_TABLE_ENTRIES))"
| "cfg_exec c (SetOamToSchema m i) =
     (if wf_oam m then Inr (c\<lparr>cfg_schema := (cfg_schema c)(m := Inr i)\<rparr>)
      else Inl (OamOutOfRange (charge m)))"

section \<open>Frame lemmas\<close>

text \<open>Each view depends on its own registers only.\<close>

definition same_except :: "nat set \<Rightarrow> register_file \<Rightarrow> register_file \<Rightarrow> bool" where
  "same_except A rf rf' \<longleftrightarrow> (\<forall>b. csr_reg b \<longrightarrow> b \<notin> A \<longrightarrow> read_u32 rf' b = read_u32 rf b)"

lemma view_frames:
  assumes se: "same_except A rf rf'"
  shows "0x000 \<notin> A \<Longrightarrow> view_wavelength rf' = view_wavelength rf"
    and "0x004 \<notin> A \<Longrightarrow> view_ctrl rf' = view_ctrl rf"
    and "0x008 \<notin> A \<Longrightarrow> auth_tolerance rf' = auth_tolerance rf"
    and "A \<inter> {0x010..0x030} = {} \<Longrightarrow> view_shared_secret rf' = view_shared_secret rf"
    and "A \<inter> {64..<128} = {} \<Longrightarrow> schema_payload_bytes rf' = schema_payload_bytes rf"
    and "A \<inter> {256..<512} = {} \<Longrightarrow> schema_id_for_oam rf' = schema_id_for_oam rf"
proof -
  have assms: "csr_reg b \<Longrightarrow> b \<notin> A \<Longrightarrow> read_u32 rf' b = read_u32 rf b" for b
    using se by (simp add: same_except_def)
  note r = csr_reg_def csr_map
  show "0x000 \<notin> A \<Longrightarrow> view_wavelength rf' = view_wavelength rf"
    "0x004 \<notin> A \<Longrightarrow> view_ctrl rf' = view_ctrl rf"
    "0x008 \<notin> A \<Longrightarrow> auth_tolerance rf' = auth_tolerance rf"
    by (simp_all add: view_wavelength_def view_ctrl_def auth_tolerance_def assms r)
  show "view_shared_secret rf' = view_shared_secret rf" if "A \<inter> {0x010..0x030} = {}"
  proof -
    have "0x30 \<notin> A" "i < 8 \<Longrightarrow> 0x10 + i * 4 \<notin> A" for i using that by auto
    then have "read_u32 rf' REG_SECRET_VALID = Inr (words rf ! 12)"
      "i < SECRET_WORDS \<Longrightarrow> read_u32 rf' (REG_SECRET_BASE + i * 4) = Inr (words rf ! (4 + i))" for i
      using assms by (auto simp: r read_u32_reg [of _ rf])
    moreover have "read_u32 rf REG_SECRET_VALID = Inr (words rf ! 12)"
      "i < SECRET_WORDS \<Longrightarrow> read_u32 rf (REG_SECRET_BASE + i * 4) = Inr (words rf ! (4 + i))" for i
      by (auto simp: r read_u32_reg)
    ultimately show ?thesis
      using view_shared_secret_words [of rf' "\<lambda>i. words rf ! (4 + i)" "words rf ! 12"]
        view_shared_secret_words [of rf "\<lambda>i. words rf ! (4 + i)" "words rf ! 12"] by simp
  qed
  show "schema_payload_bytes rf' = schema_payload_bytes rf" if A: "A \<inter> {64..<128} = {}"
  proof
    fix i
    have "valid_schema i \<Longrightarrow> payload_off i \<notin> A" using A payload_off_range [of i] by auto
    then show "schema_payload_bytes rf' i = schema_payload_bytes rf i"
      using assms payload_off_range(1) [of i] by (simp add: schema_payload_bytes_eq)
  qed
  show "schema_id_for_oam rf' = schema_id_for_oam rf" if A: "A \<inter> {256..<512} = {}"
  proof
    fix m
    have "wf_oam m \<Longrightarrow> oam_off m \<notin> A" using A oam_off_range [of m] by auto
    then show "schema_id_for_oam rf' m = schema_id_for_oam rf m"
      using assms oam_off_range(1) [of m] by (simp add: schema_id_for_oam_eq)
  qed
qed

text \<open>A write to one register, seen through the views.\<close>

lemma single_write:
  assumes wf: "wf_rf rf" and w: "write_u32 rf a v = Inr rf'"
  shows "wf_rf rf'" and "same_except {a} rf rf'" and "read_u32 rf' a = Inr v"
  using csr.write_wf [OF wf w] csr.read_write [OF wf w] csr.write_reg [OF w]
  by (auto simp: same_except_def)

lemma set_wavelength_refines:
  assumes "wf_rf rf" and "wf_wavelength w" and s: "set_wavelength rf w = Inr rf'"
  shows "csr_abs rf' = (csr_abs rf)\<lparr>cfg_wavelength := Inr w\<rparr>"
proof -
  note sw = single_write [OF assms(1) s [unfolded set_wavelength_def]]
  have "ucast (ucast (channel w) AND 0xFFFF :: u32) = channel w"
    by (intro bit_word_eqI) (auto simp: csr_masks bit_simps dest: bit_imp_le_length)
  then have "view_wavelength rf' = Inr w"
    using assms(2) sw(3) by (cases w) (simp add: view_wavelength_def wavelength_new_def wf_wavelength_def)
  then show ?thesis
    using view_frames [OF sw(2)] by (simp add: csr_abs_def REG_WAVELENGTH_def)
qed

lemma set_ctrl_refines:
  assumes "wf_rf rf" and s: "set_ctrl rf v = Inr rf'"
  shows "csr_abs rf' = (csr_abs rf)\<lparr>cfg_ctrl := Inr v\<rparr>"
proof -
  note sw = single_write [OF assms(1) s [unfolded set_ctrl_def]]
  then show ?thesis
    using view_frames [OF sw(2)] by (simp add: csr_abs_def view_ctrl_def REG_CTRL_def)
qed

lemma set_auth_tolerance_refines:
  assumes "wf_rf rf" and s: "set_auth_tolerance rf r = Inr rf'"
  shows "csr_abs rf' = (csr_abs rf)
    \<lparr>cfg_tolerance := Inr (fp_div f32 (fp_of_int f32 (uint (to_mrad r))) (fp_lit f32 1000 1))\<rparr>"
proof -
  note sw = single_write [OF assms(1) s [unfolded set_auth_tolerance_def]]
  then show ?thesis
    using view_frames [OF sw(2)] by (simp add: csr_abs_def auth_tolerance_def REG_AUTH_TOLERANCE_def)
qed

lemma set_secret_refines:
  assumes wf: "wf_rf rf" and len: "length bs = 32" and s: "set_secret rf bs = Inr rf'"
  shows "wf_rf rf'" and "csr_abs rf' = (csr_abs rf)\<lparr>cfg_secret := Inr (Some (SharedSecret bs))\<rparr>"
proof -
  let ?f = "\<lambda>i. REG_SECRET_BASE + i * 4"
  have "inj_on ?f (set [0..<SECRET_WORDS])" by (auto simp: inj_on_def)
  then obtain rf1 where rf1: "try_fold (\<lambda>rf i. write_u32 rf (?f i) (secret_word bs i)) rf [0..<SECRET_WORDS] = Inr rf1"
    "wf_rf rf1" "\<forall>i \<in> set [0..<SECRET_WORDS]. read_u32 rf1 (?f i) = Inr (secret_word bs i)"
    "\<forall>b. csr_reg b \<longrightarrow> b \<notin> ?f ` set [0..<SECRET_WORDS] \<longrightarrow> read_u32 rf1 b = read_u32 rf b"
    using csr.write_loop [OF wf, of "[0..<SECRET_WORDS]" ?f "secret_word bs"]
    by (auto simp: csr_reg_def csr_map)
  from s rf1(1) have "write_u32 rf1 REG_SECRET_VALID 1 = Inr rf'" by (simp add: set_secret_def)
  note sw = single_write [OF rf1(2) this]
  show "wf_rf rf'" by (rule sw)
  have "i < SECRET_WORDS \<Longrightarrow> read_u32 rf' (?f i) = Inr (secret_word bs i)" for i
    using sw(2) rf1(3) by (simp add: same_except_def csr_reg_def csr_map)
  from view_shared_secret_words [OF this sw(3)] have "view_shared_secret rf' = Inr (Some (SharedSecret bs))"
    by (simp add: secret_words_concat [OF len])
  moreover have "same_except {0x010..0x030} rf rf'"
    using sw(2) rf1(4) by (auto simp: same_except_def csr_map)
  note fr = view_frames [OF this]
  moreover have "{16..48} \<inter> {64..<128::nat} = {}" "{16..48} \<inter> {256..<512::nat} = {}" by auto
  ultimately show "csr_abs rf' = (csr_abs rf)\<lparr>cfg_secret := Inr (Some (SharedSecret bs))\<rparr>"
    using fr by (simp add: csr_abs_def)
qed

lemma set_schema_payload_refines:
  assumes wf: "wf_rf rf" and i: "valid_schema i" and s: "set_schema_payload rf i p = Inr rf'"
  shows "wf_rf rf'" and "csr_abs rf' = (csr_abs rf)\<lparr>cfg_payload := (schema_payload_bytes rf)(i := Inr p)\<rparr>"
proof -
  note o = payload_off_range [OF i]
  from s i obtain w where r: "read_u32 rf (payload_off i) = Inr w"
    and w: "write_u32 rf (payload_off i) (put_half (unat i) w p) = Inr rf'"
    by (auto simp: set_schema_payload_eq try_bind_eq_Inr)
  note sw = single_write [OF wf w]
  show "wf_rf rf'" by (rule sw)
  have "schema_payload_bytes rf' j = ((schema_payload_bytes rf)(i := Inr p)) j" for j
  proof (cases "valid_schema j \<and> payload_off j = payload_off i")
    case True
    then have "unat j div 2 = unat i div 2" by (simp add: payload_off_def)
    then have "even (unat i) = even (unat j) \<longleftrightarrow> i = j"
      by (metis div_mult_mod_eq parity_cases word_unat_eq_iff)
    with True i sw(3) r show ?thesis by (auto simp: schema_payload_bytes_eq get_put_half)
  next
    case False
    then have "j \<noteq> i" using i by auto
    moreover have "schema_payload_bytes rf' j = schema_payload_bytes rf j"
      using False sw(2) payload_off_range [of j] by (auto simp: same_except_def schema_payload_bytes_eq)
    ultimately show ?thesis by simp
  qed
  then show "csr_abs rf' = (csr_abs rf)\<lparr>cfg_payload := (schema_payload_bytes rf)(i := Inr p)\<rparr>"
    using view_frames [OF sw(2)] o by (auto simp: csr_abs_def)
qed

lemma set_oam_to_schema_refines:
  assumes wf: "wf_rf rf" and m: "wf_oam m" and s: "set_oam_to_schema rf m i = Inr rf'"
  shows "wf_rf rf'" and "csr_abs rf' = (csr_abs rf)\<lparr>cfg_schema := (schema_id_for_oam rf)(m := Inr i)\<rparr>"
proof -
  note o = oam_off_range [OF m]
  from s m obtain w where r: "read_u32 rf (oam_off m) = Inr w"
    and w: "write_u32 rf (oam_off m) (put_byte (oam_idx m mod 4 * 8) w i) = Inr rf'"
    by (auto simp: set_oam_to_schema_eq try_bind_eq_Inr)
  note sw = single_write [OF wf w]
  show "wf_rf rf'" by (rule sw)
  have "schema_id_for_oam rf' n = ((schema_id_for_oam rf)(m := Inr i)) n" for n
  proof (cases "wf_oam n \<and> oam_off n = oam_off m")
    case True
    show ?thesis
    proof (cases "n = m")
      case True
      then show ?thesis using m sw(3) by (simp add: schema_id_for_oam_eq get_put_byte_same)
    next
      case False
      then have "oam_idx n \<noteq> oam_idx m" using oam_idx_inj m True by simp
      moreover have "oam_idx n div 4 = oam_idx m div 4" using True by (simp add: oam_off_def)
      ultimately have "oam_idx n mod 4 \<noteq> oam_idx m mod 4" by (metis div_mult_mod_eq)
      then have "oam_idx n mod 4 * 8 + 8 \<le> oam_idx m mod 4 * 8 \<or> oam_idx m mod 4 * 8 + 8 \<le> oam_idx n mod 4 * 8"
        by linarith
      from get_put_byte_other [OF this] show ?thesis
        using False True m sw(3) r by (simp add: schema_id_for_oam_eq)
    qed
  next
    case False
    then have "n \<noteq> m" using m by auto
    moreover have "schema_id_for_oam rf' n = schema_id_for_oam rf n"
      using False sw(2) oam_off_range [of n] by (auto simp: same_except_def schema_id_for_oam_eq)
    ultimately show ?thesis by simp
  qed
  then show "csr_abs rf' = (csr_abs rf)\<lparr>cfg_schema := (schema_id_for_oam rf)(m := Inr i)\<rparr>"
    using view_frames [OF sw(2)] o by (auto simp: csr_abs_def)
qed

section \<open>Properties\<close>

lemma wf_rf_new [simp]: "wf_rf register_file_new"
  by (simp add: wf_rf_def register_file_new_def)

lemma csr_exec_total:
  assumes "wf_rf rf" and "cmd_typed cmd"
  shows "is_ok (csr_exec rf cmd) \<longleftrightarrow> is_ok (cfg_exec (csr_abs rf) cmd)"
proof -
  note r = csr_reg_def csr_map
  have 1: "is_ok (write_u32 rf a v)" if "csr_reg a" for a v
    using csr.write_ok [OF assms(1) that] by (auto simp: is_ok_iff)
  have "is_ok (set_secret rf bs)" for bs
  proof -
    have "inj_on (\<lambda>i. REG_SECRET_BASE + i * 4) (set [0..<SECRET_WORDS])" by (auto simp: inj_on_def)
    with csr.write_loop [OF assms(1), of "[0..<SECRET_WORDS]" "\<lambda>i. REG_SECRET_BASE + i * 4" "secret_word bs"]
    obtain rf1 where "try_fold (\<lambda>rf i. write_u32 rf (REG_SECRET_BASE + i * 4) (secret_word bs i)) rf [0..<SECRET_WORDS] = Inr rf1"
      "wf_rf rf1" by (auto simp: r)
    then show ?thesis using csr.write_ok [of rf1 REG_SECRET_VALID 1] by (auto simp: set_secret_def is_ok_iff r)
  qed
  then show ?thesis
    using 1 payload_off_range(1) oam_off_range(1)
    by (cases cmd) (auto simp: set_wavelength_def set_ctrl_def set_auth_tolerance_def r
        set_schema_payload_eq set_oam_to_schema_eq read_u32_reg)
qed

lemma csr_exec_error:
  assumes "wf_rf rf" and "cmd_typed cmd" and "csr_exec rf cmd = Inl e"
  shows "cfg_exec (csr_abs rf) cmd = Inl e"
proof -
  have "\<not> is_ok (cfg_exec (csr_abs rf) cmd)" using csr_exec_total [OF assms(1,2)] assms(3) by simp
  then show ?thesis
    using assms(3) by (cases cmd) (auto simp: set_schema_payload_eq set_oam_to_schema_eq split: if_splits)
qed

lemma csr_exec_step:
  assumes "wf_rf rf" and "cmd_typed cmd" and "csr_exec rf cmd = Inr rf'"
  shows "wf_rf rf'" and "cfg_exec (csr_abs rf) cmd = Inr (csr_abs rf')"
proof -
  have ok: "is_ok (cfg_exec (csr_abs rf) cmd)" using csr_exec_total [OF assms(1,2)] assms(3) by simp
  have "wf_rf rf' \<and> cfg_exec (csr_abs rf) cmd = Inr (csr_abs rf')"
  proof (cases cmd)
    case (SetWavelength w)
    then show ?thesis
      using assms set_wavelength_refines single_write(1) by (auto simp: set_wavelength_def)
  next
    case (SetCtrl v)
    then show ?thesis using assms set_ctrl_refines single_write(1) by (auto simp: set_ctrl_def)
  next
    case (SetAuthTolerance r)
    then show ?thesis
      using assms set_auth_tolerance_refines single_write(1) by (auto simp: set_auth_tolerance_def)
  next
    case (SetSecret bs)
    then show ?thesis using assms set_secret_refines by auto
  next
    case (SetSchemaPayload i p)
    then have "valid_schema i" using ok by (auto split: if_splits)
    with SetSchemaPayload show ?thesis
      using assms set_schema_payload_refines by (auto simp: csr_abs_def)
  next
    case (SetOamToSchema m i)
    then have "wf_oam m" using ok by (auto split: if_splits)
    with SetOamToSchema show ?thesis
      using assms set_oam_to_schema_refines by (auto simp: csr_abs_def)
  qed
  then show "wf_rf rf'" "cfg_exec (csr_abs rf) cmd = Inr (csr_abs rf')" by auto
qed

lemma csr_run_refines:
  assumes "wf_rf rf" and "\<forall>cmd \<in> set cmds. cmd_typed cmd"
  shows "map_sum id csr_abs (try_fold csr_exec rf cmds) = try_fold cfg_exec (csr_abs rf) cmds"
  using assms
proof (induction cmds arbitrary: rf)
  case Nil
  then show ?case by simp
next
  case (Cons cmd cmds)
  then have t: "cmd_typed cmd" by simp
  show ?case
  proof (cases "csr_exec rf cmd")
    case (Inl e)
    then show ?thesis using csr_exec_error [OF Cons.prems(1) t Inl] by simp
  next
    case (Inr rf')
    note st = csr_exec_step [OF Cons.prems(1) t Inr]
    then show ?thesis using Cons.IH [OF st(1)] Cons.prems(2) Inr by simp
  qed
qed

text \<open>(C5) The register file implements a configuration record. Any run of typed writes, started
  from any register file, gives through the views exactly what the same run of field updates
  gives on the record, with the same first error if one is rejected: a write changes its own
  field and its own table entry and nothing else.\<close>

theorem csr_refinement:
  assumes "wf_rf rf" and "\<forall>cmd \<in> set cmds. cmd_typed cmd"
  shows "map_sum id csr_abs (try_fold csr_exec rf cmds) = try_fold cfg_exec (csr_abs rf) cmds"
  using assms by (rule csr_run_refines)

theorem csr_refinement_witness:
  "let cmds = [SetWavelength (Wavelength 40), SetSecret (replicate 32 7),
               SetSchemaPayload 2 256, SetSchemaPayload 3 64, SetOamToSchema (OamMode 1) 2]
   in wf_rf register_file_new \<and> (\<forall>cmd \<in> set cmds. cmd_typed cmd)
      \<and> map_sum id csr_abs (try_fold csr_exec register_file_new cmds)
        = try_fold cfg_exec (csr_abs register_file_new) cmds
      \<and> is_ok (try_fold csr_exec register_file_new cmds)"
proof -
  define cmds where "cmds = [SetWavelength (Wavelength 40), SetSecret (replicate 32 7),
               SetSchemaPayload 2 256, SetSchemaPayload 3 64, SetOamToSchema (OamMode 1) 2]"
  have t: "\<forall>cmd \<in> set cmds. cmd_typed cmd" unfolding cmds_def by code_simp
  note r = csr_refinement [OF wf_rf_new t]
  have "is_ok (try_fold cfg_exec (csr_abs register_file_new) cmds)"
    by (simp add: cmds_def valid_schema_def SCHEMA_TABLE_ENTRIES_def wf_oam_def OAM_MIN_def OAM_MAX_def)
  then have "is_ok (try_fold csr_exec register_file_new cmds)"
    unfolding r [symmetric] by (cases "try_fold csr_exec register_file_new cmds") simp_all
  with r t show ?thesis unfolding Let_def cmds_def [symmetric] by simp
qed

end
