(* ===== verification/Queue.thy ===== *)
theory Queue
  imports Prelude
begin

text \<open>
  The contracts of the two queues between application and driver. Both hand out their items in
  the order they came in (\<open>fifo\<close>); the completion queue makes room by dropping the oldest
  item (\<open>evicting_fifo\<close>), the send queue refuses when it is full (\<open>rejecting_fifo\<close>).
\<close>

locale fifo =
  fixes items :: "'q \<Rightarrow> 'a list" and pop :: "'q \<Rightarrow> ('a \<times> 'q) option"
  assumes pop_empty: "items q = [] \<Longrightarrow> pop q = None"
    and pop_cons: "items q = x # xs \<Longrightarrow> \<exists>q'. pop q = Some (x, q') \<and> items q' = xs"
begin

lemma pop_None: "pop q = None \<longleftrightarrow> items q = []"
  using pop_empty pop_cons by (cases "items q") fastforce+

lemma pop_Some: "pop q = Some (x, q') \<Longrightarrow> items q = x # items q'"
  using pop_empty pop_cons by (cases "items q") fastforce+

text \<open>Polling as often as there are items gives them all, in order.\<close>

lemma poll_run:
  "\<exists>q'. ((\<lambda>(out, q). case pop q of None \<Rightarrow> (out, q) | Some (x, q') \<Rightarrow> (out @ [x], q')) ^^ n) (out, q)
     = (out @ take n (items q), q') \<and> items q' = drop n (items q)"
proof (induction n arbitrary: out q)
  case (Suc n)
  show ?case
  proof (cases "items q")
    case Nil
    then show ?thesis using Suc [of out q] by (simp add: pop_empty funpow_Suc_right del: funpow.simps)
  next
    case (Cons x xs)
    then obtain q' where "pop q = Some (x, q')" "items q' = xs" using pop_cons by blast
    then show ?thesis using Suc [of "out @ [x]" q'] Cons by (simp add: funpow_Suc_right del: funpow.simps)
  qed
qed auto

end

locale evicting_fifo = fifo items pop
  for items :: "'q \<Rightarrow> 'a list" and pop +
  fixes cap :: "'q \<Rightarrow> nat" and push :: "'q \<Rightarrow> 'a \<Rightarrow> 'q"
  assumes push_items: "items (push q x) = (if cap q \<le> length (items q) then tl (items q) else items q) @ [x]"
    and push_cap: "cap (push q x) = cap q"
begin

text \<open>A queue of capacity zero still holds one item: the oldest is dropped before the new one
  comes in.\<close>

definition room :: "'q \<Rightarrow> nat" where
  "room q = max 1 (cap q)"

lemma push_window:
  assumes "length (items q) \<le> room q"
  shows "items (push q x) = drop (length (items q) + 1 - room q) (items q @ [x])"
    and "length (items (push q x)) \<le> room (push q x)"
proof -
  have "items (push q x) = drop (length (items q) + 1 - room q) (items q @ [x])"
  proof (cases "cap q \<le> length (items q)")
    case True
    then show ?thesis
      using assms by (cases "items q") (auto simp: push_items room_def max_def not_le le_Suc_eq split: if_splits)
  next
    case False
    then show ?thesis by (simp add: push_items room_def)
  qed
  then show "items (push q x) = drop (length (items q) + 1 - room q) (items q @ [x])"
    "length (items (push q x)) \<le> room (push q x)"
    using assms by (auto simp: room_def push_cap)
qed

text \<open>After any number of pushes the queue holds the most recent items that fit.\<close>

lemma push_run:
  assumes "length (items q) \<le> room q"
  shows "items (fold (\<lambda>x q. push q x) xs q) = drop (length (items q) + length xs - room q) (items q @ xs)"
  using assms
proof (induction xs arbitrary: q)
  case (Cons x xs)
  note w = push_window [OF Cons.prems, of x]
  have r: "room (push q x) = room q" by (simp add: room_def push_cap)
  have l: "length (items (push q x)) = min (length (items q) + 1) (room q)"
    using Cons.prems by (simp add: w(1))
  have "items (fold (\<lambda>x q. push q x) (x # xs) q)
      = drop (length (items (push q x)) + length xs - room q) (items (push q x) @ xs)"
    using Cons.IH [OF w(2)] by (simp add: r)
  also have "items (push q x) @ xs = drop (length (items q) + 1 - room q) ((items q @ [x]) @ xs)"
    unfolding w(1) by (subst drop_append [of _ "items q @ [x]"]) (simp add: room_def)
  also have "drop (length (items (push q x)) + length xs - room q) \<dots>
      = drop (length (items q) + length (x # xs) - room q) (items q @ x # xs)"
  proof -
    have "length (items (push q x)) + length xs - room q + (length (items q) + 1 - room q)
        = length (items q) + length (x # xs) - room q"
      unfolding l using Cons.prems by (auto simp: min_def)
    then show ?thesis unfolding drop_drop by simp
  qed
  finally show ?case .
qed simp

end

locale rejecting_fifo = fifo items pop
  for items :: "'q \<Rightarrow> 'a list" and pop +
  fixes cap :: "'q \<Rightarrow> nat" and post :: "'q \<Rightarrow> 'a \<Rightarrow> 'e + 'q" and ok :: "'a \<Rightarrow> bool"
  assumes post_ok: "ok x \<Longrightarrow> length (items q) < cap q \<Longrightarrow>
      \<exists>q'. post q x = Inr q' \<and> items q' = items q @ [x] \<and> cap q' = cap q"
    and post_refused: "\<not> ok x \<or> cap q \<le> length (items q) \<Longrightarrow> \<not> is_ok (post q x)"
begin

lemma post_Inr:
  "post q x = Inr q' \<Longrightarrow> ok x \<and> length (items q) < cap q \<and> items q' = items q @ [x] \<and> cap q' = cap q"
  using post_ok post_refused by (metis is_ok_simps(2) not_le sum.inject(2))

lemma post_bound: "length (items q) \<le> cap q \<Longrightarrow> post q x = Inr q' \<Longrightarrow> length (items q') \<le> cap q'"
  by (auto dest!: post_Inr)

text \<open>A batch is accepted as a whole exactly when all its items are valid and they fit.\<close>

lemma post_run:
  "is_ok (try_fold post q xs) \<longleftrightarrow>
     (\<forall>x \<in> set xs. ok x) \<and> (xs = [] \<or> length (items q) + length xs \<le> cap q)"
proof (induction xs arbitrary: q)
  case (Cons x xs)
  show ?case
  proof (cases "post q x")
    case (Inl e)
    then have "\<not> (ok x \<and> length (items q) < cap q)" using post_ok by (metis Inl_Inr_False)
    with Inl show ?thesis by auto
  next
    case (Inr q')
    note p = post_Inr [OF Inr]
    with Inr Cons.IH [of q'] show ?thesis by (cases xs) auto
  qed
qed simp

end

end
