(* ===== verification/Obg.thy ===== *)
theory Obg
  imports Codec Csr Queue
begin

text \<open>
  The crate otap-obg: work requests, send and completion queue, and the software driver that is
  configured from the register file, encodes what is queued and decodes what arrives.
\<close>

section \<open>Requests, completions and queues\<close>

datatype obg_error =
    SendQueueFull
  | CompletionQueueEmpty
  | PayloadSize nat nat
  | ObgProtocol protocol_error
  | ObgCsr csr_error
  | NotArmed string

record work_request =
  wr_version :: u8
  wr_schema_id :: schema_id
  wr_wavelength :: wavelength
  wr_payload_len :: u32
  wr_cookie :: u64
  wr_flags :: u32

definition work_request_new :: "schema_id \<Rightarrow> wavelength \<Rightarrow> u32 \<Rightarrow> u64 \<Rightarrow> work_request" where
  "work_request_new sid w len cookie =
     \<lparr>wr_version = 1, wr_schema_id = sid, wr_wavelength = w, wr_payload_len = len, wr_cookie = cookie, wr_flags = 0\<rparr>"

definition wr_validate :: "work_request \<Rightarrow> obg_error + unit" where
  "wr_validate wr =
     (let expected = payload_bytes (wr_schema_id wr)
      in if expected \<noteq> unat (wr_payload_len wr)
         then Inl (ObgProtocol (SchemaMismatch 0 expected (unat (wr_payload_len wr))))
         else Inr ())"

record completion =
  c_value :: any_schema_value
  c_auth_ok :: bool
  c_sequence :: u16
  c_cookie :: u64

record send_queue =
  sq_requests :: "(work_request \<times> bytes) list"
  sq_capacity :: nat

definition send_queue_new :: "nat \<Rightarrow> send_queue" where
  "send_queue_new cap = \<lparr>sq_requests = [], sq_capacity = cap\<rparr>"

definition sq_len :: "send_queue \<Rightarrow> nat" where
  "sq_len q = length (sq_requests q)"

definition sq_is_empty :: "send_queue \<Rightarrow> bool" where
  "sq_is_empty q = (sq_requests q = [])"

definition sq_post :: "send_queue \<Rightarrow> work_request \<Rightarrow> bytes \<Rightarrow> obg_error + send_queue" where
  "sq_post q wr payload =
     try_bind (wr_validate wr) (\<lambda>_.
       if length (sq_requests q) \<ge> sq_capacity q then Inl SendQueueFull
       else Inr (q\<lparr>sq_requests := sq_requests q @ [(wr, payload)]\<rparr>))"

definition sq_pop :: "send_queue \<Rightarrow> ((work_request \<times> bytes) \<times> send_queue) option" where
  "sq_pop q = (case sq_requests q of [] \<Rightarrow> None | x # xs \<Rightarrow> Some (x, q\<lparr>sq_requests := xs\<rparr>))"

record completion_queue =
  cq_completions :: "completion list"
  cq_capacity :: nat

definition completion_queue_new :: "nat \<Rightarrow> completion_queue" where
  "completion_queue_new cap = \<lparr>cq_completions = [], cq_capacity = cap\<rparr>"

definition cq_poll :: "completion_queue \<Rightarrow> (completion \<times> completion_queue) option" where
  "cq_poll q = (case cq_completions q of [] \<Rightarrow> None | x # xs \<Rightarrow> Some (x, q\<lparr>cq_completions := xs\<rparr>))"

definition cq_len :: "completion_queue \<Rightarrow> nat" where
  "cq_len q = length (cq_completions q)"

definition cq_is_empty :: "completion_queue \<Rightarrow> bool" where
  "cq_is_empty q = (cq_completions q = [])"

definition cq_push :: "completion_queue \<Rightarrow> completion \<Rightarrow> completion_queue" where
  "cq_push q c =
     (let q = (if length (cq_completions q) \<ge> cq_capacity q
               then q\<lparr>cq_completions := tl (cq_completions q)\<rparr> else q)
      in q\<lparr>cq_completions := cq_completions q @ [c]\<rparr>)"

section \<open>The driver\<close>

record driver_config =
  dc_wavelength :: wavelength
  dc_auth_mode :: auth_mode

record soft_driver =
  drv_encoder :: encoder
  drv_decoder :: decoder
  drv_config :: driver_config

definition from_csr :: "register_file \<Rightarrow> obg_error + soft_driver" where
  "from_csr rf =
     try_bind (map_err ObgCsr (view_wavelength rf)) (\<lambda>w.
     try_bind (map_err ObgCsr (view_shared_secret rf)) (\<lambda>so.
     try_bind (ok_or so (NotArmed ''shared secret not loaded'')) (\<lambda>secret.
     try_bind (map_err ObgCsr (view_ctrl rf)) (\<lambda>ctrl.
     try_bind (map_err ObgCsr (auth_tolerance rf)) (\<lambda>tolerance.
       let auth_mode = (if ctrl AND CTRL_AUTH_TOPOLOGICAL \<noteq> 0 then Topological
                        else TrajectoryMatch (fp_max tolerance (fp_lit f32 1 10000)))
       in Inr \<lparr>drv_encoder = encoder_new secret w,
               drv_decoder = decoder_new \<lparr>dec_secret = secret, dec_expected_wavelength = w, dec_auth_mode = auth_mode\<rparr>,
               drv_config = \<lparr>dc_wavelength = w, dc_auth_mode = auth_mode\<rparr>\<rparr>)))))"

definition refresh_from_csr :: "soft_driver \<Rightarrow> register_file \<Rightarrow> obg_error + soft_driver" where
  "refresh_from_csr drv rf = from_csr rf"

definition drv_wavelength :: "soft_driver \<Rightarrow> wavelength" where
  "drv_wavelength drv = dc_wavelength (drv_config drv)"

definition oam_for_schema :: "schema_id \<Rightarrow> oam_mode" where
  "oam_for_schema sid = (case sid of SEquityTradeOrder \<Rightarrow> EQ_OAM_MODE
     | SMarketTick \<Rightarrow> MT_OAM_MODE | SHeartbeat \<Rightarrow> HB_OAM_MODE)"

text \<open>The \<open>while let\<close> loop over \<open>pop\<close>.\<close>

function transmit_loop ::
  "hmac_fn \<Rightarrow> soft_driver \<Rightarrow> send_queue \<Rightarrow> (transient \<times> u64) list
   \<Rightarrow> (transient \<times> u64) list \<times> soft_driver \<times> send_queue" where
  "transmit_loop hmac drv q out =
     (case sq_pop q of
        None \<Rightarrow> (out, drv, q)
      | Some ((wr, payload), q') \<Rightarrow>
          let oam = oam_for_schema (wr_schema_id wr);
              (t, e) = encode_raw hmac (drv_encoder drv) oam payload
          in transmit_loop hmac (drv\<lparr>drv_encoder := e\<rparr>) q' (out @ [(t, wr_cookie wr)]))"
  by pat_completeness auto
termination
  by (relation "measure (\<lambda>(_, _, q, _). length (sq_requests q))")
    (auto simp: sq_pop_def split: list.splits)

declare transmit_loop.simps [simp del]

definition transmit_pending ::
  "hmac_fn \<Rightarrow> soft_driver \<Rightarrow> send_queue \<Rightarrow> (transient \<times> u64) list \<times> soft_driver \<times> send_queue" where
  "transmit_pending hmac drv q = transmit_loop hmac drv q []"

definition receive :: "libm \<Rightarrow> hmac_fn \<Rightarrow> soft_driver \<Rightarrow> transient \<Rightarrow> completion_queue \<Rightarrow> completion_queue option" where
  "receive lm hmac drv t cq =
     map_option
       (\<lambda>r. case r of
          Inr rep \<Rightarrow> cq_push cq \<lparr>c_value = rep_value rep, c_auth_ok = rep_auth_ok rep,
                               c_sequence = sequence (rep_micro rep), c_cookie = 0\<rparr>
        | Inl _ \<Rightarrow> cq)
       (decode lm hmac (drv_decoder drv) t)"

definition arm_register_file :: "register_file \<Rightarrow> wavelength \<Rightarrow> bytes \<Rightarrow> bool \<Rightarrow> obg_error + register_file" where
  "arm_register_file rf w secret topological =
     map_err ObgCsr (
     try_bind (set_wavelength rf w) (\<lambda>rf.
     try_bind (set_secret rf secret) (\<lambda>rf.
     let ctrl = CTRL_ENABLE_TX OR CTRL_ENABLE_RX OR (if topological then CTRL_AUTH_TOPOLOGICAL else 0) in
     try_bind (set_ctrl rf ctrl) (\<lambda>rf.
     try_bind (set_auth_tolerance rf (fp_lit f32 1 100)) (\<lambda>rf.
     try_bind (set_schema_payload rf 1 (of_nat EQ_PAYLOAD_BYTES)) (\<lambda>rf.
     try_bind (set_schema_payload rf 2 (of_nat MT_PAYLOAD_BYTES)) (\<lambda>rf.
     try_bind (set_schema_payload rf 3 (of_nat HB_PAYLOAD_BYTES)) (\<lambda>rf.
     try_bind (set_oam_to_schema rf EQ_OAM_MODE 1) (\<lambda>rf.
     try_bind (set_oam_to_schema rf MT_OAM_MODE 2) (\<lambda>rf.
     set_oam_to_schema rf HB_OAM_MODE 3))))))))))"

section \<open>The queues keep their contracts\<close>

interpretation cqi: evicting_fifo cq_completions cq_poll cq_capacity cq_push
  by unfold_locales (auto simp: cq_poll_def cq_push_def Let_def)

interpretation sqi: rejecting_fifo sq_requests sq_pop sq_capacity "\<lambda>q (wr, p). sq_post q wr p"
  "\<lambda>(wr, p). payload_bytes (wr_schema_id wr) = unat (wr_payload_len wr)"
  by unfold_locales (auto simp: sq_pop_def sq_post_def wr_validate_def Let_def split: if_splits)

section \<open>Draining the send queue\<close>

definition queued :: "send_queue \<Rightarrow> (oam_mode \<times> bytes) list" where
  "queued q = map (\<lambda>(wr, p). (oam_for_schema (wr_schema_id wr), p)) (sq_requests q)"

lemma transmit_loop_spec:
  "transmit_loop hmac drv q out =
     (out @ zip (encode_run hmac (drv_encoder drv) (queued q)) (map (wr_cookie \<circ> fst) (sq_requests q)),
      drv\<lparr>drv_encoder := (drv_encoder drv)
            \<lparr>enc_next_sequence := enc_next_sequence (drv_encoder drv) + of_nat (length (sq_requests q))\<rparr>\<rparr>,
      q\<lparr>sq_requests := []\<rparr>)"
proof (induction "sq_requests q" arbitrary: drv q out)
  case Nil
  then have "sq_pop q = None" by (simp add: sq_pop_def)
  with Nil show ?case by (simp add: transmit_loop.simps [of hmac drv q out] queued_def)
next
  case (Cons x xs)
  obtain wr p where x: "x = (wr, p)" by (cases x)
  define q' where "q' = q\<lparr>sq_requests := xs\<rparr>"
  have q: "sq_requests q = (wr, p) # xs" "sq_requests q' = xs"
    using Cons(2) [symmetric] by (simp_all add: x q'_def)
  have pop: "sq_pop q = Some ((wr, p), q')" by (simp add: sq_pop_def q q'_def)
  note ih = Cons(1) [of q' "drv\<lparr>drv_encoder := snd (encode_raw hmac (drv_encoder drv) (oam_for_schema (wr_schema_id wr)) p)\<rparr>"
      "out @ [(fst (encode_raw hmac (drv_encoder drv) (oam_for_schema (wr_schema_id wr)) p), wr_cookie wr)]"]
  show ?case
    unfolding transmit_loop.simps [of hmac drv q out] pop
    using ih q by (simp add: split_beta Let_def queued_def encode_raw_fields q'_def add.assoc)
qed

section \<open>Configuration from the register file\<close>

definition arm_cmds :: "wavelength \<Rightarrow> bytes \<Rightarrow> bool \<Rightarrow> csr_cmd list" where
  "arm_cmds w secret topological =
     [SetWavelength w, SetSecret secret,
      SetCtrl (CTRL_ENABLE_TX OR CTRL_ENABLE_RX OR (if topological then CTRL_AUTH_TOPOLOGICAL else 0)),
      SetAuthTolerance (fp_lit f32 1 100),
      SetSchemaPayload 1 (of_nat EQ_PAYLOAD_BYTES), SetSchemaPayload 2 (of_nat MT_PAYLOAD_BYTES),
      SetSchemaPayload 3 (of_nat HB_PAYLOAD_BYTES),
      SetOamToSchema EQ_OAM_MODE 1, SetOamToSchema MT_OAM_MODE 2, SetOamToSchema HB_OAM_MODE 3]"

lemma try_bind_Inr_right: "try_bind r Inr = r"
  by (cases r) simp_all

lemma arm_eq:
  "arm_register_file rf w secret topo = map_err ObgCsr (try_fold csr_exec rf (arm_cmds w secret topo))"
  by (simp add: arm_register_file_def arm_cmds_def Let_def try_bind_Inr_right)

lemma from_csr_cfg:
  "from_csr rf =
     try_bind (map_err ObgCsr (cfg_wavelength (csr_abs rf))) (\<lambda>w.
     try_bind (map_err ObgCsr (cfg_secret (csr_abs rf))) (\<lambda>so.
     try_bind (ok_or so (NotArmed ''shared secret not loaded'')) (\<lambda>secret.
     try_bind (map_err ObgCsr (cfg_ctrl (csr_abs rf))) (\<lambda>ctrl.
     try_bind (map_err ObgCsr (cfg_tolerance (csr_abs rf))) (\<lambda>tolerance.
       let auth_mode = (if ctrl AND CTRL_AUTH_TOPOLOGICAL \<noteq> 0 then Topological
                        else TrajectoryMatch (fp_max tolerance (fp_lit f32 1 10000)))
       in Inr \<lparr>drv_encoder = encoder_new secret w,
               drv_decoder = decoder_new \<lparr>dec_secret = secret, dec_expected_wavelength = w, dec_auth_mode = auth_mode\<rparr>,
               drv_config = \<lparr>dc_wavelength = w, dc_auth_mode = auth_mode\<rparr>\<rparr>)))))"
  by (simp add: from_csr_def csr_abs_def)

lemma armed_cfg:
  assumes "wf_rf rf" and "wf_wavelength w" and "length secret = 32"
  shows "\<exists>rf'. arm_register_file rf w secret topo = Inr rf' \<and>
    csr_abs rf' = (csr_abs rf)
      \<lparr>cfg_wavelength := Inr w, cfg_secret := Inr (Some (SharedSecret secret)),
       cfg_ctrl := Inr (CTRL_ENABLE_TX OR CTRL_ENABLE_RX OR (if topo then CTRL_AUTH_TOPOLOGICAL else 0)),
       cfg_tolerance := Inr (fp_lit f32 1 100),
       cfg_payload := (schema_payload_bytes rf)(1 := Inr 256, 2 := Inr 64, 3 := Inr 32),
       cfg_schema := (schema_id_for_oam rf)(EQ_OAM_MODE := Inr 1, MT_OAM_MODE := Inr 2, HB_OAM_MODE := Inr 3)\<rparr>"
proof -
  have "\<forall>cmd \<in> set (arm_cmds w secret topo). cmd_typed cmd" using assms by (simp add: arm_cmds_def)
  note r = csr_run_refines [OF assms(1) this]
  have tol: "fp_div f32 (fp_of_int f32 (uint (to_mrad (fp_lit f32 1 100)))) (fp_lit f32 1000 1) = fp_lit f32 1 100"
    by code_simp
  have v: "valid_schema 1" "valid_schema 2" "valid_schema 3"
    "wf_oam EQ_OAM_MODE" "wf_oam MT_OAM_MODE" "wf_oam HB_OAM_MODE"
    by (simp_all add: valid_schema_def SCHEMA_TABLE_ENTRIES_def wf_oam_def OAM_MIN_def OAM_MAX_def)
  show ?thesis
  proof (cases "try_fold csr_exec rf (arm_cmds w secret topo)")
    case (Inl e)
    then show ?thesis using r v by (simp add: arm_cmds_def tol)
  next
    case (Inr rf')
    then show ?thesis using r v by (auto simp: arm_eq arm_cmds_def tol csr_abs_def simp del: oam_modes)
  qed
qed

section \<open>Properties\<close>

text \<open>(C19) Arming and starting a driver: \<open>arm_register_file\<close> succeeds on every register file, the
  driver built from the result has the given secret and wavelength, a sequence counter at zero
  and the chosen authentication mode, with the tolerance of 0.01 unchanged by its passage
  through milliradians. The tables then agree with the schemas: each schema's OAM mode has an
  identifier whose payload size is the schema's.\<close>

theorem arm_then_start:
  assumes "wf_rf rf" and "wf_wavelength w" and "length secret = 32"
  shows "\<exists>rf'. arm_register_file rf w secret topo = Inr rf'
    \<and> from_csr rf' = Inr
        (let mode = (if topo then Topological else TrajectoryMatch (fp_lit f32 1 100))
         in \<lparr>drv_encoder = encoder_new (SharedSecret secret) w,
             drv_decoder = decoder_new \<lparr>dec_secret = SharedSecret secret, dec_expected_wavelength = w, dec_auth_mode = mode\<rparr>,
             drv_config = \<lparr>dc_wavelength = w, dc_auth_mode = mode\<rparr>\<rparr>)
    \<and> (\<forall>sid. \<exists>i. schema_id_for_oam rf' (oam_for_schema sid) = Inr i
          \<and> schema_payload_bytes rf' i = Inr (of_nat (payload_bytes sid)))"
proof -
  obtain rf' where rf': "arm_register_file rf w secret topo = Inr rf'"
    and c: "csr_abs rf' = (csr_abs rf)
      \<lparr>cfg_wavelength := Inr w, cfg_secret := Inr (Some (SharedSecret secret)),
       cfg_ctrl := Inr (CTRL_ENABLE_TX OR CTRL_ENABLE_RX OR (if topo then CTRL_AUTH_TOPOLOGICAL else 0)),
       cfg_tolerance := Inr (fp_lit f32 1 100),
       cfg_payload := (schema_payload_bytes rf)(1 := Inr 256, 2 := Inr 64, 3 := Inr 32),
       cfg_schema := (schema_id_for_oam rf)(EQ_OAM_MODE := Inr 1, MT_OAM_MODE := Inr 2, HB_OAM_MODE := Inr 3)\<rparr>"
    using armed_cfg [OF assms] by blast
  have b: "(CTRL_ENABLE_TX OR CTRL_ENABLE_RX OR CTRL_AUTH_TOPOLOGICAL) AND CTRL_AUTH_TOPOLOGICAL \<noteq> 0"
    "(CTRL_ENABLE_TX OR CTRL_ENABLE_RX OR 0) AND CTRL_AUTH_TOPOLOGICAL = 0"
    "fp_max (fp_lit f32 1 100) (fp_lit f32 1 10000) = fp_lit f32 1 100"
    by code_simp+
  have f: "schema_id_for_oam rf' = cfg_schema (csr_abs rf')" "schema_payload_bytes rf' = cfg_payload (csr_abs rf')"
    by (simp_all add: csr_abs_def)
  have "\<exists>i. schema_id_for_oam rf' (oam_for_schema sid) = Inr i
      \<and> schema_payload_bytes rf' i = Inr (of_nat (payload_bytes sid))" for sid
    unfolding f c by (cases sid) (simp_all add: oam_for_schema_def payload_bytes_def)
  moreover have "from_csr rf' = Inr
        (let mode = (if topo then Topological else TrajectoryMatch (fp_lit f32 1 100))
         in \<lparr>drv_encoder = encoder_new (SharedSecret secret) w,
             drv_decoder = decoder_new \<lparr>dec_secret = SharedSecret secret, dec_expected_wavelength = w, dec_auth_mode = mode\<rparr>,
             drv_config = \<lparr>dc_wavelength = w, dc_auth_mode = mode\<rparr>\<rparr>)"
    unfolding from_csr_cfg c using b by (cases topo) (simp_all add: Let_def)
  ultimately show ?thesis using rf' by blast
qed

theorem arm_then_start_witness:
  "wf_rf register_file_new \<and> wf_wavelength (Wavelength 40) \<and> length (replicate 32 (7 :: u8)) = 32
   \<and> (\<exists>rf' drv. arm_register_file register_file_new (Wavelength 40) (replicate 32 7) True = Inr rf'
        \<and> from_csr rf' = Inr drv \<and> drv_wavelength drv = Wavelength 40)"
proof -
  have w: "wf_wavelength (Wavelength 40)" by code_simp
  have l: "length (replicate 32 (7 :: u8)) = 32" by simp
  from arm_then_start [OF wf_rf_new w l, of True] w show ?thesis
    by (auto simp: drv_wavelength_def Let_def)
qed

text \<open>A register file whose secret was written but whose wavelength never was starts a driver
  all the same, on channel 0: only the missing secret is refused.\<close>

theorem from_csr_unset_wavelength:
  assumes "length secret = 32"
  shows "from_csr register_file_new = Inl (NotArmed ''shared secret not loaded'')
    \<and> (\<exists>rf drv. set_secret register_file_new secret = Inr rf \<and> from_csr rf = Inr drv
         \<and> drv_wavelength drv = Wavelength 0)"
proof -
  have n: "csr_abs register_file_new = (csr_abs register_file_new)
      \<lparr>cfg_wavelength := Inr (Wavelength 0), cfg_ctrl := Inr 0,
       cfg_tolerance := Inr (fp_div f32 (fp_of_int f32 0) (fp_lit f32 1000 1)), cfg_secret := Inr None\<rparr>"
    by (simp add: csr_abs_def view_wavelength_def view_ctrl_def auth_tolerance_def view_shared_secret_def
        secret_valid_def read_u32_reg csr_reg_def csr_map register_file_new_def wavelength_new_def MAX_CHANNEL_def)
  have "\<forall>cmd \<in> set [SetSecret secret]. cmd_typed cmd" using assms by simp
  from csr_run_refines [OF wf_rf_new this]
  obtain rf where rf: "set_secret register_file_new secret = Inr rf"
    and c: "csr_abs rf = (csr_abs register_file_new)\<lparr>cfg_secret := Inr (Some (SharedSecret secret))\<rparr>"
    by (cases "set_secret register_file_new secret") auto
  have "from_csr register_file_new = Inl (NotArmed ''shared secret not loaded'')"
    unfolding from_csr_cfg by (subst n, subst n) simp
  moreover have "\<exists>drv. from_csr rf = Inr drv \<and> drv_wavelength drv = Wavelength 0"
    unfolding from_csr_cfg c by (subst n, subst n, subst n, subst n) (simp add: Let_def drv_wavelength_def)
  ultimately show ?thesis using rf by blast
qed

theorem from_csr_unset_wavelength_witness:
  "length (replicate 32 (7 :: u8)) = 32 \<and> is_ok (set_secret register_file_new (replicate 32 7))"
  using from_csr_unset_wavelength [of "replicate 32 7"] by auto

text \<open>(C20) Draining the send queue: one Transient per request and in the order of posting, encoded
  on the driver's own wavelength at the OAM mode of the request's schema with consecutive
  sequence numbers, each paired with its request's cookie; the queue is left empty and the
  counter advanced by the number of requests. The wavelength field of a request has no
  influence.\<close>

theorem transmit_pending_spec:
  "transmit_pending hmac drv q =
     (zip (encode_run hmac (drv_encoder drv)
             (map (\<lambda>(wr, p). (oam_for_schema (wr_schema_id wr), p)) (sq_requests q)))
        (map (wr_cookie \<circ> fst) (sq_requests q)),
      drv\<lparr>drv_encoder := (drv_encoder drv)
            \<lparr>enc_next_sequence := enc_next_sequence (drv_encoder drv) + of_nat (length (sq_requests q))\<rparr>\<rparr>,
      q\<lparr>sq_requests := []\<rparr>)"
  by (simp add: transmit_pending_def transmit_loop_spec queued_def)

text \<open>The send queue accepts a batch exactly when every descriptor states the size of its
  schema and the batch fits; the payload bytes themselves are never looked at.\<close>

theorem send_queue_batch:
  "is_ok (try_fold (\<lambda>q (wr, p). sq_post q wr p) q xs) \<longleftrightarrow>
     list_all (\<lambda>(wr, p). payload_bytes (wr_schema_id wr) = unat (wr_payload_len wr)) xs
     \<and> (xs = [] \<or> length (sq_requests q) + length xs \<le> sq_capacity q)"
  using sqi.post_run [of q xs] by (simp add: list_all_iff)

text \<open>A completion queue always holds the most recent completions, oldest first: after pushing
  \<open>cs\<close> onto \<open>q\<close> it holds the last \<open>max 1 capacity\<close> items of everything it was given. In
  particular a queue of capacity zero holds one.\<close>

theorem completion_queue_window:
  assumes "length (cq_completions q) \<le> max 1 (cq_capacity q)"
  shows "cq_completions (fold (\<lambda>c q. cq_push q c) cs q)
    = drop (length (cq_completions q) + length cs - max 1 (cq_capacity q)) (cq_completions q @ cs)"
  using cqi.push_run [of q cs] assms by (simp add: cqi.room_def)

theorem completion_queue_window_witness:
  "let c = (\<lambda>n. \<lparr>c_value = VHeartbeat \<lparr>hb_node_id = n, hb_clock_offset_ns = 0, hb_heartbeat_seq = 0, hb_reserved = []\<rparr>,
                  c_auth_ok = True, c_sequence = 0, c_cookie = 0\<rparr>)
   in cq_completions (fold (\<lambda>c q. cq_push q c) [c 1, c 2, c 3] (completion_queue_new 2)) = [c 2, c 3]"
proof -
  define c where "c = (\<lambda>n. \<lparr>c_value = VHeartbeat \<lparr>hb_node_id = n, hb_clock_offset_ns = 0, hb_heartbeat_seq = 0, hb_reserved = []\<rparr>,
                  c_auth_ok = True, c_sequence = 0, c_cookie = 0\<rparr>)"
  from completion_queue_window [of "completion_queue_new 2" "[c 1, c 2, c 3]"]
  show ?thesis unfolding Let_def c_def [symmetric] by (simp add: completion_queue_new_def)
qed

end
