(* ===== verification/Sim.thy ===== *)
theory Sim
  imports Codec
begin

text \<open>
  The crate otap-sim: rotations of the Poincare sphere, the xorshift generator and the fibre
  channel. The identity channel keeps an honest trajectory acceptable; the effect of any channel on
  a Transient is given bit by bit from the numbers of its generator.
\<close>

section \<open>Rotations\<close>

record rotation =
  rot_m :: "fp list list"

abbreviation F0 :: fp where "F0 \<equiv> fp_lit f32 0 1"
abbreviation F1 :: fp where "F1 \<equiv> fp_lit f32 1 1"

definition rot_IDENTITY :: rotation where
  "rot_IDENTITY = \<lparr>rot_m = [[F1, F0, F0], [F0, F1, F0], [F0, F0, F1]]\<rparr>"

definition about_s3 :: "libm \<Rightarrow> fp \<Rightarrow> rotation" where
  "about_s3 lm angle = (let c = cos_f lm angle; s = sin_f lm angle
     in \<lparr>rot_m = [[c, fp_neg s, F0], [s, c, F0], [F0, F0, F1]]\<rparr>)"

definition about_s1 :: "libm \<Rightarrow> fp \<Rightarrow> rotation" where
  "about_s1 lm angle = (let c = cos_f lm angle; s = sin_f lm angle
     in \<lparr>rot_m = [[F1, F0, F0], [F0, c, fp_neg s], [F0, s, c]]\<rparr>)"

definition about_s2 :: "libm \<Rightarrow> fp \<Rightarrow> rotation" where
  "about_s2 lm angle = (let c = cos_f lm angle; s = sin_f lm angle
     in \<lparr>rot_m = [[c, F0, s], [F0, F1, F0], [fp_neg s, F0, c]]\<rparr>)"

text \<open>\<open>Iterator::sum\<close> of \<open>f32\<close> starts from \<open>-0.0\<close>.\<close>

definition f32_sum :: "fp list \<Rightarrow> fp" where
  "f32_sum xs = foldl (fp_add f32) (FNum True 0 (- 149)) xs"

definition rot_then :: "rotation \<Rightarrow> rotation \<Rightarrow> rotation" where
  "rot_then self other = \<lparr>rot_m =
     map (\<lambda>i. map (\<lambda>j. f32_sum (map (\<lambda>k. fp_mul f32 (rot_m other ! i ! k) (rot_m self ! k ! j)) [0..<3]))
               [0..<3]) [0..<3]\<rparr>"

definition rot_row :: "rotation \<Rightarrow> nat \<Rightarrow> stokes \<Rightarrow> fp" where
  "rot_row r i v = dot3 (rot_m r ! i ! 0) (s1 v) (rot_m r ! i ! 1) (s2 v) (rot_m r ! i ! 2) (s3 v)"

definition rot_apply :: "rotation \<Rightarrow> stokes \<Rightarrow> stokes" where
  "rot_apply r v = stokes_new (rot_row r 0 v) (rot_row r 1 v) (rot_row r 2 v)"

section \<open>The generator\<close>

record channel_rng =
  rng_state :: u64

definition rng_new :: "u64 \<Rightarrow> channel_rng" where
  "rng_new seed = \<lparr>rng_state = (if seed = 0 then 0xDEADBEEFCAFEF00D else seed)\<rparr>"

definition xorshift :: "u64 \<Rightarrow> u64" where
  "xorshift x0 =
     (let x = x0 XOR push_bit 13 x0; x = x XOR drop_bit 7 x; x = x XOR push_bit 17 x in x)"

definition next_u64 :: "channel_rng \<Rightarrow> u64 \<times> channel_rng" where
  "next_u64 g = (let x = xorshift (rng_state g) in (x, g\<lparr>rng_state := x\<rparr>))"

text \<open>\<open>n as f32 / u32::MAX as f32\<close>\<close>

definition unit_of :: "u32 \<Rightarrow> fp" where
  "unit_of n = fp_div f32 (fp_of_int f32 (uint n)) (fp_of_int f32 4294967295)"

definition next_unit :: "channel_rng \<Rightarrow> fp \<times> channel_rng" where
  "next_unit g = (let (x, g') = next_u64 g in (unit_of (ucast x), g'))"

definition next_signed_unit :: "channel_rng \<Rightarrow> fp \<times> channel_rng" where
  "next_signed_unit g =
     (let (x, g') = next_u64 g
      in (fp_sub f32 (fp_mul f32 (unit_of (ucast x)) (fp_lit f32 2 1)) (fp_lit f32 1 1), g'))"

section \<open>The channel\<close>

record channel =
  pmd_rotation :: rotation
  bit_error_rate :: fp
  ch_rng :: channel_rng

definition channel_perfect :: channel where
  "channel_perfect = \<lparr>pmd_rotation = rot_IDENTITY, bit_error_rate = fp_lit f64 0 1, ch_rng = rng_new 1\<rparr>"

definition channel_with_pmd :: "rotation \<Rightarrow> channel" where
  "channel_with_pmd r = \<lparr>pmd_rotation = r, bit_error_rate = fp_lit f64 0 1, ch_rng = rng_new 42\<rparr>"

definition channel_random_pmd :: "libm \<Rightarrow> u64 \<Rightarrow> channel" where
  "channel_random_pmd lm seed =
     (let g0 = rng_new seed;
          (u1, g1) = next_signed_unit g0; r1 = about_s1 lm (fp_mul f32 u1 PI32);
          (u2, g2) = next_signed_unit g1; r2 = about_s2 lm (fp_mul f32 u2 PI32);
          (u3, g3) = next_signed_unit g2; r3 = about_s3 lm (fp_mul f32 u3 PI32)
      in \<lparr>pmd_rotation = rot_then (rot_then r1 r2) r3, bit_error_rate = fp_lit f64 0 1, ch_rng = g3\<rparr>)"

fun noisy_bits :: "fp \<Rightarrow> nat list \<Rightarrow> u8 \<Rightarrow> channel_rng \<Rightarrow> u8 \<times> channel_rng" where
  "noisy_bits ber [] b g = (b, g)"
| "noisy_bits ber (i # is) b g =
     (let (u, g') = next_unit g
      in noisy_bits ber is (if fp_lt (fp_cast f64 u) ber then b XOR push_bit i 1 else b) g')"

fun noisy_bytes :: "fp \<Rightarrow> bytes \<Rightarrow> channel_rng \<Rightarrow> bytes \<times> channel_rng" where
  "noisy_bytes ber [] g = ([], g)"
| "noisy_bytes ber (b # bs) g =
     (let (b', g') = noisy_bits ber [0..<8] b g; (bs', g'') = noisy_bytes ber bs g' in (b' # bs', g''))"

definition channel_transmit :: "channel \<Rightarrow> transient \<Rightarrow> transient \<times> channel" where
  "channel_transmit ch t =
     (let new_samples = map (\<lambda>i. rot_apply (pmd_rotation ch) (samples (t_polarization t) ! i)) [0..<TRAJECTORY_SAMPLES];
          t = t\<lparr>t_polarization := trajectory_new new_samples\<rparr>
      in if fp_lt (fp_lit f64 0 1) (bit_error_rate ch)
         then let (payload, g) = noisy_bytes (bit_error_rate ch) (t_payload t) (ch_rng ch)
              in (t\<lparr>t_payload := payload\<rparr>, ch\<lparr>ch_rng := g\<rparr>)
         else (t, ch))"

section \<open>The generator never stalls\<close>

lemma xor_push_zero: "0 < k \<Longrightarrow> x XOR push_bit k x = 0 \<Longrightarrow> x = (0 :: 'a::len word)"
proof -
  assume k: "0 < k" and "x XOR push_bit k x = 0"
  then have b: "bit x n \<longleftrightarrow> bit (push_bit k x) n" for n by (metis bit_0_eq bit_xor_iff bot_apply bot_bool_def)
  have "\<not> bit x n" for n
  proof (induction n rule: less_induct)
    case (less n)
    show ?case using b [of n] less [of "n - k"] k by (auto simp: bit_simps)
  qed
  then show "x = 0" by (intro bit_word_eqI) simp
qed

lemma xor_drop_zero: "0 < k \<Longrightarrow> x XOR drop_bit k x = 0 \<Longrightarrow> x = (0 :: 'a::len word)"
proof -
  assume k: "0 < k" and "x XOR drop_bit k x = 0"
  then have b: "bit x n \<longleftrightarrow> bit x (k + n)" for n
    by (metis bit_0_eq bit_drop_bit_eq bit_xor_iff bot_apply bot_bool_def comp_apply)
  have "bit x n \<Longrightarrow> bit x (n + m * k)" for n m
  proof (induction m)
    case (Suc m)
    then have "bit x (k + (n + m * k))" using b [of "n + m * k"] by blast
    then show ?case by (simp add: ac_simps)
  qed simp
  moreover have "\<not> bit x (n + LENGTH('a) * k)" for n
  proof -
    have "LENGTH('a) * 1 \<le> LENGTH('a) * k" using k by (intro mult_le_mono2) simp
    then have "LENGTH('a) \<le> n + LENGTH('a) * k" by linarith
    then show ?thesis by (meson bit_imp_le_length not_le)
  qed
  ultimately show "x = 0" by (intro bit_word_eqI) auto
qed

lemma xorshift_nonzero: "x \<noteq> 0 \<Longrightarrow> xorshift x \<noteq> 0"
  using xor_push_zero [of 13 x] xor_drop_zero [of 7 "x XOR push_bit 13 x"]
    xor_push_zero [of 17 "(x XOR push_bit 13 x) XOR drop_bit 7 (x XOR push_bit 13 x)"]
  by (auto simp: xorshift_def Let_def)

section \<open>The channel keeps the other dimensions\<close>

lemma length_noisy_bytes: "length (fst (noisy_bytes ber bs g)) = length bs"
  by (induction bs arbitrary: g) (auto simp: split_beta Let_def)

lemma transmit_fields:
  "t_wavelength (fst (channel_transmit ch t)) = t_wavelength t"
  "t_oam (fst (channel_transmit ch t)) = t_oam t"
  "t_micro (fst (channel_transmit ch t)) = t_micro t"
  "length (t_payload (fst (channel_transmit ch t))) = length (t_payload t)"
  "wf_trajectory (t_polarization (fst (channel_transmit ch t)))"
  "pmd_rotation (snd (channel_transmit ch t)) = pmd_rotation ch"
  "bit_error_rate (snd (channel_transmit ch t)) = bit_error_rate ch"
  by (simp_all add: channel_transmit_def Let_def split_beta length_noisy_bytes wf_trajectory_def trajectory_new_def)

lemma transmit_clean:
  assumes "\<not> fp_lt (fp_lit f64 0 1) (bit_error_rate ch)"
  shows "snd (channel_transmit ch t) = ch"
    and "t_payload (fst (channel_transmit ch t)) = t_payload t"
  using assms by (simp_all add: channel_transmit_def Let_def)

lemma transmit_sample:
  "i < TRAJECTORY_SAMPLES \<Longrightarrow>
   samples (t_polarization (fst (channel_transmit ch t))) ! i
     = rot_apply (pmd_rotation ch) (samples (t_polarization t) ! i)"
  by (simp add: channel_transmit_def Let_def split_beta trajectory_new_def)

section \<open>The identity rotation\<close>

lemma F0_val: "is_fin F0" "fval F0 = 0" and F1_val: "is_fin F1" "fval F1 = 1"
proof -
  have "F0 = FNum False 0 (- 149)" by code_simp
  then show "is_fin F0" "fval F0 = 0" by (simp_all only: is_fin.simps fval.simps) (simp_all add: sg_def)
  show "is_fin F1" "fval F1 = 1" by (simp_all add: fp_lit_ones sg_def power_int_minus)
qed

lemma mul_zero: "is_fin a \<Longrightarrow> is_fin b \<Longrightarrow> fval a = 0 \<Longrightarrow> is_fin (fp_mul f32 a b) \<and> fval (fp_mul f32 a b) = 0"
proof -
  assume "is_fin a" "is_fin b" "fval a = 0"
  then obtain s1 m1 e1 s2 m2 e2 where ab: "a = FNum s1 m1 e1" "b = FNum s2 m2 e2" by (auto elim!: is_finE)
  with \<open>fval a = 0\<close> have "m1 = 0" by (simp add: sg_def split: if_splits)
  then show ?thesis by (simp add: ab fp_round_def sg_def)
qed

lemma near_mul_one:
  assumes "near k x a" "k \<le> 190" "mid x"
  shows "near (k + 3) x (fp_mul f32 F1 a)"
proof -
  have "near 0 1 F1" using near_exact [of F1] F1_val by simp
  from near_mul [OF this assms(1)] assms show ?thesis by (simp add: ac_simps)
qed

lemma identity_near_dir:
  assumes "near_dir k v x y z" and k: "0 \<le> k" "k \<le> 50"
  shows "near_dir (36 + 3 * k) (rot_apply rot_IDENTITY v) x y z"
proof -
  have n: "near k x (s1 v)" "near k y (s2 v)" "near k z (s3 v)" "rng 16 1 x" "rng 16 1 y" "rng 16 1 z"
    and u: "x * x + y * y + z * z = 1" using assms by (auto simp: near_dir_def)
  have m: "mid x" "mid y" "mid z" using n by (auto intro: rng_mid)
  have z0: "is_fin (fp_mul f32 F0 w) \<and> fval (fp_mul f32 F0 w) = 0" if "is_fin w" for w
    using mul_zero [OF F0_val(1) that F0_val(2)] .
  note zs = z0 [OF near_fin [OF n(1)]] z0 [OF near_fin [OF n(2)]] z0 [OF near_fin [OF n(3)]]
  have zz: "is_fin (fp_add f32 a b) \<and> fval (fp_add f32 a b) = 0"
    if "is_fin a" "fval a = 0" "is_fin b" "fval b = 0" for a b
    using fp_add_approx [of f32 a b] that by (simp add: approx_def in_range_def)
  have row: "near (k + 7) w (fp_add f32 (fp_add f32 a b) c)"
    if "near (k + 3) w a \<and> is_fin b \<and> fval b = 0 \<and> is_fin c \<and> fval c = 0
      \<or> near (k + 3) w b \<and> is_fin a \<and> fval a = 0 \<and> is_fin c \<and> fval c = 0
      \<or> near (k + 3) w c \<and> is_fin a \<and> fval a = 0 \<and> is_fin b \<and> fval b = 0" "mid w" for a b c w
  proof -
    from that consider "near (k + 3 + 2) w (fp_add f32 a b)" "is_fin c" "fval c = 0"
      | "near (k + 3) w c" "is_fin (fp_add f32 a b)" "fval (fp_add f32 a b) = 0"
      using near_add_zero [of "k + 3" w] zz [of a b] k by auto
    then show ?thesis
    proof cases
      case 1
      from near_add_zero(1) [OF 1(1,2,3)] k that(2) show ?thesis by (simp add: ac_simps)
    next
      case 2
      from near_add_zero(2) [OF 2] k that(2) have "near (k + 3 + 2) w (fp_add f32 (fp_add f32 a b) c)" by simp
      then show ?thesis by (rule near_mono) simp
    qed
  qed
  have r: "near (k + 7) x (rot_row rot_IDENTITY 0 v)" "near (k + 7) y (rot_row rot_IDENTITY 1 v)"
    "near (k + 7) z (rot_row rot_IDENTITY 2 v)"
    unfolding rot_row_def rot_IDENTITY_def dot3_def
    using zs near_mul_one [OF n(1)] near_mul_one [OF n(2)] near_mul_one [OF n(3)] m k
    by (auto intro!: row)
  have "norm3 x y z = 1" using u by (simp add: norm3_def)
  moreover have "x \<noteq> 0 \<or> y \<noteq> 0 \<or> z \<noteq> 0" using u by auto
  ultimately show ?thesis
    using stokes_new_near [OF _ _ r n(4,5,6)] k n u by (simp add: near_dir_def rot_apply_def)
qed

lemma identity_zero:
  "rot_apply rot_IDENTITY (stokes_from_bytes (replicate 6 0)) = stokes_from_bytes (replicate 6 0)"
  by code_simp

section \<open>Properties\<close>

definition next_state :: "channel_rng \<Rightarrow> channel_rng" where
  "next_state g = snd (next_u64 g)"

text \<open>The generator never reaches the all-zero state, in which it would return zeros for ever,
  whatever the seed and however many numbers are drawn.\<close>

theorem rng_never_zero:
  "rng_state ((next_state ^^ n) (rng_new seed)) \<noteq> 0"
proof (induction n)
  case 0
  then show ?case by (simp add: rng_new_def)
next
  case (Suc n)
  then show ?case by (simp add: next_state_def next_u64_def Let_def xorshift_nonzero)
qed

lemma perfect_match:
  assumes "acos_accurate lm" and "hmac_len hmac"
    and tol: "is_fin tol" "9 / 1024 \<le> fval tol" "fval tol \<le> 1 / 2"
    and t: "t_polarization t = derive_trajectory hmac secret ctx"
    and r: "pmd_rotation ch = rot_IDENTITY"
  shows "verify_trajectory lm hmac secret ctx (t_polarization (fst (channel_transmit ch t))) (TrajectoryMatch tol)
    = Some (if directed hmac secret ctx then Inr () else Inl AuthenticationFailure)"
proof -
  let ?d = "derive_trajectory hmac secret ctx"
  let ?o = "t_polarization (fst (channel_transmit ch t))"
  have o: "samples ?o ! i = rot_apply rot_IDENTITY (samples ?d ! i)" if "i < TRAJECTORY_SAMPLES" for i
    using transmit_sample [OF that, of ch t] by (simp add: r t)
  have "match_samples lm tol ?d ?o [0..<TRAJECTORY_SAMPLES] = Inr ()" if d: "directed hmac secret ctx"
  proof -
    have "\<not> fp_lt tol (angular_distance lm (samples ?d ! i) (samples ?o ! i))" if i: "i < TRAJECTORY_SAMPLES" for i
    proof -
      obtain x y z where n: "near_dir 18 (samples ?d ! i) x y z"
        using derived_sample_near [OF assms(2) d i] by auto
      from identity_near_dir [OF this] have "near_dir 90 (samples ?o ! i) x y z" by (simp add: o [OF i])
      from near_dir_distance [OF assms(1) _ _ _ n this tol(1,2)] show ?thesis by simp
    qed
    then show ?thesis by (simp add: match_samples_ok)
  qed
  moreover have "match_samples lm tol ?d ?o [0..<TRAJECTORY_SAMPLES] = Inl AuthenticationFailure" if "\<not> directed hmac secret ctx"
  proof -
    from that obtain i where i: "i < TRAJECTORY_SAMPLES" "zero_sample (sample_block hmac secret ctx i)"
      by (auto simp: directed_def)
    then have "samples ?d ! i = stokes_from_bytes (replicate 6 0)"
      by (simp add: derived_sample zero_sample_def)
    moreover from this have "samples ?o ! i = samples ?d ! i" using o [OF i(1)] identity_zero by simp
    ultimately have "fp_lt tol (angular_distance lm (samples ?d ! i) (samples ?o ! i))"
      using zero_distance [OF assms(1) _ tol(1,3)] by simp
    then show ?thesis
      using i(1) match_samples_ok [of lm tol ?d ?o "[0..<TRAJECTORY_SAMPLES]"]
        match_samples_cases [of lm tol ?d ?o "[0..<TRAJECTORY_SAMPLES]"] by auto
  qed
  ultimately show ?thesis by (simp add: verify_trajectory_def)
qed

section \<open>What a channel does to a Transient\<close>

text \<open>Whether the \<open>n\<close>-th number drawn from the generator is below the error rate.\<close>

definition draw_below :: "fp \<Rightarrow> channel_rng \<Rightarrow> nat \<Rightarrow> bool" where
  "draw_below ber g n \<longleftrightarrow> fp_lt (fp_cast f64 (unit_of (ucast ((xorshift ^^ Suc n) (rng_state g))))) ber"

lemma draw_below_later:
  "draw_below ber (g\<lparr>rng_state := (xorshift ^^ m) (rng_state g)\<rparr>) n = draw_below ber g (m + n)"
proof -
  have "(xorshift ^^ Suc n) ((xorshift ^^ m) (rng_state g)) = (xorshift ^^ Suc (m + n)) (rng_state g)"
    using funpow_add [of "Suc n" m xorshift] by (simp add: add.commute)
  then show ?thesis by (simp add: draw_below_def)
qed

lemma noisy_bits_step:
  assumes "i < n"
  shows "noisy_bits ber [i..<n] b g =
    noisy_bits ber [Suc i..<n] (if draw_below ber g 0 then b XOR push_bit i 1 else b) (g\<lparr>rng_state := xorshift (rng_state g)\<rparr>)"
  by (subst upt_conv_Cons [OF assms]) (simp add: next_unit_def next_u64_def Let_def draw_below_def)

lemma noisy_bits_effect:
  assumes "i \<le> n" and "n \<le> 8"
  shows "snd (noisy_bits ber [i..<n] b g) = g\<lparr>rng_state := (xorshift ^^ (n - i)) (rng_state g)\<rparr>
    \<and> (\<forall>j. bit (fst (noisy_bits ber [i..<n] b g)) j \<longleftrightarrow> (bit b j \<noteq> (i \<le> j \<and> j < n \<and> draw_below ber g (j - i))))"
  using assms(1)
proof (induction "n - i" arbitrary: i b g)
  case (Suc d)
  let ?g = "g\<lparr>rng_state := xorshift (rng_state g)\<rparr>" and ?b = "if draw_below ber g 0 then b XOR push_bit i 1 else b"
  have i: "i < n" using Suc.hyps(2) by simp
  have d: "draw_below ber ?g k = draw_below ber g (Suc k)" for k using draw_below_later [of ber 1 g k] by simp
  have n: "n - i = Suc (n - Suc i)" using i by simp
  have IH: "snd (noisy_bits ber [Suc i..<n] ?b ?g) = ?g\<lparr>rng_state := (xorshift ^^ (n - Suc i)) (rng_state ?g)\<rparr>"
    "bit (fst (noisy_bits ber [Suc i..<n] ?b ?g)) j \<longleftrightarrow> (bit ?b j \<noteq> (Suc i \<le> j \<and> j < n \<and> draw_below ber ?g (j - Suc i)))" for j
    using Suc.hyps(1) [of "Suc i" ?b ?g] Suc.hyps(2) i by simp_all
  have bb: "bit ?b j \<longleftrightarrow> (bit b j \<noteq> (j = i \<and> draw_below ber g 0))" for j
    using i assms(2) by (auto simp: bit_simps)
  have "(bit ?b j \<noteq> (Suc i \<le> j \<and> j < n \<and> draw_below ber ?g (j - Suc i)))
      = (bit b j \<noteq> (i \<le> j \<and> j < n \<and> draw_below ber g (j - i)))" for j
    unfolding bb d using i by (cases "j = i") (auto simp: Suc_diff_Suc)
  then show ?case unfolding noisy_bits_step [OF i] IH n by (simp add: funpow_swap1)
qed simp

lemma noisy_bytes_effect:
  "snd (noisy_bytes ber bs g) = g\<lparr>rng_state := (xorshift ^^ (8 * length bs)) (rng_state g)\<rparr>
   \<and> (\<forall>k < length bs. \<forall>j < 8. bit (fst (noisy_bytes ber bs g) ! k) j \<longleftrightarrow> (bit (bs ! k) j \<noteq> draw_below ber g (8 * k + j)))"
proof (induction bs arbitrary: g)
  case (Cons b bs)
  let ?g = "g\<lparr>rng_state := (xorshift ^^ 8) (rng_state g)\<rparr>"
  note B = noisy_bits_effect [of 0 8 ber b g, simplified]
  have s: "noisy_bytes ber (b # bs) g = (fst (noisy_bits ber [0..<8] b g) # fst (noisy_bytes ber bs ?g), snd (noisy_bytes ber bs ?g))"
    using B by (simp add: split_beta Let_def)
  have p: "(xorshift ^^ (8 * length bs)) ((xorshift ^^ 8) x) = (xorshift ^^ (8 * length (b # bs))) x" for x
    using funpow_add [of "8 * length bs" 8 xorshift] by (simp add: add.commute)
  show ?case
  proof (intro conjI allI impI)
    show "snd (noisy_bytes ber (b # bs) g) = g\<lparr>rng_state := (xorshift ^^ (8 * length (b # bs))) (rng_state g)\<rparr>"
      using Cons.IH [of ?g] p [of "rng_state g"] unfolding s by simp
    fix k j :: nat assume "k < length (b # bs)" "j < 8"
    then show "bit (fst (noisy_bytes ber (b # bs) g) ! k) j = (bit ((b # bs) ! k) j \<noteq> draw_below ber g (8 * k + j))"
      using Cons.IH [of ?g] B draw_below_later [of ber 8 g] unfolding s by (cases k) (auto simp: add.assoc)
  qed
qed simp

text \<open>(C27) The effect of a channel on a Transient, bit by bit. Each of the sixteen samples is turned by the
  rotation of the fibre. Bit \<open>j\<close> of payload byte \<open>k\<close> is flipped exactly when the error rate is
  positive and number \<open>8 * k + j\<close> drawn from the generator is below it: bytes in order, least
  significant bit first, one number for each bit. The wavelength, the OAM mode, the sequence number
  and guard and the payload length stay; the generator has advanced by eight steps for each byte,
  or not at all without a positive rate, so that the next Transient meets the following numbers.\<close>

theorem channel_effect:
  "let (t', ch') = channel_transmit ch t; noisy = fp_lt (fp_lit f64 0 1) (bit_error_rate ch) in
   t_wavelength t' = t_wavelength t \<and> t_oam t' = t_oam t \<and> t_micro t' = t_micro t
   \<and> length (samples (t_polarization t')) = TRAJECTORY_SAMPLES
   \<and> (\<forall>i < TRAJECTORY_SAMPLES. samples (t_polarization t') ! i = rot_apply (pmd_rotation ch) (samples (t_polarization t) ! i))
   \<and> length (t_payload t') = length (t_payload t)
   \<and> (\<forall>k < length (t_payload t). \<forall>j < 8. bit (t_payload t' ! k) j \<longleftrightarrow>
        (bit (t_payload t ! k) j \<noteq> (noisy \<and> draw_below (bit_error_rate ch) (ch_rng ch) (8 * k + j))))
   \<and> ch' = ch\<lparr>ch_rng := \<lparr>rng_state = (xorshift ^^ (if noisy then 8 * length (t_payload t) else 0)) (rng_state (ch_rng ch))\<rparr>\<rparr>"
proof (cases "fp_lt (fp_lit f64 0 1) (bit_error_rate ch)")
  case True
  let ?n = "noisy_bytes (bit_error_rate ch) (t_payload t) (ch_rng ch)"
  have e: "t_payload (fst (channel_transmit ch t)) = fst ?n" "snd (channel_transmit ch t) = ch\<lparr>ch_rng := snd ?n\<rparr>"
    using True by (simp_all add: channel_transmit_def Let_def split_beta)
  show ?thesis
    using True noisy_bytes_effect [of "bit_error_rate ch" "t_payload t" "ch_rng ch"]
    by (simp add: split_beta Let_def e transmit_fields transmit_sample length_noisy_bytes
        transmit_fields(5) [unfolded wf_trajectory_def])
next
  case False
  then show ?thesis
    by (simp add: split_beta Let_def transmit_fields transmit_clean transmit_sample
        transmit_fields(5) [unfolded wf_trajectory_def])
qed

theorem channel_effect_witness:
  "let ch = channel_perfect\<lparr>bit_error_rate := fp_lit f64 1 2\<rparr>;
       t = transient_new (Wavelength 40) \<lparr>samples = replicate 16 stokes_H\<rparr> (OamMode 1) (micro_new 0) [0]
   in bit (t_payload (fst (channel_transmit ch t)) ! 0) 0 \<and> rng_state (ch_rng (snd (channel_transmit ch t))) = (xorshift ^^ 8) 1"
proof -
  define ch where "ch = channel_perfect\<lparr>bit_error_rate := fp_lit f64 1 2\<rparr>"
  define t where "t = transient_new (Wavelength 40) \<lparr>samples = replicate 16 stokes_H\<rparr> (OamMode 1) (micro_new 0) [0]"
  have n: "fp_lt (fp_lit f64 0 1) (bit_error_rate ch)" unfolding ch_def by code_simp
  have d: "draw_below (bit_error_rate ch) (ch_rng ch) 0" unfolding ch_def by code_simp
  have p: "t_payload t = [0]" "rng_state (ch_rng ch) = 1" by (simp_all add: t_def transient_new_def ch_def channel_perfect_def rng_new_def)
  show ?thesis using channel_effect [of ch t] n d
    unfolding Let_def ch_def [symmetric] t_def [symmetric] by (auto simp: split_beta p)
qed
section \<open>Rotations change the winding number\<close>

text \<open>What the math library returns at the points used below: the half turn, and the four axes.\<close>

definition half_turn_values :: "libm \<Rightarrow> bool" where
  "half_turn_values lm \<longleftrightarrow>
     cos_f lm PI32 = fp_lit f32 (- 1) 1
     \<and> sin_f lm PI32 = fp_lit f32 (- 8742278) (10 ^ 14)
     \<and> atan2_f lm F0 F1 = F0 \<and> atan2_f lm F1 F0 = FNum False 13176795 (- 23)
     \<and> atan2_f lm F0 (fp_lit f32 (- 1) 1) = PI32
     \<and> atan2_f lm (fp_lit f32 (- 1) 1) F0 = FNum True 13176795 (- 23)"

definition stokes_A :: stokes where
  "stokes_A = \<lparr>s1 = F0, s2 = fp_lit f32 (- 1) 1, s3 = F0\<rparr>"

text \<open>Four turns around the equator.\<close>

definition circle :: trajectory where
  "circle = trajectory_new (concat (replicate 4 [stokes_H, stokes_D, stokes_V, stokes_A]))"

text \<open>The winding number from the sixteen angles alone.\<close>

fun sum_incs :: "fp list \<Rightarrow> fp \<Rightarrow> nat list \<Rightarrow> fp option" where
  "sum_incs th acc [] = Some acc"
| "sum_incs th acc (i # is) =
     Option.bind (wrap_angle (fp_sub f32 (th ! ((i + 1) mod TRAJECTORY_SAMPLES)) (th ! i)))
       (\<lambda>d. sum_incs th (fp_add f32 acc d) is)"

definition angles :: "libm \<Rightarrow> trajectory \<Rightarrow> fp list" where
  "angles lm t = map (\<lambda>v. atan2_f lm (s2 v) (s1 v)) (samples t)"

lemma sum_angles_incs:
  assumes "wf_trajectory t" and "set is \<subseteq> {..<TRAJECTORY_SAMPLES}"
  shows "sum_angles lm (samples t) acc is = sum_incs (angles lm t) acc is"
  using assms(2)
proof (induction "is" arbitrary: acc)
  case (Cons i js)
  then have "i < length (samples t)" "(i + 1) mod TRAJECTORY_SAMPLES < length (samples t)"
    using assms(1) by (simp_all add: wf_trajectory_def TRAJECTORY_SAMPLES_def)
  then show ?case using Cons by (simp add: Let_def angles_def)
qed simp

lemma winding_of_angles:
  assumes "wf_trajectory t"
  shows "winding_number_s3 lm t =
    map_option (\<lambda>total. fp_to_i32 (fp_round_away f32 (fp_div f32 total TWO_PI32)))
      (sum_incs (angles lm t) F0 [0..<TRAJECTORY_SAMPLES])"
  using sum_angles_incs [OF assms, of "[0..<TRAJECTORY_SAMPLES]" lm] by (simp add: winding_number_s3_def lessThan_atLeast0)

text \<open>The winding number is not invariant under the rotations the channel models. The
  trajectory that circles the equator four times winds 4 times; after a fibre that turns the
  sphere by half a turn about \<open>s1\<close> it winds -4 times.\<close>

theorem winding_not_invariant:
  assumes h: "half_turn_values lm" and t: "t_polarization t = circle"
  shows "winding_number_s3 lm (t_polarization t) = Some 4
    \<and> winding_number_s3 lm (t_polarization (fst (channel_transmit (channel_with_pmd (about_s1 lm PI32)) t))) = Some (- 4)"
proof -
  let ?r = "about_s1 lm PI32"
  let ?o = "t_polarization (fst (channel_transmit (channel_with_pmd ?r) t))"
  define R where "R = \<lparr>rot_m = [[F1, F0, F0], [F0, fp_lit f32 (- 1) 1, fp_neg (fp_lit f32 (- 8742278) (10 ^ 14))],
    [F0, fp_lit f32 (- 8742278) (10 ^ 14), fp_lit f32 (- 1) 1]]\<rparr>"
  have r: "?r = R" using h by (simp add: about_s1_def half_turn_values_def R_def Let_def)
  have c: "wf_trajectory circle" by code_simp
  have a: "angles lm circle = concat (replicate 4 [F0, FNum False 13176795 (- 23), PI32, FNum True 13176795 (- 23)])"
    using h by (simp add: angles_def circle_def trajectory_new_def half_turn_values_def stokes_H_def stokes_D_def
        stokes_V_def stokes_A_def map_concat map_replicate numeral_eq_Suc)
  have w: "wf_trajectory ?o" by (simp add: transmit_fields)
  have "samples ?o = map (rot_apply R) (samples circle)"
    using c by (intro nth_equalityI) (use w in \<open>simp_all add: transmit_sample wf_trajectory_def channel_with_pmd_def r t\<close>)
  moreover have "map (\<lambda>v. (s2 v, s1 v)) (map (rot_apply R) [stokes_H, stokes_D, stokes_V, stokes_A]) =
     [(F0, F1), (fp_lit f32 (- 1) 1, F0), (F0, fp_lit f32 (- 1) 1), (F1, F0)]"
    unfolding R_def by code_simp
  then have "map (\<lambda>v. (s2 v, s1 v)) (map (rot_apply R) (samples circle)) =
     concat (replicate 4 [(F0, F1), (fp_lit f32 (- 1) 1, F0), (F0, fp_lit f32 (- 1) 1), (F1, F0)])"
    unfolding circle_def trajectory_new_def by (simp add: map_concat map_replicate comp_def)
  ultimately have "map (\<lambda>v. (s2 v, s1 v)) (samples ?o) =
     concat (replicate 4 [(F0, F1), (fp_lit f32 (- 1) 1, F0), (F0, fp_lit f32 (- 1) 1), (F1, F0)])" by simp
  then have "map (\<lambda>(y, x). atan2_f lm y x) (map (\<lambda>v. (s2 v, s1 v)) (samples ?o)) =
     map (\<lambda>(y, x). atan2_f lm y x) (concat (replicate 4 [(F0, F1), (fp_lit f32 (- 1) 1, F0), (F0, fp_lit f32 (- 1) 1), (F1, F0)]))"
    by (rule arg_cong)
  then have b: "angles lm ?o = concat (replicate 4 [F0, FNum True 13176795 (- 23), PI32, FNum False 13176795 (- 23)])"
    using h by (simp add: angles_def half_turn_values_def map_concat map_replicate comp_def numeral_eq_Suc)
  have "map_option (\<lambda>total. fp_to_i32 (fp_round_away f32 (fp_div f32 total TWO_PI32)))
      (sum_incs (concat (replicate 4 [F0, FNum False 13176795 (- 23), PI32, FNum True 13176795 (- 23)])) F0 [0..<TRAJECTORY_SAMPLES]) = Some 4"
    by code_simp
  moreover have "map_option (\<lambda>total. fp_to_i32 (fp_round_away f32 (fp_div f32 total TWO_PI32)))
      (sum_incs (concat (replicate 4 [F0, FNum True 13176795 (- 23), PI32, FNum False 13176795 (- 23)])) F0 [0..<TRAJECTORY_SAMPLES]) = Some (- 4)"
    by code_simp
  ultimately show ?thesis using winding_of_angles [OF c, of lm] winding_of_angles [OF w, of lm] by (simp add: a b t)
qed

theorem winding_not_invariant_witness:
  "let lm = \<lparr>acos_f = (\<lambda>x. F0),
         atan2_f = (\<lambda>y x. if y = F0 then if x = F1 then F0 else PI32
                          else if y = F1 then FNum False 13176795 (- 23) else FNum True 13176795 (- 23)),
         sin_f = (\<lambda>x. fp_lit f32 (- 8742278) (10 ^ 14)), cos_f = (\<lambda>x. fp_lit f32 (- 1) 1)\<rparr>;
       t = transient_new (Wavelength 40) circle (OamMode 4) (micro_new 0) []
   in half_turn_values lm
      \<and> winding_number_s3 lm (t_polarization t) = Some 4
      \<and> winding_number_s3 lm (t_polarization (fst (channel_transmit (channel_with_pmd (about_s1 lm PI32)) t))) = Some (- 4)"
proof -
  define lm where "lm = \<lparr>acos_f = (\<lambda>x. F0),
         atan2_f = (\<lambda>y x. if y = F0 then if x = F1 then F0 else PI32
                          else if y = F1 then FNum False 13176795 (- 23) else FNum True 13176795 (- 23)),
         sin_f = (\<lambda>x. fp_lit f32 (- 8742278) (10 ^ 14)), cos_f = (\<lambda>x. fp_lit f32 (- 1) 1)\<rparr>"
  define t where "t = transient_new (Wavelength 40) circle (OamMode 4) (micro_new 0) []"
  have h: "half_turn_values lm" unfolding lm_def by code_simp
  have "t_polarization t = circle" by (simp add: t_def transient_new_def)
  from winding_not_invariant [OF h this] h show ?thesis unfolding Let_def lm_def t_def by simp
qed

end
