(* ===== verification/Fabric.thy ===== *)
theory Fabric
  imports Obg Sim
begin

text \<open>
  The crate otap-fabric: two drivers joined by a channel in each direction. The main result
  follows a batch of requests from the send queue of one end through the channel to the
  completion queue of the other.
\<close>

section \<open>Pumping\<close>

record fabric =
  a_to_b :: channel
  b_to_a :: channel

definition fabric_new :: "channel \<Rightarrow> channel \<Rightarrow> fabric" where
  "fabric_new ab ba = \<lparr>a_to_b = ab, b_to_a = ba\<rparr>"

definition fabric_perfect :: fabric where
  "fabric_perfect = fabric_new channel_perfect channel_perfect"

definition fabric_random_pmd :: "libm \<Rightarrow> u64 \<Rightarrow> u64 \<Rightarrow> fabric" where
  "fabric_random_pmd lm seed_ab seed_ba = fabric_new (channel_random_pmd lm seed_ab) (channel_random_pmd lm seed_ba)"

text \<open>The \<open>for\<close> loop of a pump: channel, then the peer's \<open>receive\<close>.\<close>

fun deliver :: "libm \<Rightarrow> hmac_fn \<Rightarrow> soft_driver \<Rightarrow> (transient \<times> u64) list \<Rightarrow> channel \<Rightarrow> completion_queue
    \<Rightarrow> (channel \<times> completion_queue) option" where
  "deliver lm hmac drv [] ch cq = Some (ch, cq)"
| "deliver lm hmac drv ((t, cookie) # outgoing) ch cq =
     (let (post_channel, ch') = channel_transmit ch t
      in Option.bind (receive lm hmac drv post_channel cq) (deliver lm hmac drv outgoing ch'))"

definition pump_a_to_b ::
  "libm \<Rightarrow> hmac_fn \<Rightarrow> fabric \<Rightarrow> soft_driver \<Rightarrow> send_queue \<Rightarrow> soft_driver \<Rightarrow> completion_queue
   \<Rightarrow> (nat \<times> fabric \<times> soft_driver \<times> send_queue \<times> completion_queue) option" where
  "pump_a_to_b lm hmac fab a_driver a_send b_driver b_cq =
     (let (outgoing, a_driver, a_send) = transmit_pending hmac a_driver a_send; n = length outgoing
      in map_option (\<lambda>(ch, cq). (n, fab\<lparr>a_to_b := ch\<rparr>, a_driver, a_send, cq))
           (deliver lm hmac b_driver outgoing (a_to_b fab) b_cq))"

definition pump_b_to_a ::
  "libm \<Rightarrow> hmac_fn \<Rightarrow> fabric \<Rightarrow> soft_driver \<Rightarrow> send_queue \<Rightarrow> soft_driver \<Rightarrow> completion_queue
   \<Rightarrow> (nat \<times> fabric \<times> soft_driver \<times> send_queue \<times> completion_queue) option" where
  "pump_b_to_a lm hmac fab b_driver b_send a_driver a_cq =
     (let (outgoing, b_driver, b_send) = transmit_pending hmac b_driver b_send; n = length outgoing
      in map_option (\<lambda>(ch, cq). (n, fab\<lparr>b_to_a := ch\<rparr>, b_driver, b_send, cq))
           (deliver lm hmac a_driver outgoing (b_to_a fab) a_cq))"

record endpoint =
  ep_driver :: soft_driver
  ep_send :: send_queue
  ep_cq :: completion_queue

definition pump_both ::
  "libm \<Rightarrow> hmac_fn \<Rightarrow> fabric \<Rightarrow> endpoint \<Rightarrow> endpoint \<Rightarrow> ((nat \<times> nat) \<times> fabric \<times> endpoint \<times> endpoint) option" where
  "pump_both lm hmac fab a b =
     Option.bind (pump_a_to_b lm hmac fab (ep_driver a) (ep_send a) (ep_driver b) (ep_cq b))
       (\<lambda>(ab, fab, a_driver, a_send, b_cq).
     map_option
       (\<lambda>(ba, fab, b_driver, b_send, a_cq).
          ((ab, ba), fab, \<lparr>ep_driver = a_driver, ep_send = a_send, ep_cq = a_cq\<rparr>,
           \<lparr>ep_driver = b_driver, ep_send = b_send, ep_cq = b_cq\<rparr>))
       (pump_b_to_a lm hmac fab (ep_driver b) (ep_send b) a_driver (ep_cq a)))"

section \<open>Delivery of one Transient\<close>

text \<open>A link that works: both ends share secret and wavelength, the receiver compares samples with
  a usable tolerance and the fibre is clean.\<close>

definition clean_link :: "encoder \<Rightarrow> soft_driver \<Rightarrow> channel \<Rightarrow> bool" where
  "clean_link e drv ch \<longleftrightarrow>
     dec_secret (config (drv_decoder drv)) = enc_secret e
     \<and> dec_expected_wavelength (config (drv_decoder drv)) = enc_wavelength e
     \<and> (case dec_auth_mode (config (drv_decoder drv)) of
          TrajectoryMatch tol \<Rightarrow> is_fin tol \<and> 9 / 1024 \<le> fval tol \<and> fval tol \<le> 1 / 2
        | Topological \<Rightarrow> False)
     \<and> pmd_rotation ch = rot_IDENTITY \<and> \<not> fp_lt (fp_lit f64 0 1) (bit_error_rate ch)"

definition completion_of :: "hmac_fn \<Rightarrow> shared_secret \<Rightarrow> any_schema_value \<Rightarrow> transient \<Rightarrow> completion" where
  "completion_of hmac s v t =
     \<lparr>c_value = v, c_auth_ok = directed hmac s (transient_ctx t), c_sequence = sequence (t_micro t), c_cookie = 0\<rparr>"

lemma receive_clean:
  assumes lm: "acos_accurate lm" "hmac_len hmac" and link: "clean_link e drv ch"
    and t: "t_polarization t = derive_trajectory hmac (enc_secret e) (transient_ctx t)"
      "t_wavelength t = enc_wavelength e" "any_decode (t_oam t) (t_payload t) = Inr v"
  shows "receive lm hmac drv (fst (channel_transmit ch t)) cq = Some (cq_push cq (completion_of hmac (enc_secret e) v t))"
    and "snd (channel_transmit ch t) = ch"
proof -
  from link obtain tol where m: "dec_auth_mode (config (drv_decoder drv)) = TrajectoryMatch tol"
    and tol: "is_fin tol" "9 / 1024 \<le> fval tol" "fval tol \<le> 1 / 2"
    and l: "dec_secret (config (drv_decoder drv)) = enc_secret e"
      "dec_expected_wavelength (config (drv_decoder drv)) = enc_wavelength e"
      "pmd_rotation ch = rot_IDENTITY" "\<not> fp_lt (fp_lit f64 0 1) (bit_error_rate ch)"
    by (auto simp: clean_link_def split: auth_mode.splits)
  note f = transmit_fields [of ch t] transmit_clean [OF l(4), of t]
  have "verify_trajectory lm hmac (enc_secret e) (transient_ctx t) (t_polarization (fst (channel_transmit ch t))) (TrajectoryMatch tol)
      = Some (if directed hmac (enc_secret e) (transient_ctx t) then Inr () else Inl AuthenticationFailure)"
    using lm tol t(1) l(3) by (rule perfect_match)
  then show "receive lm hmac drv (fst (channel_transmit ch t)) cq = Some (cq_push cq (completion_of hmac (enc_secret e) v t))"
    using f t l m by (simp add: receive_def decode_def Let_def transient_ctx_def completion_of_def)
  show "snd (channel_transmit ch t) = ch" by (rule f)
qed

lemma deliver_clean:
  assumes "\<And>t c cq. (t, c) \<in> set out \<Longrightarrow>
      receive lm hmac drv (fst (channel_transmit ch t)) cq = Some (cq_push cq (g t)) \<and> snd (channel_transmit ch t) = ch"
  shows "deliver lm hmac drv out ch cq = Some (ch, fold (\<lambda>c q. cq_push q c) (map (g \<circ> fst) out) cq)"
  using assms
proof (induction out arbitrary: cq)
  case (Cons x xs)
  obtain t c where x: "x = (t, c)" by (cases x)
  have "receive lm hmac drv (fst (channel_transmit ch t)) cq = Some (cq_push cq (g t))" "snd (channel_transmit ch t) = ch"
    using Cons.prems [of t c] by (simp_all add: x)
  moreover have "deliver lm hmac drv xs ch (cq_push cq (g t))
      = Some (ch, fold (\<lambda>c q. cq_push q c) (map (g \<circ> fst) xs) (cq_push cq (g t)))"
    by (rule Cons.IH, rule Cons.prems, erule list.set_intros(2))
  ultimately show ?case by (simp add: x split_beta comp_def)
qed simp

section \<open>Properties\<close>

text \<open>The context of the \<open>i\<close>-th value of a batch, and the completion it arrives as.\<close>

definition batch_ctx :: "encoder \<Rightarrow> any_schema_value list \<Rightarrow> nat \<Rightarrow> trajectory_context" where
  "batch_ctx e vs i = \<lparr>ctx_wavelength = enc_wavelength e, ctx_oam = any_oam (vs ! i),
     ctx_sequence = enc_next_sequence e + of_nat i, ctx_payload = any_encode (vs ! i)\<rparr>"

definition batch_completion :: "hmac_fn \<Rightarrow> encoder \<Rightarrow> any_schema_value list \<Rightarrow> nat \<Rightarrow> completion" where
  "batch_completion hmac e vs i =
     \<lparr>c_value = vs ! i, c_auth_ok = directed hmac (enc_secret e) (batch_ctx e vs i),
      c_sequence = enc_next_sequence e + of_nat i, c_cookie = 0\<rparr>"

lemma encode_run_batch:
  assumes "i < length vs" and "t = encode_run hmac e (map (\<lambda>v. (any_oam v, any_encode v)) vs) ! i"
  shows "t_polarization t = derive_trajectory hmac (enc_secret e) (transient_ctx t)"
    and "t_wavelength t = enc_wavelength e" and "t_oam t = any_oam (vs ! i)" and "t_payload t = any_encode (vs ! i)"
    and "transient_ctx t = batch_ctx e vs i" and "sequence (t_micro t) = enc_next_sequence e + of_nat i"
  using assms(1) by (simp_all add: assms(2) encode_run_nth encode_raw_fields transient_ctx_def batch_ctx_def micro_new_def)

lemma deliver_batch:
  assumes lm: "acos_accurate lm" "hmac_len hmac" and link: "clean_link e drv ch"
    and vs: "\<forall>v \<in> set vs. wf_any v" and cs: "length cs = length vs"
  shows "deliver lm hmac drv (zip (encode_run hmac e (map (\<lambda>v. (any_oam v, any_encode v)) vs)) cs) ch cq
    = Some (ch, fold (\<lambda>c q. cq_push q c) (map (batch_completion hmac e vs) [0..<length vs]) cq)"
proof -
  define ts where "ts = encode_run hmac e (map (\<lambda>v. (any_oam v, any_encode v)) vs)"
  define g where "g t = completion_of hmac (enc_secret e) (projr (any_decode (t_oam t) (t_payload t))) t" for t
  have l: "length ts = length vs" by (simp add: ts_def)
  note b = encode_run_batch [OF _ refl, of _ vs hmac e, folded ts_def]
  have dec: "any_decode (t_oam (ts ! i)) (t_payload (ts ! i)) = Inr (vs ! i)" if "i < length vs" for i
    using that vs by (simp add: b any_decode_encode)
  have "deliver lm hmac drv (zip ts cs) ch cq = Some (ch, fold (\<lambda>c q. cq_push q c) (map (g \<circ> fst) (zip ts cs)) cq)"
  proof (rule deliver_clean)
    fix t c cq assume "(t, c) \<in> set (zip ts cs)"
    then obtain i where i: "i < length vs" "t = ts ! i" using l by (auto simp: set_zip)
    show "receive lm hmac drv (fst (channel_transmit ch t)) cq = Some (cq_push cq (g t)) \<and> snd (channel_transmit ch t) = ch"
      using receive_clean [OF lm link b(1,2) [OF i(1)] dec [OF i(1)]] by (simp add: g_def i dec)
  qed
  moreover have "map (g \<circ> fst) (zip ts cs) = map (batch_completion hmac e vs) [0..<length vs]"
    using l cs by (intro nth_equalityI) (simp_all add: g_def completion_of_def batch_completion_def b any_decode_encode vs)
  ultimately show ?thesis by (simp add: ts_def)
qed

text \<open>(C1) End to end over a clean link. Valid requests queued at one end come out at the other: one
  pump empties the send queue, and the peer's completion queue receives every value, equal to
  what was encoded, in the order of posting and with consecutive sequence numbers. The
  authentication verdict is positive for every Transient none of whose samples is derived from
  six zero bytes. If the queue is too small, exactly the oldest completions are lost. The
  count returned is the number sent.\<close>

theorem clean_link_delivery:
  assumes "acos_accurate lm" and "hmac_len hmac" and "clean_link (drv_encoder a) b (a_to_b fab)"
    and "\<forall>v \<in> set vs. wf_any v" and "length wrs = length vs"
    and "sq_requests q = zip wrs (map any_encode vs)"
    and "\<forall>i < length vs. oam_for_schema (wr_schema_id (wrs ! i)) = any_oam (vs ! i)"
    and "length (cq_completions cq) \<le> max 1 (cq_capacity cq)"
  shows "\<exists>a' q' cq'. pump_a_to_b lm hmac fab a q b cq = Some (length vs, fab, a', q', cq')
    \<and> sq_requests q' = []
    \<and> cq_completions cq' =
        drop (length (cq_completions cq) + length vs - max 1 (cq_capacity cq))
          (cq_completions cq @ map (batch_completion hmac (drv_encoder a) vs) [0..<length vs])"
proof -
  have ps: "map (\<lambda>(wr, p). (oam_for_schema (wr_schema_id wr), p)) (sq_requests q) = map (\<lambda>v. (any_oam v, any_encode v)) vs"
    using assms(5,7) unfolding assms(6) by (intro nth_equalityI) simp_all
  have n: "length (sq_requests q) = length vs" using assms(5,6) by simp
  have d: "deliver lm hmac b (zip (encode_run hmac (drv_encoder a) (map (\<lambda>v. (any_oam v, any_encode v)) vs))
      (map (wr_cookie \<circ> fst) (sq_requests q))) (a_to_b fab) cq
    = Some (a_to_b fab, fold (\<lambda>c q. cq_push q c) (map (batch_completion hmac (drv_encoder a) vs) [0..<length vs]) cq)"
    using assms(1-4) n by (intro deliver_batch) simp_all
  have w: "cq_completions (fold (\<lambda>c q. cq_push q c) (map (batch_completion hmac (drv_encoder a) vs) [0..<length vs]) cq)
      = drop (length (cq_completions cq) + length vs - max 1 (cq_capacity cq))
          (cq_completions cq @ map (batch_completion hmac (drv_encoder a) vs) [0..<length vs])"
    using cqi.push_run [of cq "map (batch_completion hmac (drv_encoder a) vs) [0..<length vs]"] assms(8)
    by (simp add: cqi.room_def)
  show ?thesis
    using d n w by (simp add: pump_a_to_b_def transmit_pending_def transmit_loop_spec queued_def ps)
qed

theorem clean_link_delivery_witness:
  "let hmac = (\<lambda>k m. replicate 32 7); s = SharedSecret (replicate 32 1); w = Wavelength 40;
       mode = TrajectoryMatch (fp_lit f32 1 100);
       drv = \<lparr>drv_encoder = encoder_new s w,
              drv_decoder = decoder_new \<lparr>dec_secret = s, dec_expected_wavelength = w, dec_auth_mode = mode\<rparr>,
              drv_config = \<lparr>dc_wavelength = w, dc_auth_mode = mode\<rparr>\<rparr>;
       v = VHeartbeat \<lparr>hb_node_id = 5, hb_clock_offset_ns = 0, hb_heartbeat_seq = 1, hb_reserved = replicate 8 0\<rparr>;
       q = \<lparr>sq_requests = [(work_request_new SHeartbeat w 32 9, any_encode v)], sq_capacity = 4\<rparr>
   in clean_link (drv_encoder drv) drv (a_to_b fabric_perfect)
      \<and> (\<exists>a' q' cq'. pump_a_to_b sample_libm hmac fabric_perfect drv q drv (completion_queue_new 4)
            = Some (1, fabric_perfect, a', q', cq')
          \<and> cq_completions cq' = [\<lparr>c_value = v, c_auth_ok = True, c_sequence = 0, c_cookie = 0\<rparr>])"
proof -
  define hmac :: hmac_fn where "hmac = (\<lambda>k m. replicate 32 7)"
  define s where "s = SharedSecret (replicate 32 1)"
  define w where "w = Wavelength 40"
  define mode where "mode = TrajectoryMatch (fp_lit f32 1 100)"
  define drv where "drv = \<lparr>drv_encoder = encoder_new s w,
              drv_decoder = decoder_new \<lparr>dec_secret = s, dec_expected_wavelength = w, dec_auth_mode = mode\<rparr>,
              drv_config = \<lparr>dc_wavelength = w, dc_auth_mode = mode\<rparr>\<rparr>"
  define v where "v = VHeartbeat \<lparr>hb_node_id = 5, hb_clock_offset_ns = 0, hb_heartbeat_seq = 1, hb_reserved = replicate 8 0\<rparr>"
  define wr where "wr = work_request_new SHeartbeat w 32 9"
  define q where "q = \<lparr>sq_requests = [(wr, any_encode v)], sq_capacity = 4\<rparr>"
  have "fp_lit f32 1 100 = FNum False 10737418 (- 30)" "\<not> fp_lt (fp_lit f64 0 1) (fp_lit f64 0 1)" by code_simp+
  then have link: "clean_link (drv_encoder drv) drv (a_to_b fabric_perfect)"
    by (simp add: clean_link_def drv_def encoder_new_def decoder_new_def mode_def fabric_perfect_def
        fabric_new_def channel_perfect_def sg_def power_int_minus del: fp_lt.simps)
  have l: "hmac_len hmac" by (simp add: hmac_len_def hmac_def)
  have d: "directed hmac s ctx" for ctx
    by (simp add: directed_def sample_block_def hmac_def zero_sample_def sub_slice_def)
  have "\<exists>a' q' cq'. pump_a_to_b sample_libm hmac fabric_perfect drv q drv (completion_queue_new 4)
       = Some (length [v], fabric_perfect, a', q', cq') \<and> sq_requests q' = []
    \<and> cq_completions cq' = drop (length (cq_completions (completion_queue_new 4)) + length [v]
          - max 1 (cq_capacity (completion_queue_new 4)))
          (cq_completions (completion_queue_new 4) @ map (batch_completion hmac (drv_encoder drv) [v]) [0..<length [v]])"
    by (rule clean_link_delivery [OF sample_libm_accurate l link, of "[v]" "[wr]"])
      (simp_all add: v_def wf_heartbeat_def wr_def q_def work_request_new_def oam_for_schema_def completion_queue_new_def)
  then have "\<exists>a' q' cq'. pump_a_to_b sample_libm hmac fabric_perfect drv q drv (completion_queue_new 4)
            = Some (1, fabric_perfect, a', q', cq')
          \<and> cq_completions cq' = [\<lparr>c_value = v, c_auth_ok = True, c_sequence = 0, c_cookie = 0\<rparr>]"
    by (fastforce simp: completion_queue_new_def batch_completion_def drv_def encoder_new_def d)
  with link show ?thesis
    unfolding Let_def hmac_def s_def w_def mode_def drv_def v_def q_def wr_def by blast
qed

end
