(* ===== verification/Strings.thy ===== *)
theory Strings
  imports Prelude
begin

text \<open>
  Strings of the registry and its client. A Rust or Go string is its sequence of Unicode scalar
  values; the order of these sequences is the byte order of their UTF-8 encodings. The lemmas
  show that decimal output determines the number.
\<close>

type_synonym ustring = "u32 list"

definition ulit :: "string \<Rightarrow> ustring" where
  "ulit s = map (\<lambda>c. of_nat (of_char c)) s"

fun show_nat :: "nat \<Rightarrow> ustring" where
  "show_nat n = (if n < 10 then [of_nat (48 + n)] else show_nat (n div 10) @ [of_nat (48 + n mod 10)])"

declare show_nat.simps [simp del]

definition show_int :: "int \<Rightarrow> ustring" where
  "show_int i = (if i < 0 then 45 # show_nat (nat (- i)) else show_nat (nat i))"

definition show_i32 :: "i32 \<Rightarrow> ustring" where
  "show_i32 i = show_int (sint i)"

text \<open>The conversion \<open>[]byte(s)\<close>.\<close>

definition utf8_char :: "u32 \<Rightarrow> bytes" where
  "utf8_char c =
     (let n = unat c in
      if n < 128 then [of_nat n]
      else if n < 2048 then [of_nat (192 + n div 64), of_nat (128 + n mod 64)]
      else if n < 65536 then [of_nat (224 + n div 4096), of_nat (128 + n div 64 mod 64), of_nat (128 + n mod 64)]
      else [of_nat (240 + n div 262144), of_nat (128 + n div 4096 mod 64), of_nat (128 + n div 64 mod 64), of_nat (128 + n mod 64)])"

definition utf8 :: "ustring \<Rightarrow> bytes" where
  "utf8 s = concat (map utf8_char s)"

section \<open>Decimal output\<close>

definition is_digit :: "u32 \<Rightarrow> bool" where
  "is_digit c \<longleftrightarrow> 48 \<le> c \<and> c \<le> 57"

lemma unat_digit: "d < 10 \<Longrightarrow> unat (of_nat (48 + d) :: u32) = 48 + d"
  by (simp only: unat_of_nat) simp

lemma digit_inj:
  assumes "c < 10" and "d < 10" and "(of_nat (48 + c) :: u32) = of_nat (48 + d)"
  shows "c = d"
proof -
  have "48 + c = 48 + d" using arg_cong [OF assms(3), of unat] assms(1,2) by (simp only: unat_digit)
  then show ?thesis by simp
qed

lemma digit_is_digit: "d < 10 \<Longrightarrow> is_digit (of_nat (48 + d))"
  unfolding is_digit_def word_le_nat_alt by (simp only: unat_digit) simp

lemma show_nat_digits: "list_all is_digit (show_nat n)"
  by (induction n rule: show_nat.induct) (subst show_nat.simps, simp add: digit_is_digit del: of_nat_add)

lemma show_nat_nonempty [simp]: "show_nat n \<noteq> []"
  by (subst show_nat.simps) simp

lemma show_nat_single: "length (show_nat n) = 1 \<longleftrightarrow> n < 10"
  by (subst show_nat.simps) simp

lemma show_nat_inj: "show_nat m = show_nat n \<longleftrightarrow> m = n"
proof (induction m arbitrary: n rule: show_nat.induct)
  case (1 m)
  show ?case
  proof
    assume e: "show_nat m = show_nat n"
    then have s: "m < 10 \<longleftrightarrow> n < 10" by (metis show_nat_single)
    show "m = n"
    proof (cases "m < 10")
      case True
      with e s show ?thesis by (subst (asm) (1 2) show_nat.simps) (auto dest: digit_inj simp del: of_nat_add)
    next
      case False
      with e s have "show_nat (m div 10) = show_nat (n div 10)" "(of_nat (48 + m mod 10) :: u32) = of_nat (48 + n mod 10)"
        by (subst (asm) (1 2) show_nat.simps, simp del: of_nat_add)+
      then have "m div 10 = n div 10" "m mod 10 = n mod 10"
        using 1 [OF False, of "n div 10"] digit_inj [of "m mod 10" "n mod 10"] by (blast, simp)
      then show ?thesis by (metis div_mult_mod_eq)
    qed
  qed simp
qed

lemma show_int_inj: "show_int i = show_int j \<longleftrightarrow> i = j"
proof -
  have "show_nat n \<noteq> 45 # xs" for n xs
    using show_nat_digits [of n] by (auto simp: is_digit_def)
  then show ?thesis by (auto simp: show_int_def show_nat_inj split: if_splits dest: sym)
qed

end
