(* ===== verification/FlrClient.thy ===== *)
theory FlrClient
  imports Obg Strings
begin

text \<open>
  The registry client of otap-flr-client/src/lib.rs: the REST calls, the mapping of registry
  schemas to local ones, and the programming of a register file from a registry listing. The
  HTTP client and the JSON parser are third-party packages and arguments here: \<open>env_get\<close> is
  the response to a request (a transport error, or a status and the body or an error reading
  it), \<open>env_list\<close> and \<open>env_schema\<close> parse a body. \<open>program_register_file\<close> mutates the register file also when it fails, so it
  returns the file next to the result.
\<close>

section \<open>Errors and data types\<close>

datatype flr_error =
    FlrHttp ustring
  | FlrJson ustring
  | BadResponse u16 ustring
  | NoActiveSchema ustring i32
  | FlrCsr csr_error
  | FlrHex ustring
  | UnknownSchema i32

datatype field_type = FUnspecified | FU8 | FU16 | FU32 | FU64 | FI8 | FI16 | FI32 | FI64 | FF32 | FF64
  | FAscii | FBytes | FEnumU8

record field_def =
  fd_name :: ustring
  fd_offset :: i32
  fd_length :: i32
  fd_type_code :: i32
  fd_description :: ustring

record field_layout =
  fl_fields :: "field_def list"

datatype schema_status = UNSPECIFIED | ACTIVE | DEPRECATED | REVOKED

record application_schema =
  as_id :: ustring
  as_oam_mode :: i32
  as_payload_bytes :: i32
  as_name :: ustring
  as_version :: i32
  as_layout :: field_layout
  as_operator_id :: ustring
  as_status :: "schema_status option"
  as_created_at :: ustring
  as_updated_at :: ustring
  as_signature :: "ustring option"

section \<open>Local schemas\<close>

definition map_oam_to_schema_id :: "i32 \<Rightarrow> schema_id option" where
  "map_oam_to_schema_id oam =
     (if oam = scast (charge EQ_OAM_MODE) then Some SEquityTradeOrder
      else if oam = scast (charge MT_OAM_MODE) then Some SMarketTick
      else if oam = scast (charge HB_OAM_MODE) then Some SHeartbeat
      else None)"

fun csr_handle_for_schema_id :: "schema_id \<Rightarrow> u8" where
  "csr_handle_for_schema_id SEquityTradeOrder = 1"
| "csr_handle_for_schema_id SMarketTick = 2"
| "csr_handle_for_schema_id SHeartbeat = 3"

section \<open>URLs\<close>

definition hex_digit :: "nat \<Rightarrow> u32" where
  "hex_digit d = (if d < 10 then of_nat (48 + d) else of_nat (55 + d))"

fun show_hex :: "nat \<Rightarrow> ustring" where
  "show_hex n = (if n < 16 then [hex_digit n] else show_hex (n div 16) @ [hex_digit (n mod 16)])"

declare show_hex.simps [simp del]

definition unreserved :: "u32 \<Rightarrow> bool" where
  "unreserved c \<longleftrightarrow> 97 \<le> c \<and> c \<le> 122 \<or> 65 \<le> c \<and> c \<le> 90 \<or> 48 \<le> c \<and> c \<le> 57 \<or> c \<in> {45, 95, 46, 126}"

definition urlencode_char :: "u32 \<Rightarrow> ustring" where
  "urlencode_char c =
     (if unreserved c then [c]
      else 37 # (let h = show_hex (unat c) in replicate (2 - length h) 48 @ h))"

definition urlencode :: "ustring \<Rightarrow> ustring" where
  "urlencode s = concat (map urlencode_char s)"

definition trim_slashes :: "ustring \<Rightarrow> ustring" where
  "trim_slashes s = rev (dropWhile (\<lambda>c. c = 47) (rev s))"

section \<open>Requests\<close>

record flr_client_config =
  fc_base_url :: ustring
  fc_operator_id :: ustring
  fc_request_timeout :: nat
  fc_refresh_interval :: nat

definition flr_config_local :: "ustring \<Rightarrow> flr_client_config" where
  "flr_config_local operator_id = \<lparr>fc_base_url = ulit ''http://localhost:8080'', fc_operator_id = operator_id,
     fc_request_timeout = 5, fc_refresh_interval = 15\<rparr>"

record flr_env =
  env_get :: "ustring \<Rightarrow> ustring + u16 \<times> (ustring + ustring)"
  env_list :: "ustring \<Rightarrow> ustring + application_schema list"
  env_schema :: "ustring \<Rightarrow> ustring + application_schema"

definition is_success :: "u16 \<Rightarrow> bool" where
  "is_success status \<longleftrightarrow> 200 \<le> status \<and> status < 300"

definition list_active_schemas :: "flr_env \<Rightarrow> flr_client_config \<Rightarrow> flr_error + application_schema list" where
  "list_active_schemas env cfg =
     (let url = trim_slashes (fc_base_url cfg) @ ulit ''/v1/schemas?operator_id='' @ urlencode (fc_operator_id cfg)
                  @ ulit ''&status=ACTIVE'' in
      try_bind (map_err FlrHttp (env_get env url)) (\<lambda>(status, text).
      try_bind (map_err FlrHttp text) (\<lambda>body.
      if \<not> is_success status then Inl (BadResponse status body)
      else map_err FlrJson (env_list env body))))"

definition get_schema :: "flr_env \<Rightarrow> flr_client_config \<Rightarrow> ustring \<Rightarrow> flr_error + application_schema" where
  "get_schema env cfg i =
     (let url = trim_slashes (fc_base_url cfg) @ ulit ''/v1/schemas/'' @ urlencode i in
      try_bind (map_err FlrHttp (env_get env url)) (\<lambda>(status, text).
      try_bind (map_err FlrHttp text) (\<lambda>body.
      if \<not> is_success status then Inl (BadResponse status body)
      else map_err FlrJson (env_schema env body))))"

definition get_active_schema_for_oam ::
  "flr_env \<Rightarrow> flr_client_config \<Rightarrow> ustring \<Rightarrow> i32 \<Rightarrow> flr_error + application_schema" where
  "get_active_schema_for_oam env cfg operator oam =
     (let url = trim_slashes (fc_base_url cfg) @ ulit ''/v1/schemas/active/'' @ urlencode operator
                  @ ulit ''/'' @ show_i32 oam in
      try_bind (map_err FlrHttp (env_get env url)) (\<lambda>(status, text).
      try_bind (map_err FlrHttp text) (\<lambda>body.
      if status = 404 then Inl (NoActiveSchema operator oam)
      else if \<not> is_success status then Inl (BadResponse status body)
      else map_err FlrJson (env_schema env body))))"

section \<open>Programming a register file\<close>

definition rf_try :: "csr_error + register_file \<Rightarrow> register_file \<Rightarrow>
    (register_file \<Rightarrow> (flr_error + 'a) \<times> register_file) \<Rightarrow> (flr_error + 'a) \<times> register_file" where
  "rf_try r rf k = (case r of Inl e \<Rightarrow> (Inl (FlrCsr e), rf) | Inr rf' \<Rightarrow> k rf')"

definition size_mismatch :: "application_schema \<Rightarrow> nat \<Rightarrow> ustring" where
  "size_mismatch sch local_bytes = ulit ''schema '' @ as_id sch @ ulit '' (oam '' @ show_i32 (as_oam_mode sch)
     @ ulit '') FLR says '' @ show_i32 (as_payload_bytes sch) @ ulit '' bytes but local enum says '' @ show_nat local_bytes"

fun program_schemas :: "register_file \<Rightarrow> nat \<Rightarrow> application_schema list \<Rightarrow> (flr_error + nat) \<times> register_file" where
  "program_schemas rf mapped [] = (Inr mapped, rf)"
| "program_schemas rf mapped (sch # rest) =
     (case map_oam_to_schema_id (as_oam_mode sch) of
        None \<Rightarrow> program_schemas rf mapped rest
      | Some local_id \<Rightarrow>
          let handle = csr_handle_for_schema_id local_id; local_bytes = payload_bytes local_id in
          if local_bytes \<noteq> unat (scast (as_payload_bytes sch) :: u64)
          then (Inl (BadResponse 0 (size_mismatch sch local_bytes)), rf)
          else rf_try (set_schema_payload rf handle (ucast (as_payload_bytes sch))) rf (\<lambda>rf1.
               let oam_mode = (case local_id of SEquityTradeOrder \<Rightarrow> EQ_OAM_MODE | SMarketTick \<Rightarrow> MT_OAM_MODE
                                 | SHeartbeat \<Rightarrow> HB_OAM_MODE) in
               rf_try (set_oam_to_schema rf1 oam_mode handle) rf1 (\<lambda>rf2. program_schemas rf2 (mapped + 1) rest)))"

definition program_register_file :: "flr_env \<Rightarrow> flr_client_config \<Rightarrow> register_file \<Rightarrow> wavelength \<Rightarrow> bytes \<Rightarrow>
    bool \<Rightarrow> (flr_error + nat) \<times> register_file" where
  "program_register_file env cfg rf w secret topological =
     rf_try (set_wavelength rf w) rf (\<lambda>rf1.
     rf_try (set_secret rf1 secret) rf1 (\<lambda>rf2.
     let ctrl = CTRL_ENABLE_TX OR CTRL_ENABLE_RX;
         ctrl = (if topological then ctrl OR CTRL_AUTH_TOPOLOGICAL else ctrl) in
     rf_try (set_ctrl rf2 ctrl) rf2 (\<lambda>rf3.
     rf_try (set_auth_tolerance rf3 (fp_lit f32 1 100)) rf3 (\<lambda>rf4.
     case list_active_schemas env cfg of
       Inl e \<Rightarrow> (Inl e, rf4)
     | Inr schemas \<Rightarrow> program_schemas rf4 0 schemas))))"

text \<open>The refresh loop: the \<open>i\<close>-th round asks \<open>should_stop\<close> and then the registry as it answers at
  that time. It runs until it is told to stop, so it is a partial function.\<close>

partial_function (option) refresh_loop :: "(nat \<Rightarrow> flr_env) \<Rightarrow> flr_client_config \<Rightarrow> register_file \<Rightarrow>
    wavelength \<Rightarrow> bytes \<Rightarrow> bool \<Rightarrow> (nat \<Rightarrow> bool) \<Rightarrow> nat \<Rightarrow> register_file option" where
  "refresh_loop envs cfg rf w secret topological should_stop i =
     (if should_stop i then Some rf
      else refresh_loop envs cfg (snd (program_register_file (envs i) cfg rf w secret topological))
             w secret topological should_stop (Suc i))"

declare refresh_loop.simps [code]

section \<open>Programming, seen through the views\<close>

definition bind_schema :: "csr_config \<Rightarrow> schema_id \<Rightarrow> csr_config" where
  "bind_schema c i = c\<lparr>cfg_payload := (cfg_payload c)(csr_handle_for_schema_id i := Inr (of_nat (payload_bytes i))),
     cfg_schema := (cfg_schema c)(oam_for_schema i := Inr (csr_handle_for_schema_id i))\<rparr>"

text \<open>The local schema a registry entry stands for, and whether the sizes agree.\<close>

abbreviation local_schema :: "application_schema \<Rightarrow> schema_id option" where
  "local_schema sch \<equiv> map_oam_to_schema_id (as_oam_mode sch)"

definition size_agrees :: "application_schema \<Rightarrow> bool" where
  "size_agrees sch \<longleftrightarrow> (case local_schema sch of None \<Rightarrow> True
     | Some i \<Rightarrow> payload_bytes i = unat (scast (as_payload_bytes sch) :: u64))"

lemma exec_ok:
  assumes "wf_rf rf" and "cmd_typed cmd" and "cfg_exec (csr_abs rf) cmd = Inr c"
  shows "\<exists>rf'. csr_exec rf cmd = Inr rf' \<and> wf_rf rf' \<and> csr_abs rf' = c"
proof -
  have "is_ok (csr_exec rf cmd)" using csr_exec_total [OF assms(1,2)] assms(3) by simp
  then obtain rf' where "csr_exec rf cmd = Inr rf'" by (auto simp: is_ok_iff)
  with csr_exec_step [OF assms(1,2) this] assms(3) show ?thesis by simp
qed

lemma low_bits_of_sign_extension:
  fixes p :: i32
  shows "(ucast p :: u16) = ucast (scast p :: u64)"
  by (intro bit_word_eqI) (simp add: bit_simps min_def)

lemma payload_word:
  fixes p :: i32
  assumes "payload_bytes i = unat (scast p :: u64)"
  shows "(ucast p :: u16) = of_nat (payload_bytes i)"
proof -
  have "(scast p :: u64) = of_nat (payload_bytes i)" using assms by simp
  then show ?thesis by (cases i) (simp_all add: low_bits_of_sign_extension payload_bytes_def)
qed

lemma program_one:
  fixes p :: i32
  assumes "wf_rf rf" and "payload_bytes i = unat (scast p :: u64)"
  shows "\<exists>rf1 rf2. set_schema_payload rf (csr_handle_for_schema_id i) (ucast p) = Inr rf1
    \<and> set_oam_to_schema rf1 (oam_for_schema i) (csr_handle_for_schema_id i) = Inr rf2
    \<and> wf_rf rf2 \<and> csr_abs rf2 = bind_schema (csr_abs rf) i"
proof -
  have v: "valid_schema (csr_handle_for_schema_id i)" "wf_oam (oam_for_schema i)"
    by (cases i; simp add: valid_schema_def SCHEMA_TABLE_ENTRIES_def oam_for_schema_def wf_oam_def OAM_MIN_def OAM_MAX_def)+
  obtain rf1 where 1: "set_schema_payload rf (csr_handle_for_schema_id i) (ucast p) = Inr rf1" "wf_rf rf1"
    "csr_abs rf1 = (csr_abs rf)\<lparr>cfg_payload := (cfg_payload (csr_abs rf))(csr_handle_for_schema_id i := Inr (of_nat (payload_bytes i)))\<rparr>"
    using exec_ok [OF assms(1), of "SetSchemaPayload (csr_handle_for_schema_id i) (ucast p)"] v payload_word [OF assms(2)]
    by auto
  obtain rf2 where "set_oam_to_schema rf1 (oam_for_schema i) (csr_handle_for_schema_id i) = Inr rf2" "wf_rf rf2"
    "csr_abs rf2 = bind_schema (csr_abs rf) i"
    using exec_ok [OF 1(2), of "SetOamToSchema (oam_for_schema i) (csr_handle_for_schema_id i)"] v 1(3)
    by (auto simp: bind_schema_def)
  with 1 show ?thesis by blast
qed

lemma program_schemas_abs:
  assumes "wf_rf rf"
  shows "wf_rf (snd (program_schemas rf n schs))
    \<and> csr_abs (snd (program_schemas rf n schs))
      = foldl bind_schema (csr_abs rf) (List.map_filter local_schema (takeWhile size_agrees schs))
    \<and> (if list_all size_agrees schs
       then fst (program_schemas rf n schs) = Inr (n + length (List.map_filter local_schema schs))
       else \<exists>body. fst (program_schemas rf n schs) = Inl (BadResponse 0 body))"
  using assms
proof (induction schs arbitrary: rf n)
  case (Cons sch schs)
  show ?case
  proof (cases "local_schema sch")
    case None
    then show ?thesis using Cons by (simp add: size_agrees_def map_filter_simps)
  next
    case (Some i)
    show ?thesis
    proof (cases "size_agrees sch")
      case True
      with Some have "payload_bytes i = unat (scast (as_payload_bytes sch) :: u64)" by (simp add: size_agrees_def)
      from program_one [OF Cons.prems this] obtain rf1 rf2 where
        p: "set_schema_payload rf (csr_handle_for_schema_id i) (ucast (as_payload_bytes sch)) = Inr rf1"
          "set_oam_to_schema rf1 (oam_for_schema i) (csr_handle_for_schema_id i) = Inr rf2" "wf_rf rf2"
          "csr_abs rf2 = bind_schema (csr_abs rf) i" by blast
      have "program_schemas rf n (sch # schs) = program_schemas rf2 (n + 1) schs"
        using Some True p(1,2) by (simp add: size_agrees_def rf_try_def oam_for_schema_def [symmetric] Let_def del: oam_modes)
      then show ?thesis
        using Cons.IH [OF p(3), of "Suc n"] Some True by (simp add: p(4) map_filter_simps del: program_schemas.simps)
    next
      case False
      then show ?thesis using Some Cons.prems by (simp add: size_agrees_def Let_def map_filter_simps)
    qed
  qed
qed (simp add: map_filter_simps)

text \<open>The writes before the registry is asked.\<close>

definition base_cfg :: "wavelength \<Rightarrow> bytes \<Rightarrow> bool \<Rightarrow> csr_config \<Rightarrow> csr_config" where
  "base_cfg w secret topo c = c\<lparr>cfg_wavelength := Inr w, cfg_secret := Inr (Some (SharedSecret secret)),
     cfg_ctrl := Inr (CTRL_ENABLE_TX OR CTRL_ENABLE_RX OR (if topo then CTRL_AUTH_TOPOLOGICAL else 0)),
     cfg_tolerance := Inr (fp_lit f32 1 100)\<rparr>"

lemma program_base:
  assumes "wf_rf rf" and "wf_wavelength w" and "length secret = 32"
  shows "\<exists>rf4. wf_rf rf4 \<and> csr_abs rf4 = base_cfg w secret topo (csr_abs rf)
    \<and> program_register_file env cfg rf w secret topo =
      (case list_active_schemas env cfg of Inl e \<Rightarrow> (Inl e, rf4) | Inr schs \<Rightarrow> program_schemas rf4 0 schs)"
proof -
  let ?ctrl = "CTRL_ENABLE_TX OR CTRL_ENABLE_RX OR (if topo then CTRL_AUTH_TOPOLOGICAL else 0)"
  have tol: "fp_div f32 (fp_of_int f32 (uint (to_mrad (fp_lit f32 1 100)))) (fp_lit f32 1000 1) = fp_lit f32 1 100"
    by code_simp
  obtain rf1 where 1: "set_wavelength rf w = Inr rf1" "wf_rf rf1" "csr_abs rf1 = (csr_abs rf)\<lparr>cfg_wavelength := Inr w\<rparr>"
    using exec_ok [OF assms(1), of "SetWavelength w"] assms(2) by auto
  obtain rf2 where 2: "set_secret rf1 secret = Inr rf2" "wf_rf rf2"
      "csr_abs rf2 = (csr_abs rf1)\<lparr>cfg_secret := Inr (Some (SharedSecret secret))\<rparr>"
    using exec_ok [OF 1(2), of "SetSecret secret"] assms(3) by auto
  obtain rf3 where 3: "set_ctrl rf2 ?ctrl = Inr rf3" "wf_rf rf3" "csr_abs rf3 = (csr_abs rf2)\<lparr>cfg_ctrl := Inr ?ctrl\<rparr>"
    using exec_ok [OF 2(2), of "SetCtrl ?ctrl"] by auto
  obtain rf4 where 4: "set_auth_tolerance rf3 (fp_lit f32 1 100) = Inr rf4" "wf_rf rf4"
      "csr_abs rf4 = (csr_abs rf3)\<lparr>cfg_tolerance := Inr (fp_lit f32 1 100)\<rparr>"
    using exec_ok [OF 3(2), of "SetAuthTolerance (fp_lit f32 1 100)"] tol by auto
  have c: "(if topo then (CTRL_ENABLE_TX OR CTRL_ENABLE_RX) OR CTRL_AUTH_TOPOLOGICAL else CTRL_ENABLE_TX OR CTRL_ENABLE_RX) = ?ctrl"
    by (simp add: or.assoc)
  have "program_register_file env cfg rf w secret topo =
      (case list_active_schemas env cfg of Inl e \<Rightarrow> (Inl e, rf4) | Inr schs \<Rightarrow> program_schemas rf4 0 schs)"
    unfolding program_register_file_def rf_try_def 1(1) 2(1) Let_def c 3(1) 4(1) sum.case ..
  moreover have "csr_abs rf4 = base_cfg w secret topo (csr_abs rf)"
    unfolding 4(3) 3(3) 2(3) 1(3) by (simp add: base_cfg_def)
  ultimately show ?thesis using 4(2) by blast
qed

lemma bind_schemas_fields:
  "cfg_wavelength (foldl bind_schema c is) = cfg_wavelength c"
  "cfg_secret (foldl bind_schema c is) = cfg_secret c"
  "cfg_ctrl (foldl bind_schema c is) = cfg_ctrl c"
  "cfg_tolerance (foldl bind_schema c is) = cfg_tolerance c"
  by (induction "is" arbitrary: c) (simp_all add: bind_schema_def)

lemma handle_inj: "csr_handle_for_schema_id i = csr_handle_for_schema_id j \<longleftrightarrow> i = j"
  by (cases i; cases j) simp_all

lemma bind_schemas_tables:
  "cfg_schema (foldl bind_schema c is) m =
     (if m \<in> oam_for_schema ` set is then Inr (csr_handle_for_schema_id (the (resolve m))) else cfg_schema c m)"
  "i \<in> set is \<Longrightarrow> cfg_payload (foldl bind_schema c is) (csr_handle_for_schema_id i) = Inr (of_nat (payload_bytes i))"
  "h \<notin> csr_handle_for_schema_id ` set is \<Longrightarrow> cfg_payload (foldl bind_schema c is) h = cfg_payload c h"
proof -
  have r: "resolve (oam_for_schema j) = Some j" for j by (cases j) (simp_all add: oam_for_schema_def resolve_def)
  show "cfg_schema (foldl bind_schema c is) m =
     (if m \<in> oam_for_schema ` set is then Inr (csr_handle_for_schema_id (the (resolve m))) else cfg_schema c m)"
    by (induction "is" arbitrary: c) (auto simp: bind_schema_def r)
  have p: "cfg_payload (foldl bind_schema c is) (csr_handle_for_schema_id i) =
     (if i \<in> set is then Inr (of_nat (payload_bytes i)) else cfg_payload c (csr_handle_for_schema_id i))"
    by (induction "is" arbitrary: c) (auto simp: bind_schema_def handle_inj)
  then show "i \<in> set is \<Longrightarrow> cfg_payload (foldl bind_schema c is) (csr_handle_for_schema_id i) = Inr (of_nat (payload_bytes i))"
    by simp
  show "h \<notin> csr_handle_for_schema_id ` set is \<Longrightarrow> cfg_payload (foldl bind_schema c is) h = cfg_payload c h"
    by (induction "is" arbitrary: c) (auto simp: bind_schema_def)
qed

section \<open>Properties\<close>

text \<open>(C24) The whole configuration after a successful programming run. It counts the listed schemas this
  build knows; binds the OAM mode of each to its identifier, and its identifier to its payload
  size; and sets the wavelength, the secret, the control bits and the tolerance. Every other OAM
  mode, with or without a schema of this build, and every other identifier keeps what it had before:
  a schema that the registry has withdrawn since an earlier run stays bound.\<close>

theorem program_bindings:
  assumes "wf_rf rf" and "wf_wavelength w" and "length secret = 32"
    and "list_active_schemas env cfg = Inr schs" and "program_register_file env cfg rf w secret topo = (Inr n, rf')"
  shows "let known = {i. Some i \<in> local_schema ` set schs} in
    n = length (List.map_filter local_schema schs)
    \<and> (\<forall>i \<in> known. schema_id_for_oam rf' (oam_for_schema i) = Inr (csr_handle_for_schema_id i)
         \<and> schema_payload_bytes rf' (csr_handle_for_schema_id i) = Inr (of_nat (payload_bytes i)))
    \<and> (\<forall>m. m \<notin> oam_for_schema ` known \<longrightarrow> schema_id_for_oam rf' m = schema_id_for_oam rf m)
    \<and> (\<forall>h. h \<notin> csr_handle_for_schema_id ` known \<longrightarrow> schema_payload_bytes rf' h = schema_payload_bytes rf h)
    \<and> view_wavelength rf' = Inr w \<and> view_shared_secret rf' = Inr (Some (SharedSecret secret))
    \<and> view_ctrl rf' = Inr (CTRL_ENABLE_TX OR CTRL_ENABLE_RX OR (if topo then CTRL_AUTH_TOPOLOGICAL else 0))
    \<and> auth_tolerance rf' = Inr (fp_lit f32 1 100)"
proof -
  obtain rf4 where rf4: "wf_rf rf4" "csr_abs rf4 = base_cfg w secret topo (csr_abs rf)"
    "program_schemas rf4 0 schs = (Inr n, rf')"
    using program_base [OF assms(1-3), of topo env cfg] assms(4,5) by auto
  note p = program_schemas_abs [OF rf4(1), of 0 schs, unfolded rf4(3), simplified]
  have all: "list_all size_agrees schs" using p by (auto split: if_splits)
  then have tw: "takeWhile size_agrees schs = schs" by (simp add: list_all_iff takeWhile_eq_all_conv)
  define ks where "ks = List.map_filter local_schema schs"
  have c: "csr_abs rf' = foldl bind_schema (base_cfg w secret topo (csr_abs rf)) ks"
    and n: "n = length ks" using p [unfolded tw] all rf4(2) by (simp_all add: ks_def)
  have s: "{i. Some i \<in> local_schema ` set schs} = set ks"
    unfolding ks_def by (induction schs) (auto simp: map_filter_simps split: option.splits)
  have r: "resolve (oam_for_schema i) = Some i" for i by (cases i) (simp_all add: oam_for_schema_def resolve_def)
  have f: "schema_id_for_oam r = cfg_schema (csr_abs r)" "schema_payload_bytes r = cfg_payload (csr_abs r)"
    "view_wavelength r = cfg_wavelength (csr_abs r)" "view_shared_secret r = cfg_secret (csr_abs r)"
    "view_ctrl r = cfg_ctrl (csr_abs r)" "auth_tolerance r = cfg_tolerance (csr_abs r)" for r
    by (simp_all add: csr_abs_def)
  show ?thesis
    unfolding Let_def s f c using n
    by (auto simp: bind_schemas_tables bind_schemas_fields r base_cfg_def ks_def)
qed

text \<open>Whatever the registry answers, be it an error, garbage or a listing, and whatever
  \<open>program_register_file\<close> returns: the register file is armed afterwards with the given
  wavelength, secret and mode, and a driver starts from it.\<close>

theorem program_always_arms:
  assumes "wf_rf rf" and "wf_wavelength w" and "length secret = 32"
  shows "\<exists>drv. from_csr (snd (program_register_file env cfg rf w secret topo)) = Inr drv
    \<and> drv_wavelength drv = w \<and> enc_secret (drv_encoder drv) = SharedSecret secret
    \<and> dc_auth_mode (drv_config drv) = (if topo then Topological else TrajectoryMatch (fp_lit f32 1 100))"
proof -
  define rf' where "rf' = snd (program_register_file env cfg rf w secret topo)"
  obtain rf4 where rf4: "csr_abs rf4 = base_cfg w secret topo (csr_abs rf)" "wf_rf rf4"
    "program_register_file env cfg rf w secret topo =
      (case list_active_schemas env cfg of Inl e \<Rightarrow> (Inl e, rf4) | Inr schs \<Rightarrow> program_schemas rf4 0 schs)"
    using program_base [OF assms, of topo env cfg] by blast
  have "\<exists>is. csr_abs rf' = foldl bind_schema (base_cfg w secret topo (csr_abs rf)) is"
    using program_schemas_abs [OF rf4(2)] rf4(1)
    by (cases "list_active_schemas env cfg") (auto simp: rf'_def rf4(3) intro: exI [of _ "[]"])
  then obtain js where c: "csr_abs rf' = foldl bind_schema (base_cfg w secret topo (csr_abs rf)) js" ..
  have b: "(CTRL_ENABLE_TX OR CTRL_ENABLE_RX OR CTRL_AUTH_TOPOLOGICAL) AND CTRL_AUTH_TOPOLOGICAL \<noteq> 0"
    "(CTRL_ENABLE_TX OR CTRL_ENABLE_RX OR 0) AND CTRL_AUTH_TOPOLOGICAL = 0"
    "fp_max (fp_lit f32 1 100) (fp_lit f32 1 10000) = fp_lit f32 1 100"
    by code_simp+
  show ?thesis
    unfolding rf'_def [symmetric] from_csr_cfg c using b
    by (cases topo) (simp_all add: bind_schemas_fields base_cfg_def Let_def drv_wavelength_def encoder_new_def)
qed

lemma refresh_stops:
  assumes "stop n" and "k \<le> n" and "\<And>m. k \<le> m \<Longrightarrow> m < n \<Longrightarrow> \<not> stop m"
  shows "refresh_loop envs cfg rf w secret topo stop k =
    Some (foldl (\<lambda>rf i. snd (program_register_file (envs i) cfg rf w secret topo)) rf [k..<n])"
  using assms(2,3)
proof (induction "n - k" arbitrary: k rf)
  case 0
  then show ?case using assms(1) by (subst refresh_loop.simps) simp
next
  case (Suc d)
  then have "\<not> stop k" "[k..<n] = k # [Suc k..<n]" by (simp_all add: upt_conv_Cons)
  then show ?case
    using Suc.hyps(1) [of "Suc k" "snd (program_register_file (envs k) cfg rf w secret topo)"] Suc.hyps(2) Suc.prems
    by (subst refresh_loop.simps) simp
qed

lemma refresh_returned: "refresh_loop envs cfg rf w secret topo stop k = Some r \<Longrightarrow> \<exists>m. stop m"
  by (rule refresh_loop.raw_induct [where P = "\<lambda>_ _ _ _ _ _ stop _ _. \<exists>m. stop m"]) (auto split: if_splits)

text \<open>(C31) The refresh loop returns if and only if it is told to stop in some round. It has then
  programmed the register file once for every round before the first such one, with the registry
  as it answered in that round, and errors did not end it.\<close>

theorem refresh_loop_returns:
  "refresh_loop envs cfg rf w secret topo stop 0 =
     (if \<exists>n. stop n
      then Some (foldl (\<lambda>rf i. snd (program_register_file (envs i) cfg rf w secret topo)) rf [0..<LEAST n. stop n])
      else None)"
proof (cases "\<exists>n. stop n")
  case True
  have "refresh_loop envs cfg rf w secret topo stop 0 =
      Some (foldl (\<lambda>rf i. snd (program_register_file (envs i) cfg rf w secret topo)) rf [0..<LEAST n. stop n])"
    by (rule refresh_stops, rule LeastI_ex [OF True], rule le0, erule not_less_Least)
  then show ?thesis unfolding if_P [OF True] .
next
  case False
  have "refresh_loop envs cfg rf w secret topo stop 0 = None"
    using refresh_returned [of envs cfg rf w secret topo stop 0] False by (cases "refresh_loop envs cfg rf w secret topo stop 0") blast+
  then show ?thesis unfolding if_not_P [OF False] .
qed

lemma program_ok:
  assumes "wf_rf rf" and "wf_wavelength w" and "length secret = 32"
    and "list_active_schemas env cfg = Inr schs" and "list_all size_agrees schs"
  shows "\<exists>rf'. program_register_file env cfg rf w secret topo = (Inr (length (List.map_filter local_schema schs)), rf')"
proof -
  obtain rf4 where "wf_rf rf4" "program_register_file env cfg rf w secret topo = program_schemas rf4 0 schs"
    using program_base [OF assms(1-3), of topo env cfg] assms(4) by auto
  then show ?thesis using program_schemas_abs [of rf4 0 schs] assms(5) by (metis add.left_neutral prod.collapse)
qed

definition sample_schema :: application_schema where
  "sample_schema = \<lparr>as_id = ulit ''schema-001'', as_oam_mode = 1, as_payload_bytes = 256, as_name = ulit ''EquityTradeOrder'',
     as_version = 1, as_layout = \<lparr>fl_fields = []\<rparr>, as_operator_id = ulit ''op-alice'', as_status = Some ACTIVE,
     as_created_at = [], as_updated_at = [], as_signature = None\<rparr>"

definition sample_env :: flr_env where
  "sample_env = \<lparr>env_get = \<lambda>_. Inr (200, Inr []),
     env_list = \<lambda>_. Inr [sample_schema, sample_schema\<lparr>as_oam_mode := 9\<rparr>], env_schema = \<lambda>_. Inl []\<rparr>"

theorem program_bindings_witness:
  "\<exists>rf'. program_register_file sample_env (flr_config_local (ulit ''op-alice'')) register_file_new (Wavelength 40)
        (replicate 32 7) False = (Inr 1, rf')
     \<and> schema_id_for_oam rf' EQ_OAM_MODE = Inr 1 \<and> schema_payload_bytes rf' 1 = Inr 256
     \<and> schema_id_for_oam rf' HB_OAM_MODE = schema_id_for_oam register_file_new HB_OAM_MODE
     \<and> schema_payload_bytes rf' 200 = schema_payload_bytes register_file_new 200
     \<and> view_wavelength rf' = Inr (Wavelength 40)"
proof -
  let ?schs = "[sample_schema, sample_schema\<lparr>as_oam_mode := 9\<rparr>]" and ?cfg = "flr_config_local (ulit ''op-alice'')"
  have w: "wf_wavelength (Wavelength 40)" by code_simp
  have s: "length (replicate 32 (7 :: u8)) = 32" by simp
  have l: "list_active_schemas sample_env ?cfg = Inr ?schs"
    by (simp add: list_active_schemas_def sample_env_def is_success_def Let_def)
  have m: "local_schema sample_schema = Some SEquityTradeOrder" "local_schema (sample_schema\<lparr>as_oam_mode := 9\<rparr>) = None"
    by (simp_all add: map_oam_to_schema_id_def sample_schema_def)
  then have "list_all size_agrees ?schs"
    by (simp add: size_agrees_def sample_schema_def payload_bytes_def)
  from program_ok [OF wf_rf_new w s l this, of False] obtain rf' where
    "program_register_file sample_env ?cfg register_file_new (Wavelength 40) (replicate 32 7) False = (Inr 1, rf')"
    by (auto simp: map_filter_simps m [simplified])
  moreover have "{i. Some i \<in> local_schema ` set ?schs} = {SEquityTradeOrder}" using m by auto
  moreover have "HB_OAM_MODE \<notin> oam_for_schema ` {SEquityTradeOrder}" "oam_for_schema SEquityTradeOrder = EQ_OAM_MODE"
    "(200 :: u8) \<notin> csr_handle_for_schema_id ` {SEquityTradeOrder}" by (simp_all add: oam_for_schema_def)
  ultimately show ?thesis
    using program_bindings [OF wf_rf_new w s l] by (auto simp: Let_def payload_bytes_def simp del: oam_modes)
qed

theorem program_always_arms_witness:
  "\<exists>drv. from_csr (snd (program_register_file \<lparr>env_get = \<lambda>_. Inl (ulit ''timeout''), env_list = \<lambda>_. Inl [], env_schema = \<lambda>_. Inl []\<rparr>
      (flr_config_local []) register_file_new (Wavelength 40) (replicate 32 7) True)) = Inr drv
    \<and> drv_wavelength drv = Wavelength 40"
proof -
  have w: "wf_wavelength (Wavelength 40)" by code_simp
  have s: "length (replicate 32 (7 :: u8)) = 32" by simp
  show ?thesis
    using program_always_arms [OF wf_rf_new w s,
        of "\<lparr>env_get = \<lambda>_. Inl (ulit ''timeout''), env_list = \<lambda>_. Inl [], env_schema = \<lambda>_. Inl []\<rparr>" "flr_config_local []" True]
    by blast
qed

section \<open>Percent encoding\<close>

lemma unat_hex_digit: "d < 16 \<Longrightarrow> unat (hex_digit d) = (if d < 10 then 48 + d else 55 + d)"
  unfolding hex_digit_def by (simp only: unat_of_nat if_distrib [of unat]) simp

lemma hex_digit_inj:
  assumes "c < 16" and "d < 16" and "hex_digit c = hex_digit d"
  shows "c = d"
proof -
  have "(if c < 10 then 48 + c else 55 + c) = (if d < 10 then 48 + d else 55 + d)"
    using arg_cong [OF assms(3), of unat] assms(1,2) by (simp only: unat_hex_digit)
  then show ?thesis by (simp split: if_splits)
qed

lemma escape_byte:
  assumes "n < 256"
  shows "(let h = show_hex n in replicate (2 - length h) 48 @ h) = [hex_digit (n div 16), hex_digit (n mod 16)]"
proof (cases "n < 16")
  case True
  then show ?thesis by (simp add: show_hex.simps [of n] hex_digit_def)
next
  case False
  have "n div 16 < 16" using assms by (simp add: less_mult_imp_div_less)
  with False show ?thesis by (simp add: show_hex.simps [of n] show_hex.simps [of "n div 16"])
qed

lemma urlencode_char_byte:
  "c < 256 \<Longrightarrow> urlencode_char c = (if unreserved c then [c]
     else [37, hex_digit (unat c div 16), hex_digit (unat c mod 16)])"
  using escape_byte [of "unat c"] by (simp add: urlencode_char_def word_less_nat_alt)

lemma urlencode_char_prefix:
  assumes "c < 256" and "d < 256" and "urlencode_char c @ xs = urlencode_char d @ ys"
  shows "c = d \<and> xs = ys"
proof -
  note eq = assms(3) [unfolded urlencode_char_byte [OF assms(1)] urlencode_char_byte [OF assms(2)]]
  have p: "\<not> unreserved 37" by (simp add: unreserved_def)
  have b: "unat c div 16 < 16" "unat d div 16 < 16"
    using assms(1,2) by (simp_all add: word_less_nat_alt less_mult_imp_div_less)
  show ?thesis
  proof (cases "unreserved c \<or> unreserved d")
    case True
    with eq p show ?thesis by (cases "unreserved c"; cases "unreserved d") auto
  next
    case False
    then have h: "hex_digit (unat c div 16) = hex_digit (unat d div 16)" "hex_digit (unat c mod 16) = hex_digit (unat d mod 16)"
      and x: "xs = ys" using eq by simp_all
    from hex_digit_inj [OF b h(1)] hex_digit_inj [OF _ _ h(2)]
    have "unat c div 16 = unat d div 16" "unat c mod 16 = unat d mod 16" by simp_all
    then have "unat c = unat d" by (metis div_mult_mod_eq)
    with x show ?thesis by (simp add: word_unat_eq_iff)
  qed
qed

text \<open>Percent encoding is injective on strings of characters below 256, so that distinct
  identifiers of that kind are requested under distinct paths. Beyond, it is not: the character
  U+02F1 is encoded as a slash followed by a one.\<close>

theorem urlencode_injective:
  assumes "list_all (\<lambda>c. c < 256) s" and "list_all (\<lambda>c. c < 256) t"
  shows "(urlencode s = urlencode t \<longleftrightarrow> s = t) \<and> urlencode [0x2F1] = urlencode [0x2F, 0x31]"
proof -
  have ne: "urlencode_char c \<noteq> []" for c by (simp add: urlencode_char_def)
  have "s = t" if "urlencode s = urlencode t"
    using assms that
  proof (induction s arbitrary: t)
    case Nil
    then show ?case using ne by (cases t) (auto simp: urlencode_def)
  next
    case (Cons c s)
    from Cons.prems(3) ne obtain d t' where t: "t = d # t'" by (cases t) (auto simp: urlencode_def)
    with Cons.prems have "urlencode_char c @ urlencode s = urlencode_char d @ urlencode t'" "c < 256" "d < 256"
      by (simp_all add: urlencode_def)
    then have "c = d" "urlencode s = urlencode t'" using urlencode_char_prefix by blast+
    with Cons.IH [of t'] Cons.prems t show ?case by simp
  qed
  moreover have "urlencode [0x2F1] = urlencode [0x2F, 0x31]" by code_simp
  ultimately show ?thesis by blast
qed

theorem urlencode_injective_witness:
  "urlencode (ulit ''a/b'') = ulit ''a%2Fb'' \<and> urlencode (ulit ''a/b'') \<noteq> urlencode (ulit ''ab'')"
proof -
  have "urlencode (ulit ''a/b'') = ulit ''a%2Fb''" by code_simp
  moreover have "ulit ''a/b'' \<noteq> ulit ''ab''" "list_all (\<lambda>c. c < 256) (ulit ''a/b'')" "list_all (\<lambda>c. c < 256) (ulit ''ab'')"
    by code_simp+
  ultimately show ?thesis using urlencode_injective [of "ulit ''a/b''" "ulit ''ab''"] by simp
qed

end
