(* ===== verification/Bar.thy ===== *)
theory Bar
  imports Prelude
begin

text \<open>
  The memory-mapped register region of otap-modq/src/bar.rs. The mapping is the list of its bytes;
  32- and 64-bit accesses are little-endian. A failed bounds assertion is a panic, here \<open>Inl\<close>
  with its message. The operating system (file metadata, \<open>mmap\<close>, POSIX shared memory) is an
  argument of the two constructors.
\<close>

type_synonym 'a panics = "string + 'a"

section \<open>Register offsets\<close>

definition BAR_HEAD :: nat where "BAR_HEAD = 0x0000"
definition BAR_TAIL :: nat where "BAR_TAIL = 0x0008"
definition BAR_DEPTH :: nat where "BAR_DEPTH = 0x0010"
definition BAR_SLOT_SIZE :: nat where "BAR_SLOT_SIZE = 0x0018"
definition BAR_DOORBELL :: nat where "BAR_DOORBELL = 0x0040"
definition BAR_INGRESS_SID :: nat where "BAR_INGRESS_SID = 0x0048"
definition BAR_COMMIT_PTR :: nat where "BAR_COMMIT_PTR = 0x0050"
definition BAR_HW_CYCLE_COUNT :: nat where "BAR_HW_CYCLE_COUNT = 0x0058"
definition BAR_HW_DROP_COUNT :: nat where "BAR_HW_DROP_COUNT = 0x0060"
definition BAR_RING_BASE :: nat where "BAR_RING_BASE = 0x1000"

lemmas bar_regs = BAR_HEAD_def BAR_TAIL_def BAR_DEPTH_def BAR_SLOT_SIZE_def BAR_DOORBELL_def BAR_RING_BASE_def

section \<open>Opening\<close>

datatype modq_error =
    BarOpen string string
  | BarEmpty string
  | MmapFailed string
  | InvalidRingDepth u32
  | InvalidShmName string
  | ShmOpenFailed string
  | ShmTruncateFailed string

record os_env =
  os_open :: "string \<Rightarrow> string + unit"
  os_file_size :: "string \<Rightarrow> string + nat"
  os_mmap :: "string \<Rightarrow> nat \<Rightarrow> bytes option"
  os_shm_open :: "string \<Rightarrow> bool"
  os_ftruncate :: "string \<Rightarrow> nat \<Rightarrow> bool"

definition bar_open :: "os_env \<Rightarrow> string \<Rightarrow> modq_error + bytes" where
  "bar_open os path =
     try_bind (map_err (BarOpen path) (os_open os path)) (\<lambda>_.
     try_bind (map_err (BarOpen path) (os_file_size os path)) (\<lambda>size.
     if size = 0 then Inl (BarEmpty path) else ok_or (os_mmap os path size) (MmapFailed path)))"

definition bar_open_shm :: "os_env \<Rightarrow> string \<Rightarrow> nat \<Rightarrow> modq_error + bytes" where
  "bar_open_shm os name sz =
     (if CHR 0x00 \<in> set name then Inl (InvalidShmName name)
      else if \<not> os_shm_open os name then Inl (ShmOpenFailed name)
      else if \<not> os_ftruncate os name sz then Inl (ShmTruncateFailed name)
      else ok_or (os_mmap os name sz) (MmapFailed (''shm:'' @ name)))"

section \<open>Accesses\<close>

definition bar_read32 :: "bytes \<Rightarrow> nat \<Rightarrow> u32 panics" where
  "bar_read32 m offset = (if offset + 4 \<le> length m then Inr (from_be_bytes (rev (sub_slice offset (offset + 4) m)))
     else Inl ''BAR read out of bounds'')"

definition bar_read64 :: "bytes \<Rightarrow> nat \<Rightarrow> u64 panics" where
  "bar_read64 m offset = (if offset + 8 \<le> length m then Inr (from_be_bytes (rev (sub_slice offset (offset + 8) m)))
     else Inl ''BAR read out of bounds'')"

definition bar_write32 :: "bytes \<Rightarrow> nat \<Rightarrow> u32 \<Rightarrow> bytes panics" where
  "bar_write32 m offset v = (if offset + 4 \<le> length m then Inr (copy_at offset (rev (to_be_bytes 4 v)) m)
     else Inl ''BAR write out of bounds'')"

definition bar_write64 :: "bytes \<Rightarrow> nat \<Rightarrow> u64 \<Rightarrow> bytes panics" where
  "bar_write64 m offset v = (if offset + 8 \<le> length m then Inr (copy_at offset (rev (to_be_bytes 8 v)) m)
     else Inl ''BAR write out of bounds'')"

text \<open>\<open>slot_ptr\<close> asserts that the start is inside the mapping; the unchecked copy through the pointer
  is undefined behaviour when its end is not.\<close>

definition bar_slot_ptr :: "bytes \<Rightarrow> nat \<Rightarrow> nat panics" where
  "bar_slot_ptr m offset = (if offset < length m then Inr offset else Inl ''BAR slot_ptr out of bounds'')"

definition bar_copy :: "bytes \<Rightarrow> nat \<Rightarrow> bytes \<Rightarrow> bytes panics" where
  "bar_copy m offset payload = try_bind (bar_slot_ptr m offset) (\<lambda>p.
     if p + length payload \<le> length m then Inr (copy_at p payload m) else Inl ''undefined behaviour'')"

section \<open>Lemmas\<close>

definition mem32 :: "bytes \<Rightarrow> nat \<Rightarrow> u32" where
  "mem32 m off = from_be_bytes (rev (sub_slice off (off + 4) m))"

lemma bar_read32_ok: "off + 4 \<le> length m \<Longrightarrow> bar_read32 m off = Inr (mem32 m off)"
  by (simp add: bar_read32_def mem32_def)

text \<open>What a copy does to a 32-bit register and to a slice that it covers or leaves alone.\<close>

lemma mem32_write: "off + 4 \<le> length m \<Longrightarrow> mem32 (copy_at off (rev (to_be_bytes 4 v)) m) off = v"
  using sub_slice_copy_at_same [of off "rev (to_be_bytes 4 v)" m] by (simp add: mem32_def)

lemma slice_copy_disjoint:
  assumes "off + length src \<le> length m" and "b \<le> length m" and "b \<le> off \<or> off + length src \<le> a"
  shows "sub_slice a b (copy_at off src m) = sub_slice a b m"
  using assms sub_slice_copy_at_before sub_slice_copy_at_after by blast

lemma mem32_copy:
  "off + length src \<le> length m \<Longrightarrow> a + 4 \<le> length m \<Longrightarrow> a + 4 \<le> off \<or> off + length src \<le> a \<Longrightarrow>
   mem32 (copy_at off src m) a = mem32 m a"
  by (simp add: mem32_def slice_copy_disjoint)

end
