(* ===== verification/Ring.thy ===== *)
theory Ring
  imports Bar
begin

text \<open>
  The ring transport of otap-modq: ring.rs (submission and completion over slots in the mapped
  memory) and lib.rs (\<open>ModqQueue\<close>). The mapping is shared with the device, so the memory is
  passed explicitly: \<open>submit\<close> gets the memory as it is at each turn of its spin loop and
  returns the memory it leaves. Counters keep their widths; arithmetic wraps as in a release
  build, and a panic is \<open>Inl\<close>.
\<close>

section \<open>Slots\<close>

definition SLOT_FREE :: u32 where "SLOT_FREE = 0"
definition SLOT_READY :: u32 where "SLOT_READY = 1"
definition SLOT_DONE :: u32 where "SLOT_DONE = 2"
definition SLOT_HDR_STATUS :: nat where "SLOT_HDR_STATUS = 0x00"
definition SLOT_HDR_LENGTH :: nat where "SLOT_HDR_LENGTH = 0x04"
definition SLOT_HDR_SID :: nat where "SLOT_HDR_SID = 0x08"
definition SLOT_PAYLOAD_OFFSET :: nat where "SLOT_PAYLOAD_OFFSET = 0x10"

lemmas slot_layout = SLOT_HDR_STATUS_def SLOT_HDR_LENGTH_def SLOT_HDR_SID_def SLOT_PAYLOAD_OFFSET_def
lemmas slot_states = SLOT_FREE_def SLOT_READY_def SLOT_DONE_def

record tx_ring =
  tx_depth :: u32
  tx_slot_stride :: u32
  tx_tail :: u64
  tx_next_sid :: u32

record completion_ring =
  cr_depth :: u32
  cr_slot_stride :: u32
  cr_head :: u64

record ring_completion =
  rc_sequence_id :: u32
  rc_slot_index :: nat

datatype ring_error = PayloadTooLarge nat nat | RingTimeout nat

section \<open>Submission\<close>

definition stride_of :: "u32 \<Rightarrow> u32" where
  "stride_of slot_size = (let raw_stride = of_nat SLOT_PAYLOAD_OFFSET + slot_size in (raw_stride + 63) AND NOT 63)"

definition tx_new :: "bytes \<Rightarrow> tx_ring panics" where
  "tx_new m = try_bind (bar_read32 m BAR_DEPTH) (\<lambda>depth. try_bind (bar_read32 m BAR_SLOT_SIZE) (\<lambda>slot_size.
     Inr \<lparr>tx_depth = depth, tx_slot_stride = stride_of slot_size, tx_tail = 0, tx_next_sid = 0\<rparr>))"

definition tx_with_params :: "u32 \<Rightarrow> u32 \<Rightarrow> tx_ring" where
  "tx_with_params depth slot_size =
     \<lparr>tx_depth = depth, tx_slot_stride = stride_of slot_size, tx_tail = 0, tx_next_sid = 0\<rparr>"

text \<open>\<open>self.slot_stride as usize - SLOT_PAYLOAD_OFFSET\<close>, on 64 bits.\<close>

definition tx_slot_payload_capacity :: "tx_ring \<Rightarrow> u64" where
  "tx_slot_payload_capacity t = ucast (tx_slot_stride t) - of_nat SLOT_PAYLOAD_OFFSET"

definition ring_index :: "u64 \<Rightarrow> u32 \<Rightarrow> nat panics" where
  "ring_index counter depth =
     (if depth = 0 then Inl ''attempt to calculate the remainder with a divisor of zero''
      else Inr (unat (counter mod ucast depth)))"

definition slot_base :: "nat \<Rightarrow> u32 \<Rightarrow> nat" where
  "slot_base index stride = BAR_RING_BASE + index * unat stride"

definition SPIN_LIMIT :: nat where "SPIN_LIMIT = 1000000000"

text \<open>The spin loop of \<open>submit\<close>: \<open>Some k\<close> when the \<open>k\<close>-th reading is free, \<open>None\<close> on the timeout.\<close>

function spin_wait :: "(nat \<Rightarrow> bytes) \<Rightarrow> nat \<Rightarrow> nat \<Rightarrow> nat option panics" where
  "spin_wait mem base spins =
     try_bind (bar_read32 (mem spins) (base + SLOT_HDR_STATUS)) (\<lambda>status.
     if status = SLOT_FREE then Inr (Some spins)
     else if spins + 1 > SPIN_LIMIT then Inr None
     else spin_wait mem base (spins + 1))"
  by pat_completeness auto

termination
  by (relation "measure (\<lambda>(_, _, spins). SPIN_LIMIT - spins)") auto

declare spin_wait.simps [simp del]

text \<open>Filling a free slot and ringing the doorbell.\<close>

definition publish :: "bytes \<Rightarrow> tx_ring \<Rightarrow> nat \<Rightarrow> bytes \<Rightarrow> (u32 \<times> bytes \<times> tx_ring) panics" where
  "publish m t base payload =
     try_bind (bar_copy m (base + SLOT_PAYLOAD_OFFSET) payload) (\<lambda>m.
     let sid = tx_next_sid t in
     try_bind (bar_write32 m (base + SLOT_HDR_LENGTH) (of_nat (length payload))) (\<lambda>m.
     try_bind (bar_write32 m (base + SLOT_HDR_SID) sid) (\<lambda>m.
     try_bind (bar_write32 m (base + SLOT_HDR_STATUS) SLOT_READY) (\<lambda>m.
     let t = t\<lparr>tx_tail := tx_tail t + 1, tx_next_sid := tx_next_sid t + 1\<rparr> in
     try_bind (bar_write32 m BAR_DOORBELL (ucast (tx_tail t))) (\<lambda>m.
     Inr (sid, m, t))))))"

text \<open>\<open>TxRing::submit\<close>: the result, the memory and the ring afterwards; an error changes neither.\<close>

definition submit :: "(nat \<Rightarrow> bytes) \<Rightarrow> tx_ring \<Rightarrow> bytes \<Rightarrow> (ring_error + u32 \<times> bytes \<times> tx_ring) panics" where
  "submit mem t payload =
     (let max_payload = unat (tx_slot_payload_capacity t) in
      if length payload > max_payload then Inr (Inl (PayloadTooLarge (length payload) max_payload))
      else try_bind (ring_index (tx_tail t) (tx_depth t)) (\<lambda>index.
        let base = slot_base index (tx_slot_stride t) in
        try_bind (spin_wait mem base 0) (\<lambda>r. case r of
          None \<Rightarrow> Inr (Inl (RingTimeout index))
        | Some k \<Rightarrow> try_bind (publish (mem k) t base payload) (\<lambda>out. Inr (Inr out)))))"

text \<open>\<open>TxRing::submit_unchecked\<close> spins without a limit: \<open>None\<close> when the slot never becomes free.\<close>

partial_function (option) spin_forever :: "(nat \<Rightarrow> bytes) \<Rightarrow> nat \<Rightarrow> nat \<Rightarrow> nat panics option" where
  "spin_forever mem base spins =
     (case bar_read32 (mem spins) (base + SLOT_HDR_STATUS) of
        Inl e \<Rightarrow> Some (Inl e)
      | Inr status \<Rightarrow> if status \<noteq> SLOT_FREE then spin_forever mem base (spins + 1) else Some (Inr spins))"

declare spin_forever.simps [code]

definition submit_unchecked :: "(nat \<Rightarrow> bytes) \<Rightarrow> tx_ring \<Rightarrow> bytes \<Rightarrow> (u32 \<times> bytes \<times> tx_ring) panics option" where
  "submit_unchecked mem t payload =
     (case ring_index (tx_tail t) (tx_depth t) of
        Inl e \<Rightarrow> Some (Inl e)
      | Inr index \<Rightarrow>
          let base = slot_base index (tx_slot_stride t) in
          map_option (\<lambda>r. try_bind r (\<lambda>k. publish (mem k) t base payload)) (spin_forever mem base 0))"

section \<open>Completion\<close>

definition cr_new :: "u32 \<Rightarrow> u32 \<Rightarrow> completion_ring" where
  "cr_new depth slot_stride = \<lparr>cr_depth = depth, cr_slot_stride = slot_stride, cr_head = 0\<rparr>"

definition poll :: "bytes \<Rightarrow> completion_ring \<Rightarrow> (ring_completion option \<times> bytes \<times> completion_ring) panics" where
  "poll m c =
     try_bind (ring_index (cr_head c) (cr_depth c)) (\<lambda>index.
     let base = slot_base index (cr_slot_stride c) in
     try_bind (bar_read32 m (base + SLOT_HDR_STATUS)) (\<lambda>status.
     if status = SLOT_DONE then
       try_bind (bar_read32 m (base + SLOT_HDR_SID)) (\<lambda>sid.
       try_bind (bar_write32 m (base + SLOT_HDR_STATUS) SLOT_FREE) (\<lambda>m.
       Inr (Some \<lparr>rc_sequence_id = sid, rc_slot_index = index\<rparr>, m, c\<lparr>cr_head := cr_head c + 1\<rparr>)))
     else Inr (None, m, c)))"

section \<open>The queue\<close>

datatype transport_mode = PciBar string | Loopback string

record modq_config =
  mc_transport :: transport_mode
  mc_ring_depth :: u32
  mc_slot_size :: u32

record modq_queue =
  mq_bar :: bytes
  mq_tx :: tx_ring
  mq_completions :: completion_ring
  mq_config :: modq_config

definition is_power_of_two :: "u32 \<Rightarrow> bool" where
  "is_power_of_two n \<longleftrightarrow> n \<noteq> 0 \<and> n AND (n - 1) = 0"

definition init_ring :: "bytes \<Rightarrow> u32 \<Rightarrow> u32 \<Rightarrow> nat \<Rightarrow> bytes panics" where
  "init_ring m depth slot_size stride =
     try_bind (bar_write32 m BAR_DEPTH depth) (\<lambda>m.
     try_bind (bar_write32 m BAR_SLOT_SIZE slot_size) (\<lambda>m.
     try_bind (bar_write64 m BAR_HEAD 0) (\<lambda>m.
     try_bind (bar_write64 m BAR_TAIL 0) (\<lambda>m.
     try_fold (\<lambda>m i. bar_write32 m (BAR_RING_BASE + i * stride) SLOT_FREE) m [0..<unat depth]))))"

definition modq_open :: "os_env \<Rightarrow> modq_config \<Rightarrow> (modq_error + modq_queue) panics" where
  "modq_open os cfg =
     (let depth = mc_ring_depth cfg; slot_size = mc_slot_size cfg in
      if \<not> is_power_of_two depth then Inr (Inl (InvalidRingDepth depth))
      else let slot_stride = unat ((slot_size + 16 + 63) AND NOT 63);
               ring_region = slot_stride * unat depth;
               total_size = BAR_RING_BASE + ring_region;
               done = (\<lambda>m. Inr (Inr \<lparr>mq_bar = m, mq_tx = tx_with_params depth slot_size,
                                mq_completions = cr_new depth (of_nat slot_stride), mq_config = cfg\<rparr>))
           in case mc_transport cfg of
                PciBar path \<Rightarrow> (case bar_open os path of Inl e \<Rightarrow> Inr (Inl e) | Inr m \<Rightarrow> done m)
              | Loopback name \<Rightarrow>
                  (case bar_open_shm os name total_size of
                     Inl e \<Rightarrow> Inr (Inl e)
                   | Inr m \<Rightarrow> try_bind (init_ring m depth slot_size slot_stride) done))"

definition mq_submit :: "(nat \<Rightarrow> bytes) \<Rightarrow> modq_queue \<Rightarrow> bytes \<Rightarrow> (ring_error + u32 \<times> modq_queue) panics" where
  "mq_submit mem q payload = try_bind (submit mem (mq_tx q) payload) (\<lambda>r.
     Inr (try_bind r (\<lambda>(sid, m, t). Inr (sid, q\<lparr>mq_bar := m, mq_tx := t\<rparr>))))"

definition mq_submit_unchecked :: "(nat \<Rightarrow> bytes) \<Rightarrow> modq_queue \<Rightarrow> bytes \<Rightarrow> (u32 \<times> modq_queue) panics option" where
  "mq_submit_unchecked mem q payload =
     map_option (\<lambda>r. try_bind r (\<lambda>(sid, m, t). Inr (sid, q\<lparr>mq_bar := m, mq_tx := t\<rparr>)))
       (submit_unchecked mem (mq_tx q) payload)"

definition mq_poll :: "modq_queue \<Rightarrow> (ring_completion option \<times> modq_queue) panics" where
  "mq_poll q = try_bind (poll (mq_bar q) (mq_completions q)) (\<lambda>(c, m, cr).
     Inr (c, q\<lparr>mq_bar := m, mq_completions := cr\<rparr>))"

definition mq_slot_payload_capacity :: "modq_queue \<Rightarrow> u64" where
  "mq_slot_payload_capacity q = tx_slot_payload_capacity (mq_tx q)"

definition mq_ring_depth :: "modq_queue \<Rightarrow> u32" where
  "mq_ring_depth q = mc_ring_depth (mq_config q)"

definition submitted_count :: "modq_queue \<Rightarrow> u64" where
  "submitted_count q = tx_tail (mq_tx q)"

definition fpga_ingress_sid :: "modq_queue \<Rightarrow> u32 panics" where
  "fpga_ingress_sid q = bar_read32 (mq_bar q) BAR_INGRESS_SID"

definition fpga_commit_ptr :: "modq_queue \<Rightarrow> u32 panics" where
  "fpga_commit_ptr q = bar_read32 (mq_bar q) BAR_COMMIT_PTR"

definition hardware_timestamp :: "modq_queue \<Rightarrow> u64 panics" where
  "hardware_timestamp q = bar_read64 (mq_bar q) BAR_HW_CYCLE_COUNT"

definition hardware_drop_count :: "modq_queue \<Rightarrow> u32 panics" where
  "hardware_drop_count q = bar_read32 (mq_bar q) BAR_HW_DROP_COUNT"

end
