(* ===== verification/RingProtocol.thy ===== *)
theory RingProtocol
  imports Ring
begin

text \<open>
  The ring shared by host and device. The host runs \<open>submit\<close> and \<open>poll\<close>; the device takes a slot
  that is ready and marks it done, in any order, and may write the registers below the ring at
  any time. An invariant over a history of submitted payloads and polled identifiers gives the
  ring's contract: first in, first out, no loss, no overwriting of a slot in flight, and stable
  payloads while the device may read them.
\<close>

section \<open>Geometry\<close>

lemma and_not_63: "unat (x AND - 64 :: u32) = unat x div 64 * 64"
proof -
  have m: "(- 64 :: u32) = NOT (mask 6)" by (simp add: mask_eq_decr_exp)
  have "x AND - 64 = push_bit 6 (drop_bit 6 x)"
    unfolding m by (intro bit_word_eqI) (auto simp: bit_simps)
  moreover have "take_bit 32 (unat x) = unat x" using unat_less_pow [of x] by (simp add: take_bit_nat_eq_self)
  ultimately have "unat (x AND - 64) = take_bit 32 (push_bit 6 (drop_bit 6 (unat x)))"
    by (simp only: unsigned_push_bit_eq unsigned_drop_bit_eq) simp
  also have "\<dots> = unat x div 64 * 64 mod 2 ^ 32"
    by (simp add: push_bit_eq_mult drop_bit_eq_div take_bit_eq_mod)
  also have "\<dots> = unat x div 64 * 64"
  proof -
    have "unat x div 64 * 64 \<le> unat x" by simp
    also have "unat x < 2 ^ 32" using unat_less_pow [of x] by simp
    finally show ?thesis by simp
  qed
  finally show ?thesis .
qed

lemma stride_of_bounds:
  assumes "unat slot_size \<le> 2 ^ 32 - 80"
  shows "unat (stride_of slot_size) = (unat slot_size + 79) div 64 * 64"
    and "unat slot_size + 16 \<le> unat (stride_of slot_size)"
    and "unat (stride_of slot_size) mod 64 = 0"
proof -
  have "unat (16 + slot_size + 63) = unat slot_size + 79"
    using assms by (simp add: unat_word_ariths unat_plus_if')
  then show 1: "unat (stride_of slot_size) = (unat slot_size + 79) div 64 * 64"
    by (simp add: stride_of_def and_not_63 SLOT_PAYLOAD_OFFSET_def Let_def)
  show "unat slot_size + 16 \<le> unat (stride_of slot_size)" unfolding 1 by linarith
  show "unat (stride_of slot_size) mod 64 = 0" unfolding 1 by simp
qed

lemma tx_capacity:
  assumes "16 < unat (tx_slot_stride t)"
  shows "unat (tx_slot_payload_capacity t) = unat (tx_slot_stride t) - 16"
proof -
  have "unat (ucast (tx_slot_stride t) :: u64) = unat (tx_slot_stride t)"
    using unat_less_pow [of "tx_slot_stride t"] by (simp add: unsigned_ucast_eq take_bit_nat_eq_self)
  with assms show ?thesis
    by (simp add: tx_slot_payload_capacity_def SLOT_PAYLOAD_OFFSET_def unat_sub word_le_nat_alt)
qed

text \<open>A mapping that holds the ring, with a stride large enough for a slot header.\<close>

definition ring_fits :: "bytes \<Rightarrow> nat \<Rightarrow> u32 \<Rightarrow> bool" where
  "ring_fits m n stride \<longleftrightarrow> 16 < unat stride \<and> BAR_RING_BASE + n * unat stride \<le> length m"

lemma slot_in_ring:
  assumes "ring_fits m n s" and "i < n"
  shows "slot_base i s + unat s \<le> length m" and "BAR_RING_BASE \<le> slot_base i s"
proof -
  have "(i + 1) * unat s \<le> n * unat s" using assms(2) by (intro mult_le_mono1) simp
  then show "slot_base i s + unat s \<le> length m" "BAR_RING_BASE \<le> slot_base i s"
    using assms(1) by (simp_all add: ring_fits_def slot_base_def)
qed

lemma slots_disjoint: "i < j \<Longrightarrow> slot_base i s + unat s \<le> slot_base j s"
  using mult_le_mono1 [of "i + 1" j "unat s"] by (simp add: slot_base_def)

lemma slot_apart:
  "i \<noteq> j \<Longrightarrow> slot_base i s + unat s \<le> slot_base j s \<or> slot_base j s + unat s \<le> slot_base i s"
  using slots_disjoint [of i j s] slots_disjoint [of j i s] by (meson nat_neq_iff)

text \<open>With a power of two as depth the slot of the \<open>k\<close>-th submission is \<open>k mod depth\<close>, also after the
  64-bit counter has wrapped.\<close>

lemma power_of_two_nat: "0 < m \<Longrightarrow> m AND (m - 1) = (0 :: nat) \<Longrightarrow> \<exists>e. m = 2 ^ e"
proof (induction m rule: less_induct)
  case (less m)
  show ?case
  proof (cases "odd m")
    case True
    then have "(m - 1) div 2 = m div 2" by presburger
    then have "m AND (m - 1) = 2 * (m div 2)" using True by (simp add: and_rec [of m])
    with less.prems(2) True have "m = 2 ^ 0" by (metis One_nat_def odd_two_times_div_two_succ power_0 add_0)
    then show ?thesis ..
  next
    case False
    with less.prems(1) have h: "(m - 1) div 2 = m div 2 - 1" "0 < m div 2" "m div 2 < m" "2 * (m div 2) = m" by presburger+
    have "m div 2 AND (m div 2 - 1) = 0" using less.prems(2) False h(1) by (simp add: and_rec [of m])
    with less.IH [OF h(3,2)] obtain e where "m div 2 = 2 ^ e" by blast
    with h(4) have "m = 2 ^ Suc e" by simp
    then show ?thesis ..
  qed
qed

lemma power_of_two_depth:
  assumes "is_power_of_two n"
  obtains e where "e < 32" and "unat n = 2 ^ e"
proof -
  have n: "0 < unat n" "unat (n - 1) = unat n - 1"
    using assms unat_gt_0 [of n] by (simp_all add: is_power_of_two_def unat_minus_one)
  have "unat n AND (unat n - 1) = 0"
    using assms n(2) by (metis is_power_of_two_def unsigned_0 unsigned_and_eq)
  from power_of_two_nat [OF n(1) this] obtain e where e: "unat n = 2 ^ e" ..
  moreover have "(2 :: nat) ^ e < 2 ^ 32" using unat_less_pow [of n] e by simp
  then have "e < 32" by (rule power_less_imp_less_exp [rotated]) simp
  ultimately show ?thesis using that by blast
qed

lemma ring_index_count:
  assumes "unat depth = 2 ^ e" and "e < 32"
  shows "ring_index (of_nat k) depth = Inr (k mod 2 ^ e)"
proof -
  have "depth \<noteq> 0" using assms(1) by auto
  moreover have "unat (ucast depth :: u64) = 2 ^ e"
    using assms by (simp add: unsigned_ucast_eq take_bit_nat_eq_self power_strict_increasing_iff)
  then have "unat ((of_nat k :: u64) mod ucast depth) = k mod 2 ^ 64 mod 2 ^ e"
    by (simp add: unat_mod_distrib unat_of_nat)
  moreover have "k mod 2 ^ 64 mod 2 ^ e = k mod 2 ^ e"
    using assms(2) by (intro mod_mod_cancel le_imp_power_dvd) simp
  ultimately show ?thesis by (simp add: ring_index_def)
qed

section \<open>Single operations\<close>

text \<open>What a submission leaves in the memory: the header words and the payload of its slot, the new tail
  in the doorbell, and every other byte as it was.\<close>

definition published :: "bytes \<Rightarrow> bytes \<Rightarrow> nat \<Rightarrow> tx_ring \<Rightarrow> bytes \<Rightarrow> bool" where
  "published m m' base t p \<longleftrightarrow> length m' = length m
     \<and> mem32 m' base = SLOT_READY \<and> mem32 m' (base + 4) = of_nat (length p) \<and> mem32 m' (base + 8) = tx_next_sid t
     \<and> sub_slice (base + 16) (base + 16 + length p) m' = p \<and> mem32 m' BAR_DOORBELL = ucast (tx_tail t + 1)
     \<and> (\<forall>x < length m. x \<notin> {BAR_DOORBELL..<BAR_DOORBELL + 4} \<union> {base..<base + 12} \<union> {base + 16..<base + 16 + length p}
          \<longrightarrow> m' ! x = m ! x)"

lemma publish_full:
  assumes "base + s \<le> length m" and "BAR_RING_BASE \<le> base" and "16 \<le> s" and "16 + length p \<le> s"
    and "base + 16 < length m"
  obtains m' where "publish m t base p = Inr (tx_next_sid t, m', t\<lparr>tx_tail := tx_tail t + 1, tx_next_sid := tx_next_sid t + 1\<rparr>)"
    and "length m' = length m" and "mem32 m' base = SLOT_READY" and "mem32 m' (base + 4) = of_nat (length p)"
    and "mem32 m' (base + 8) = tx_next_sid t" and "sub_slice (base + 16) (base + 16 + length p) m' = p"
    and "\<And>a b. BAR_RING_BASE \<le> a \<Longrightarrow> b \<le> length m \<Longrightarrow> b \<le> base \<or> base + s \<le> a \<Longrightarrow> sub_slice a b m' = sub_slice a b m"
    and "published m m' base t p"
proof -
  let ?w = "\<lambda>v :: u32. rev (to_be_bytes 4 v)"
  define m1 where "m1 = copy_at (base + 16) p m"
  define m2 where "m2 = copy_at (base + 4) (?w (of_nat (length p))) m1"
  define m3 where "m3 = copy_at (base + 8) (?w (tx_next_sid t)) m2"
  define m4 where "m4 = copy_at base (?w SLOT_READY) m3"
  define m5 where "m5 = copy_at BAR_DOORBELL (?w (ucast (tx_tail t + 1))) m4"
  have b: "4096 \<le> base" using assms(2) by (simp add: BAR_RING_BASE_def)
  have l: "length m1 = length m" "length m2 = length m" "length m3 = length m" "length m4 = length m" "length m5 = length m"
    using assms b by (simp_all add: m1_def m2_def m3_def m4_def m5_def BAR_DOORBELL_def)
  have "publish m t base p = Inr (tx_next_sid t, m5, t\<lparr>tx_tail := tx_tail t + 1, tx_next_sid := tx_next_sid t + 1\<rparr>)"
    using assms b l
    by (simp add: publish_def bar_copy_def bar_slot_ptr_def bar_write32_def slot_layout Let_def m1_def [symmetric]
        m2_def [symmetric] m3_def [symmetric] m4_def [symmetric] BAR_DOORBELL_def)
      (simp add: m5_def BAR_DOORBELL_def)
  moreover have f: "sub_slice a c m5 = sub_slice a c m4" if "4096 \<le> a" "c \<le> length m" for a c
    unfolding m5_def using that b l assms(1) by (intro slice_copy_disjoint) (simp_all add: BAR_DOORBELL_def)
  have g: "mem32 m5 a = mem32 m4 a" if "4096 \<le> a" "a + 4 \<le> length m" for a
    using f [OF that] by (simp add: mem32_def)
  have "mem32 m5 base = SLOT_READY"
    using g [of base] b assms l mem32_write [of base m3 SLOT_READY] by (simp add: m4_def)
  moreover have "mem32 m5 (base + 4) = of_nat (length p)"
    using g [of "base + 4"] b assms l mem32_write [of "base + 4" m1 "of_nat (length p)"]
    by (simp add: m4_def m3_def mem32_copy) (simp add: m2_def)
  moreover have "mem32 m5 (base + 8) = tx_next_sid t"
    using g [of "base + 8"] b assms l mem32_write [of "base + 8" m2 "tx_next_sid t"]
    by (simp add: m4_def mem32_copy) (simp add: m3_def)
  moreover have "sub_slice (base + 16) (base + 16 + length p) m5 = p"
    using f [of "base + 16" "base + 16 + length p"] b assms l sub_slice_copy_at_same [of "base + 16" p m]
    by (simp add: m4_def m3_def m2_def slice_copy_disjoint) (simp add: m1_def)
  moreover have "sub_slice a c m5 = sub_slice a c m"
    if "BAR_RING_BASE \<le> a" "c \<le> length m" "c \<le> base \<or> base + s \<le> a" for a c
  proof -
    have "sub_slice a c m5 = sub_slice a c m4" using that f by (simp add: BAR_RING_BASE_def)
    also have "\<dots> = sub_slice a c m3" unfolding m4_def using that assms l by (intro slice_copy_disjoint) auto
    also have "\<dots> = sub_slice a c m2" unfolding m3_def using that assms l by (intro slice_copy_disjoint) auto
    also have "\<dots> = sub_slice a c m1" unfolding m2_def using that assms l by (intro slice_copy_disjoint) auto
    also have "\<dots> = sub_slice a c m" unfolding m1_def using that assms by (intro slice_copy_disjoint) auto
    finally show ?thesis .
  qed
  moreover have "mem32 m5 BAR_DOORBELL = ucast (tx_tail t + 1)"
    unfolding m5_def using b l assms(1) by (intro mem32_write) (simp add: BAR_DOORBELL_def)
  moreover have "m5 ! x = m ! x"
    if "x < length m" "x \<notin> {BAR_DOORBELL..<BAR_DOORBELL + 4} \<union> {base..<base + 12} \<union> {base + 16..<base + 16 + length p}" for x
  proof -
    have "m5 ! x = m4 ! x" unfolding m5_def using that l b assms(1) by (subst nth_copy_at) (auto simp: BAR_DOORBELL_def)
    also have "\<dots> = m3 ! x" unfolding m4_def using that l assms by (subst nth_copy_at) auto
    also have "\<dots> = m2 ! x" unfolding m3_def using that l assms by (subst nth_copy_at) auto
    also have "\<dots> = m1 ! x" unfolding m2_def using that l assms by (subst nth_copy_at) auto
    also have "\<dots> = m ! x" unfolding m1_def using that assms by (subst nth_copy_at) auto
    finally show ?thesis .
  qed
  ultimately show ?thesis using that l(5) by (simp add: published_def)
qed

lemma publish_ok:
  assumes "base + s \<le> length m" and "BAR_RING_BASE \<le> base" and "16 \<le> s" and "16 + length p \<le> s"
    and "base + 16 < length m"
  obtains m' where "publish m t base p = Inr (tx_next_sid t, m', t\<lparr>tx_tail := tx_tail t + 1, tx_next_sid := tx_next_sid t + 1\<rparr>)"
    and "length m' = length m" and "mem32 m' base = SLOT_READY" and "mem32 m' (base + 4) = of_nat (length p)"
    and "mem32 m' (base + 8) = tx_next_sid t" and "sub_slice (base + 16) (base + 16 + length p) m' = p"
    and "\<And>a b. BAR_RING_BASE \<le> a \<Longrightarrow> b \<le> length m \<Longrightarrow> b \<le> base \<or> base + s \<le> a \<Longrightarrow> sub_slice a b m' = sub_slice a b m"
proof -
  show ?thesis by (rule publish_full [OF assms, where t = t]) (rule that, (assumption | fast)+)
qed

lemma spin_wait_spec:
  assumes "\<And>k. base + 4 \<le> length (mem k)" and "s \<le> SPIN_LIMIT"
  shows "spin_wait mem base s =
    Inr (if \<exists>k. s \<le> k \<and> k \<le> SPIN_LIMIT \<and> mem32 (mem k) base = SLOT_FREE
         then Some (LEAST k. s \<le> k \<and> mem32 (mem k) base = SLOT_FREE) else None)"
  using assms(2)
proof (induction "SPIN_LIMIT - s" arbitrary: s rule: less_induct)
  case less
  let ?free = "\<lambda>k. mem32 (mem k) base = SLOT_FREE"
  have r: "bar_read32 (mem s) (base + SLOT_HDR_STATUS) = Inr (mem32 (mem s) base)"
    using assms(1) by (simp add: bar_read32_ok SLOT_HDR_STATUS_def)
  show ?case
  proof (cases "?free s")
    case True
    then have "(LEAST k. s \<le> k \<and> ?free k) = s" by (intro Least_equality) auto
    then show ?thesis using True r less.prems by (subst spin_wait.simps) auto
  next
    case False
    then have e: "(s \<le> k \<and> ?free k) = (Suc s \<le> k \<and> ?free k)" for k by (metis Suc_leD Suc_leI le_neq_implies_less)
    have ex: "(\<exists>k. s \<le> k \<and> k \<le> SPIN_LIMIT \<and> ?free k) = (\<exists>k. Suc s \<le> k \<and> k \<le> SPIN_LIMIT \<and> ?free k)"
      using e by blast
    have le: "(LEAST k. s \<le> k \<and> ?free k) = (LEAST k. Suc s \<le> k \<and> ?free k)" unfolding e ..
    show ?thesis
    proof (cases "s < SPIN_LIMIT")
      case True
      have "spin_wait mem base s = spin_wait mem base (Suc s)"
        using False True r by (subst spin_wait.simps) simp
      also have "\<dots> = Inr (if \<exists>k. Suc s \<le> k \<and> k \<le> SPIN_LIMIT \<and> ?free k
          then Some (LEAST k. Suc s \<le> k \<and> ?free k) else None)"
        by (rule less.hyps) (use True in simp_all)
      finally show ?thesis unfolding ex le .
    next
      case last: False
      with less.prems have "s = SPIN_LIMIT" by simp
      moreover from this False have "\<not> (\<exists>k. s \<le> k \<and> k \<le> SPIN_LIMIT \<and> ?free k)" by (metis le_antisym)
      ultimately show ?thesis using False r by (subst spin_wait.simps) simp
    qed
  qed
qed

text \<open>The wait without a limit finds the slot free where the limited one does, and otherwise does not
  come back.\<close>

lemma spin_forever_agrees: "spin_wait mem base s = Inr (Some k) \<Longrightarrow> spin_forever mem base s = Some (Inr k)"
proof (induction mem base s rule: spin_wait.induct)
  case (1 mem base s)
  then show ?case
    by (auto simp: spin_wait.simps [of mem base s] spin_forever.simps [of mem base s] try_bind_eq_Inr
        split: if_splits)
qed

lemma spin_forever_returns:
  assumes "spin_forever mem base s = Some r"
  shows "\<exists>k. \<forall>v. bar_read32 (mem k) (base + SLOT_HDR_STATUS) = Inr v \<longrightarrow> v = SLOT_FREE"
proof (rule spin_forever.raw_induct [where P = "\<lambda>mem base s r.
    \<exists>k. \<forall>v. bar_read32 (mem k) (base + SLOT_HDR_STATUS) = Inr v \<longrightarrow> v = SLOT_FREE", OF _ assms])
  fix sf :: "(nat \<Rightarrow> bytes) \<Rightarrow> nat \<Rightarrow> nat \<Rightarrow> nat panics option" and mem base s r
  let ?free = "\<lambda>(mem :: nat \<Rightarrow> bytes) base. \<exists>k. \<forall>v. bar_read32 (mem k) (base + SLOT_HDR_STATUS) = Inr v \<longrightarrow> v = SLOT_FREE"
  assume IH: "\<And>mem base s r. sf mem base s = Some r \<Longrightarrow> ?free mem base"
    and step: "(case bar_read32 (mem s) (base + SLOT_HDR_STATUS) of Inl e \<Rightarrow> Some (Inl e)
      | Inr status \<Rightarrow> if status \<noteq> SLOT_FREE then sf mem base (s + 1) else Some (Inr s)) = Some r"
  show "?free mem base"
  proof (cases "\<exists>v. bar_read32 (mem s) (base + SLOT_HDR_STATUS) = Inr v \<and> v \<noteq> SLOT_FREE")
    case True
    with step have "sf mem base (s + 1) = Some r" by auto
    then show ?thesis by (rule IH)
  next
    case False
    then show ?thesis by blast
  qed
qed

lemma submit_unchecked_agrees:
  "submit mem t p = Inr (Inr out) \<Longrightarrow> submit_unchecked mem t p = Some (Inr out)"
  by (auto simp: submit_def submit_unchecked_def Let_def try_bind_eq_Inr spin_forever_agrees
      split: if_splits option.splits)

lemma submit_unchecked_stuck:
  assumes "ring_index (tx_tail t) (tx_depth t) = Inr i"
    and "\<And>k. bar_read32 (mem k) (slot_base i (tx_slot_stride t) + SLOT_HDR_STATUS) = Inr (v k)"
    and "\<And>k. v k \<noteq> SLOT_FREE"
  shows "submit_unchecked mem t p = None"
  using spin_forever_returns [of mem "slot_base i (tx_slot_stride t)" 0] assms
  by (cases "spin_forever mem (slot_base i (tx_slot_stride t)) 0") (auto simp: submit_unchecked_def Let_def)

lemma ring_index_mod:
  assumes "depth \<noteq> 0"
  shows "ring_index tail depth = Inr (unat tail mod unat depth)"
proof -
  have "unat (ucast depth :: u64) = unat depth"
    using unat_less_pow [of depth] by (simp add: unsigned_ucast_eq take_bit_nat_eq_self)
  with assms show ?thesis by (simp add: ring_index_def unat_mod_distrib)
qed

text \<open>(C18) What \<open>submit\<close> does on every branch, whatever the device does to the memory while it spins,
  provided the mapping holds the ring. It always returns, and works on slot \<open>tail mod depth\<close>. It
  refuses exactly the payloads that do not fit a slot; it reports a timeout for that slot exactly
  when none of the readings up to the limit finds it free; otherwise, in the memory of the first
  reading that finds it free, it leaves the slot ready with the length, the next sequence identifier
  and the payload, the new tail in the doorbell and every other byte unchanged, and advances tail
  and identifier by one. Whenever it accepts, \<open>submit_unchecked\<close> has the same effect; that one has no
  limit and does not come back if the slot is never freed.\<close>

theorem submit_outcome:
  assumes "is_power_of_two (tx_depth t)" and "\<And>k. ring_fits (mem k) (unat (tx_depth t)) (tx_slot_stride t)"
  shows "let i = unat (tx_tail t) mod unat (tx_depth t); base = BAR_RING_BASE + i * unat (tx_slot_stride t);
      cap = unat (tx_slot_stride t) - 16; free = (\<lambda>k. mem32 (mem k) base = SLOT_FREE);
      t' = t\<lparr>tx_tail := tx_tail t + 1, tx_next_sid := tx_next_sid t + 1\<rparr>
    in if length p > cap then submit mem t p = Inr (Inl (PayloadTooLarge (length p) cap))
       else if \<exists>k. k \<le> SPIN_LIMIT \<and> free k
       then \<exists>m'. submit mem t p = Inr (Inr (tx_next_sid t, m', t'))
         \<and> submit_unchecked mem t p = Some (Inr (tx_next_sid t, m', t')) \<and> published (mem (LEAST k. free k)) m' base t p
       else submit mem t p = Inr (Inl (RingTimeout i)) \<and> ((\<forall>k. \<not> free k) \<longrightarrow> submit_unchecked mem t p = None)"
proof -
  let ?s = "tx_slot_stride t"
  define i where "i = unat (tx_tail t) mod unat (tx_depth t)"
  have d: "tx_depth t \<noteq> 0" using assms(1) by (simp add: is_power_of_two_def)
  then have i: "i < unat (tx_depth t)" by (simp add: i_def unat_gt_0)
  have s: "16 < unat ?s" using assms(2) by (simp add: ring_fits_def)
  note cap = tx_capacity [OF s]
  note ri = ring_index_mod [OF d, of "tx_tail t", folded i_def]
  note fit = slot_in_ring [OF assms(2) i]
  define free where "free = (\<lambda>k. mem32 (mem k) (slot_base i ?s) = SLOT_FREE)"
  let ?t' = "t\<lparr>tx_tail := tx_tail t + 1, tx_next_sid := tx_next_sid t + 1\<rparr>"
  have b: "slot_base i ?s + 4 \<le> length (mem k)" for k using fit(1) [of k] s by simp
  have stuck: "submit_unchecked mem t p = None" if "\<forall>k. \<not> free k"
    using that b by (intro submit_unchecked_stuck [OF ri]) (auto simp: SLOT_HDR_STATUS_def bar_read32_ok free_def)
  from spin_wait_spec [OF b le0] have sw: "spin_wait mem (slot_base i ?s) 0 =
    Inr (if \<exists>k \<le> SPIN_LIMIT. free k then Some (LEAST k. free k) else None)" by (simp add: free_def)
  have pub: "\<exists>m'. publish (mem k) t (slot_base i ?s) p = Inr (tx_next_sid t, m', ?t') \<and> published (mem k) m' (slot_base i ?s) t p"
    if "length p \<le> unat ?s - 16" for k
    by (rule publish_full [OF fit(1) [of k] fit(2), where p = p and t = t]) (use that s fit(1) [of k] in auto)
  have acc: "\<exists>m'. submit mem t p = Inr (Inr (tx_next_sid t, m', ?t')) \<and> submit_unchecked mem t p = Some (Inr (tx_next_sid t, m', ?t'))
      \<and> published (mem (LEAST k. free k)) m' (slot_base i ?s) t p" if "length p \<le> unat ?s - 16" "\<exists>k \<le> SPIN_LIMIT. free k"
  proof -
    from pub [OF that(1)] obtain m' where m': "publish (mem (LEAST k. free k)) t (slot_base i ?s) p = Inr (tx_next_sid t, m', ?t')"
      "published (mem (LEAST k. free k)) m' (slot_base i ?s) t p" by blast
    with that sw have "submit mem t p = Inr (Inr (tx_next_sid t, m', ?t'))" by (simp add: submit_def cap ri Let_def)
    with submit_unchecked_agrees m'(2) show ?thesis by blast
  qed
  have "submit mem t p = Inr (Inl (PayloadTooLarge (length p) (unat ?s - 16)))" if "length p > unat ?s - 16"
    using that by (simp add: submit_def cap ri Let_def)
  moreover have "submit mem t p = Inr (Inl (RingTimeout i))" if "length p \<le> unat ?s - 16" "\<not> (\<exists>k \<le> SPIN_LIMIT. free k)"
    using that sw by (auto simp: submit_def cap ri Let_def)
  ultimately show ?thesis using acc stuck
    unfolding Let_def i_def [symmetric] slot_base_def [symmetric] free_def
    by (cases "length p > unat ?s - 16"; cases "\<exists>k \<le> SPIN_LIMIT. mem32 (mem k) (slot_base i ?s) = SLOT_FREE") auto
qed

theorem submit_outcome_witness:
  "let t = (tx_with_params 2 100)\<lparr>tx_tail := 5, tx_next_sid := 5\<rparr>; m = replicate 5000 0 in is_power_of_two (tx_depth t)
     \<and> ring_fits m (unat (tx_depth t)) (tx_slot_stride t)
     \<and> (\<exists>m'. submit (\<lambda>_. m) t [1, 2, 3] = Inr (Inr (5, m', t\<lparr>tx_tail := 6, tx_next_sid := 6\<rparr>))
          \<and> mem32 m' (BAR_RING_BASE + 128) = SLOT_READY \<and> sub_slice (BAR_RING_BASE + 144) (BAR_RING_BASE + 147) m' = [1, 2, 3])"
proof -
  define t where "t = (tx_with_params 2 100)\<lparr>tx_tail := 5, tx_next_sid := 5\<rparr>"
  define m :: bytes where "m = replicate 5000 0"
  have s: "tx_slot_stride t = 128" "tx_depth t = 2" "tx_next_sid t = 5" "tx_tail t = 5" unfolding t_def by code_simp+
  have p: "is_power_of_two (tx_depth t)" unfolding s by code_simp
  have f: "ring_fits m (unat (tx_depth t)) (tx_slot_stride t)" by (simp add: ring_fits_def s BAR_RING_BASE_def m_def)
  have "sub_slice (BAR_RING_BASE + 128) (BAR_RING_BASE + 128 + 4) m = replicate 4 0"
    by (simp add: sub_slice_def BAR_RING_BASE_def m_def)
  then have z: "mem32 m (BAR_RING_BASE + 128) = SLOT_FREE"
    by (simp add: mem32_def from_be_bytes_def nat_of_be_def SLOT_FREE_def numeral_eq_Suc)
  have "\<exists>k. k \<le> SPIN_LIMIT" by (rule exI [of _ 0]) simp
  with submit_outcome [where mem = "\<lambda>_. m" and p = "[1, 2, 3]", OF p f] z
  obtain m' where "submit (\<lambda>_. m) t [1, 2, 3] = Inr (Inr (5, m', t\<lparr>tx_tail := 6, tx_next_sid := 6\<rparr>))"
    and "published m m' (BAR_RING_BASE + 128) t [1, 2, 3]" by (auto simp: s Let_def)
  then show ?thesis using p f unfolding t_def [symmetric] m_def [symmetric] Let_def
    by (auto simp: published_def ac_simps)
qed

section \<open>Host and device\<close>

record ring_sys =
  rs_mem :: bytes
  rs_tx :: tx_ring
  rs_cr :: completion_ring
  rs_subs :: "bytes list"
  rs_got :: "u32 list"

inductive ring_step :: "ring_sys \<Rightarrow> ring_sys \<Rightarrow> bool" where
  Submit: "submit (\<lambda>_. rs_mem r) (rs_tx r) p = Inr (Inr (sid, m, t)) \<Longrightarrow>
    ring_step r (r\<lparr>rs_mem := m, rs_tx := t, rs_subs := rs_subs r @ [p]\<rparr>)"
| Poll: "poll (rs_mem r) (rs_cr r) = Inr (Some c, m, cr) \<Longrightarrow>
    ring_step r (r\<lparr>rs_mem := m, rs_cr := cr, rs_got := rs_got r @ [rc_sequence_id c]\<rparr>)"
| Device: "i < unat (tx_depth (rs_tx r)) \<Longrightarrow> base = slot_base i (tx_slot_stride (rs_tx r)) \<Longrightarrow>
    bar_read32 (rs_mem r) base = Inr SLOT_READY \<Longrightarrow> bar_write32 (rs_mem r) base SLOT_DONE = Inr m \<Longrightarrow>
    ring_step r (r\<lparr>rs_mem := m\<rparr>)"
| Registers: "length m = length (rs_mem r) \<Longrightarrow> drop BAR_RING_BASE m = drop BAR_RING_BASE (rs_mem r) \<Longrightarrow>
    ring_step r (r\<lparr>rs_mem := m\<rparr>)"

inductive ring_reach :: "ring_sys \<Rightarrow> ring_sys \<Rightarrow> bool" for r0 :: ring_sys where
  Here: "ring_reach r0 r0"
| Next: "ring_reach r0 r \<Longrightarrow> ring_step r r' \<Longrightarrow> ring_reach r0 r'"

section \<open>Invariant\<close>

definition slot_holds :: "bytes \<Rightarrow> u32 \<Rightarrow> nat \<Rightarrow> nat \<Rightarrow> bytes \<Rightarrow> bool" where
  "slot_holds m s i k p \<longleftrightarrow> mem32 m (slot_base i s) \<in> {SLOT_READY, SLOT_DONE}
     \<and> mem32 m (slot_base i s + 4) = of_nat (length p) \<and> mem32 m (slot_base i s + 8) = of_nat k
     \<and> 16 + length p \<le> unat s \<and> sub_slice (slot_base i s + 16) (slot_base i s + 16 + length p) m = p"

definition slot_free :: "bytes \<Rightarrow> u32 \<Rightarrow> nat \<Rightarrow> bool" where
  "slot_free m s i \<longleftrightarrow> mem32 m (slot_base i s) = SLOT_FREE"

definition ring_conf :: "nat \<Rightarrow> ring_sys \<Rightarrow> bool" where
  "ring_conf e r \<longleftrightarrow> e < 32 \<and> unat (tx_depth (rs_tx r)) = 2 ^ e \<and> cr_depth (rs_cr r) = tx_depth (rs_tx r)
     \<and> cr_slot_stride (rs_cr r) = tx_slot_stride (rs_tx r) \<and> ring_fits (rs_mem r) (2 ^ e) (tx_slot_stride (rs_tx r))
     \<and> tx_tail (rs_tx r) = of_nat (length (rs_subs r)) \<and> tx_next_sid (rs_tx r) = of_nat (length (rs_subs r))
     \<and> cr_head (rs_cr r) = of_nat (length (rs_got r)) \<and> rs_got r = map of_nat [0..<length (rs_got r)]
     \<and> length (rs_got r) \<le> length (rs_subs r) \<and> length (rs_subs r) \<le> length (rs_got r) + 2 ^ e"

text \<open>The window of the \<open>2 ^ e\<close> positions from the next one to be polled: those submitted hold their
  payload and identifier, the others are free.\<close>

definition ring_slots :: "nat \<Rightarrow> ring_sys \<Rightarrow> bool" where
  "ring_slots e r \<longleftrightarrow> (\<forall>j. length (rs_got r) \<le> j \<longrightarrow> j < length (rs_got r) + 2 ^ e \<longrightarrow>
     (if j < length (rs_subs r) then slot_holds (rs_mem r) (tx_slot_stride (rs_tx r)) (j mod 2 ^ e) j (rs_subs r ! j)
      else slot_free (rs_mem r) (tx_slot_stride (rs_tx r)) (j mod 2 ^ e)))"

text \<open>Slots that a step leaves alone.\<close>

definition slot_same :: "bytes \<Rightarrow> bytes \<Rightarrow> u32 \<Rightarrow> nat \<Rightarrow> bool" where
  "slot_same m m' s i \<longleftrightarrow> (\<forall>a b. slot_base i s \<le> a \<longrightarrow> b \<le> slot_base i s + unat s \<longrightarrow> sub_slice a b m' = sub_slice a b m)"

lemma slot_same_views:
  assumes "slot_same m m' s i" and "16 < unat s"
  shows "slot_holds m' s i k p = slot_holds m s i k p" and "slot_free m' s i = slot_free m s i"
proof -
  have v: "mem32 m' (slot_base i s + d) = mem32 m (slot_base i s + d)" if "d \<le> 12" for d
    using assms that by (simp add: slot_same_def mem32_def)
  have w: "mem32 m' (slot_base i s) = mem32 m (slot_base i s)" using v [of 0] by simp
  show "slot_free m' s i = slot_free m s i" by (simp add: slot_free_def w)
  show "slot_holds m' s i k p = slot_holds m s i k p"
    using assms(1) v [of 4] v [of 8] by (auto simp: slot_holds_def w slot_same_def)
qed

lemma window_mod:
  fixes j k g n :: nat
  assumes "g \<le> j" "j < g + n" "g \<le> k" "k < g + n" "j mod n = k mod n"
  shows "j = k"
proof -
  have *: "a = b" if "a \<le> b" "b < a + n" "a mod n = b mod n" for a b :: nat
  proof -
    have "n dvd b - a" using that mod_eq_dvd_iff_nat by metis
    moreover have "b - a < n" using that by simp
    ultimately have "b - a = 0" by (metis dvd_imp_le not_less zero_less_iff_neq_zero)
    then show ?thesis using that by simp
  qed
  show ?thesis using * [of j k] * [of k j] assms by (metis le_cases le_less_trans less_le_trans add_le_mono1)
qed

text \<open>A status word written into slot \<open>i\<close>.\<close>

lemma status_write:
  assumes "ring_fits m n s" and "i < n" and "bar_write32 m (slot_base i s) v = Inr m'"
  shows "length m' = length m" and "mem32 m' (slot_base i s) = v"
    and "j \<noteq> i \<Longrightarrow> j < n \<Longrightarrow> slot_same m m' s j"
    and "slot_base i s + 4 \<le> a \<Longrightarrow> b \<le> slot_base i s + unat s \<Longrightarrow> sub_slice a b m' = sub_slice a b m"
proof -
  note fit = slot_in_ring [OF assms(1,2)]
  have s: "16 < unat s" using assms(1) by (simp add: ring_fits_def)
  have m': "m' = copy_at (slot_base i s) (rev (to_be_bytes 4 v)) m"
    using assms(3) by (simp add: bar_write32_def split: if_splits)
  show "length m' = length m" using fit s by (simp add: m')
  show "mem32 m' (slot_base i s) = v" unfolding m' using fit s by (intro mem32_write) simp
  show "slot_same m m' s j" if "j \<noteq> i" "j < n"
    unfolding slot_same_def m'
    using slot_apart [OF that(1), of s] fit s slot_in_ring(1) [OF assms(1) that(2)]
    by (intro allI impI slice_copy_disjoint) auto
  show "sub_slice a b m' = sub_slice a b m" if "slot_base i s + 4 \<le> a" "b \<le> slot_base i s + unat s"
    unfolding m' using fit s that by (intro slice_copy_disjoint) auto
qed

lemma inv_slot:
  assumes "ring_slots e r" and "length (rs_got r) \<le> j" and "j < length (rs_got r) + 2 ^ e"
  shows "j < length (rs_subs r) \<Longrightarrow> slot_holds (rs_mem r) (tx_slot_stride (rs_tx r)) (j mod 2 ^ e) j (rs_subs r ! j)"
    and "\<not> j < length (rs_subs r) \<Longrightarrow> slot_free (rs_mem r) (tx_slot_stride (rs_tx r)) (j mod 2 ^ e)"
  using assms by (auto simp: ring_slots_def)

lemma free_not_held: "slot_free m s i \<Longrightarrow> \<not> slot_holds m s i k p"
  by (auto simp: slot_free_def slot_holds_def slot_states)

lemma submit_inv:
  assumes conf: "ring_conf e r" and inv: "ring_slots e r" and s: "submit (\<lambda>_. rs_mem r) (rs_tx r) p = Inr (Inr (sid, m, t))"
  shows "ring_conf e (r\<lparr>rs_mem := m, rs_tx := t, rs_subs := rs_subs r @ [p]\<rparr>)" and "ring_slots e (r\<lparr>rs_mem := m, rs_tx := t, rs_subs := rs_subs r @ [p]\<rparr>)"
proof -
  let ?s = "tx_slot_stride (rs_tx r)" and ?n = "2 ^ e :: nat" and ?T = "length (rs_subs r)" and ?g = "length (rs_got r)"
  let ?i = "?T mod ?n"
  note I = conf [unfolded ring_conf_def]
  have i: "?i < ?n" by simp
  have fits: "ring_fits (rs_mem r) ?n ?s" using I by simp
  note fit = slot_in_ring [OF fits i]
  have st: "16 < unat ?s" using fits by (simp add: ring_fits_def)
  have ri: "ring_index (tx_tail (rs_tx r)) (tx_depth (rs_tx r)) = Inr ?i" using I ring_index_count by simp
  note cap = tx_capacity [OF st]
  have sw: "spin_wait (\<lambda>_. rs_mem r) (slot_base ?i ?s) 0 =
    Inr (if \<exists>k. k \<le> SPIN_LIMIT \<and> mem32 (rs_mem r) (slot_base ?i ?s) = SLOT_FREE
         then Some (LEAST k. mem32 (rs_mem r) (slot_base ?i ?s) = SLOT_FREE) else None)"
    using spin_wait_spec [of "slot_base ?i ?s" "\<lambda>_. rs_mem r" 0] fit(1) st by simp
  have free: "slot_free (rs_mem r) ?s ?i" and len: "16 + length p \<le> unat ?s"
    and pub: "publish (rs_mem r) (rs_tx r) (slot_base ?i ?s) p = Inr (sid, m, t)"
    using s st by (auto simp: submit_def ri cap sw Let_def slot_free_def try_bind_eq_Inr split: if_splits)
  have "?T < ?g + ?n"
  proof (rule ccontr)
    assume "\<not> ?T < ?g + ?n"
    then have T: "?T = ?g + ?n" using I by simp
    then have "slot_holds (rs_mem r) ?s (?g mod ?n) ?g (rs_subs r ! ?g)" using inv_slot(1) [OF inv le_refl] by simp
    moreover have "?g mod ?n = ?i" by (simp add: T)
    ultimately show False using free free_not_held by metis
  qed
  from publish_ok [OF fit _ len, where t = "rs_tx r"] st fit(1) obtain m' where
    p': "publish (rs_mem r) (rs_tx r) (slot_base ?i ?s) p
        = Inr (tx_next_sid (rs_tx r), m', (rs_tx r)\<lparr>tx_tail := tx_tail (rs_tx r) + 1, tx_next_sid := tx_next_sid (rs_tx r) + 1\<rparr>)"
      "length m' = length (rs_mem r)" "mem32 m' (slot_base ?i ?s) = SLOT_READY"
      "mem32 m' (slot_base ?i ?s + 4) = of_nat (length p)" "mem32 m' (slot_base ?i ?s + 8) = tx_next_sid (rs_tx r)"
      "sub_slice (slot_base ?i ?s + 16) (slot_base ?i ?s + 16 + length p) m' = p"
      "\<And>a b. BAR_RING_BASE \<le> a \<Longrightarrow> b \<le> length (rs_mem r) \<Longrightarrow> b \<le> slot_base ?i ?s \<or> slot_base ?i ?s + unat ?s \<le> a \<Longrightarrow>
         sub_slice a b m' = sub_slice a b (rs_mem r)" by auto
  have m: "m = m'" and t: "t = (rs_tx r)\<lparr>tx_tail := tx_tail (rs_tx r) + 1, tx_next_sid := tx_next_sid (rs_tx r) + 1\<rparr>"
    using pub unfolding p'(1) by auto
  have new: "slot_holds m ?s ?i ?T p" using p' len I by (simp add: slot_holds_def m)
  have same: "slot_same (rs_mem r) m ?s j" if "j \<noteq> ?i" "j < ?n" for j
    unfolding slot_same_def m
    using slot_apart [OF that(1), of ?s] slot_in_ring [OF fits that(2)] by (intro allI impI p'(7)) auto
  have slots: "if j < Suc ?T then slot_holds m ?s (j mod ?n) j ((rs_subs r @ [p]) ! j) else slot_free m ?s (j mod ?n)"
    if j: "?g \<le> j" "j < ?g + ?n" for j
  proof (cases "j = ?T")
    case True
    then show ?thesis using new by simp
  next
    case False
    then have "j mod ?n \<noteq> ?i" using window_mod [OF j, of ?T] \<open>?T < ?g + ?n\<close> I by auto
    note v = slot_same_views [OF same [OF this] st]
    show ?thesis using inv_slot [OF inv j] False v by (auto simp: nth_append)
  qed
  let ?r = "r\<lparr>rs_mem := m, rs_tx := t, rs_subs := rs_subs r @ [p]\<rparr>"
  show "ring_conf e ?r" using I \<open>?T < ?g + ?n\<close> p'(2) by (simp add: ring_conf_def t m ring_fits_def)
  show "ring_slots e ?r" unfolding ring_slots_def using slots by (simp add: t)
qed

lemma poll_inv:
  assumes conf: "ring_conf e r" and inv: "ring_slots e r" and p: "poll (rs_mem r) (rs_cr r) = Inr (Some c, m, cr)"
  shows "ring_conf e (r\<lparr>rs_mem := m, rs_cr := cr, rs_got := rs_got r @ [rc_sequence_id c]\<rparr>)" and "ring_slots e (r\<lparr>rs_mem := m, rs_cr := cr, rs_got := rs_got r @ [rc_sequence_id c]\<rparr>)"
proof -
  let ?s = "tx_slot_stride (rs_tx r)" and ?n = "2 ^ e :: nat" and ?T = "length (rs_subs r)" and ?g = "length (rs_got r)"
  let ?i = "?g mod ?n"
  note I = conf [unfolded ring_conf_def]
  have i: "?i < ?n" by simp
  have fits: "ring_fits (rs_mem r) ?n ?s" using I by simp
  note fit = slot_in_ring [OF fits i]
  have st: "16 < unat ?s" using fits by (simp add: ring_fits_def)
  have ri: "ring_index (cr_head (rs_cr r)) (cr_depth (rs_cr r)) = Inr ?i" using I ring_index_count by simp
  have r32: "bar_read32 (rs_mem r) (slot_base ?i ?s + d) = Inr (mem32 (rs_mem r) (slot_base ?i ?s + d))" if "d \<le> 12" for d
    using fit(1) st that by (intro bar_read32_ok) simp
  have cs: "cr_slot_stride (rs_cr r) = ?s" using I by simp
  have dn: "mem32 (rs_mem r) (slot_base ?i ?s) = SLOT_DONE" and c: "rc_sequence_id c = mem32 (rs_mem r) (slot_base ?i ?s + 8)"
    and w: "bar_write32 (rs_mem r) (slot_base ?i ?s) SLOT_FREE = Inr m" and cr: "cr = (rs_cr r)\<lparr>cr_head := cr_head (rs_cr r) + 1\<rparr>"
    using p r32 [of 0] r32 [of 8]
    by (auto simp: poll_def ri cs Let_def slot_layout try_bind_eq_Inr split: if_splits)
  have "?g < ?T"
  proof (rule ccontr)
    assume "\<not> ?g < ?T"
    then have "slot_free (rs_mem r) ?s ?i" using inv_slot(2) [OF inv le_refl] by simp
    then show False using dn by (simp add: slot_free_def slot_states)
  qed
  then have sid: "rc_sequence_id c = of_nat ?g"
    using inv_slot(1) [OF inv le_refl] c by (simp add: slot_holds_def)
  note sw = status_write [OF fits i w]
  have slots: "if j < ?T then slot_holds m ?s (j mod ?n) j (rs_subs r ! j) else slot_free m ?s (j mod ?n)"
    if j: "Suc ?g \<le> j" "j < Suc ?g + ?n" for j
  proof (cases "j = ?g + ?n")
    case True
    then show ?thesis using I sw(2) by (simp add: slot_free_def)
  next
    case False
    then have j': "?g \<le> j" "j < ?g + ?n" using j by simp_all
    have "j mod ?n \<noteq> ?i" using window_mod [OF j' le_refl] j by auto
    note v = slot_same_views [OF sw(3) [OF this] st]
    show ?thesis using inv_slot [OF inv j'] v by auto
  qed
  have got: "rs_got r @ [of_nat ?g] = map of_nat [0..<Suc ?g]" using I by (metis list.simps(8,9) map_append upt_Suc_append zero_le)
  let ?r = "r\<lparr>rs_mem := m, rs_cr := cr, rs_got := rs_got r @ [rc_sequence_id c]\<rparr>"
  show "ring_conf e ?r" using I \<open>?g < ?T\<close> sw(1) got by (simp add: ring_conf_def cr sid ring_fits_def)
  show "ring_slots e ?r" unfolding ring_slots_def using slots by simp
qed

lemma device_inv:
  assumes conf: "ring_conf e r" and inv: "ring_slots e r" and i: "i < unat (tx_depth (rs_tx r))" and base: "base = slot_base i (tx_slot_stride (rs_tx r))"
    and rd: "bar_read32 (rs_mem r) base = Inr SLOT_READY" and w: "bar_write32 (rs_mem r) base SLOT_DONE = Inr m"
  shows "ring_conf e (r\<lparr>rs_mem := m\<rparr>)" and "ring_slots e (r\<lparr>rs_mem := m\<rparr>)"
proof -
  let ?s = "tx_slot_stride (rs_tx r)" and ?n = "2 ^ e :: nat" and ?T = "length (rs_subs r)" and ?g = "length (rs_got r)"
  note I = conf [unfolded ring_conf_def]
  have i: "i < ?n" and fits: "ring_fits (rs_mem r) ?n ?s" using I i by simp_all
  have st: "16 < unat ?s" using fits by (simp add: ring_fits_def)
  note sw = status_write [OF fits i w [unfolded base]]
  have ready: "mem32 (rs_mem r) (slot_base i ?s) = SLOT_READY"
    using rd by (simp add: base bar_read32_def mem32_def split: if_splits)
  have kept: "slot_holds m ?s i k p" if "slot_holds (rs_mem r) ?s i k p" for k p
    using that sw(2,4) by (simp add: slot_holds_def mem32_def st)
  have slots: "if j < ?T then slot_holds m ?s (j mod ?n) j (rs_subs r ! j) else slot_free m ?s (j mod ?n)"
    if j: "?g \<le> j" "j < ?g + ?n" for j
  proof (cases "j mod ?n = i")
    case True
    then have "j < ?T" using inv_slot(2) [OF inv j] ready by (auto simp: slot_free_def slot_states)
    then show ?thesis using inv_slot(1) [OF inv j] kept True by simp
  next
    case False
    note v = slot_same_views [OF sw(3) [OF False] st]
    show ?thesis using inv_slot [OF inv j] v by auto
  qed
  show "ring_conf e (r\<lparr>rs_mem := m\<rparr>)" using I sw(1) by (simp add: ring_conf_def ring_fits_def)
  show "ring_slots e (r\<lparr>rs_mem := m\<rparr>)" unfolding ring_slots_def using slots by simp
qed

lemma registers_inv:
  assumes conf: "ring_conf e r" and inv: "ring_slots e r" and l: "length m = length (rs_mem r)"
    and d: "drop BAR_RING_BASE m = drop BAR_RING_BASE (rs_mem r)"
  shows "ring_conf e (r\<lparr>rs_mem := m\<rparr>)" and "ring_slots e (r\<lparr>rs_mem := m\<rparr>)"
proof -
  let ?s = "tx_slot_stride (rs_tx r)"
  note I = conf [unfolded ring_conf_def]
  have st: "16 < unat ?s" using I by (simp add: ring_fits_def)
  have "slot_same (rs_mem r) m ?s i" for i
    unfolding slot_same_def
  proof (intro allI impI)
    fix a b assume "slot_base i ?s \<le> a"
    then have a: "BAR_RING_BASE \<le> a" by (simp add: slot_base_def)
    have "drop a x = drop (a - BAR_RING_BASE) (drop BAR_RING_BASE x)" for x :: bytes using a by simp
    then show "sub_slice a b m = sub_slice a b (rs_mem r)" unfolding sub_slice_def by (metis d)
  qed
  note v = slot_same_views [OF this st]
  show "ring_conf e (r\<lparr>rs_mem := m\<rparr>)" using I l by (simp add: ring_conf_def ring_fits_def)
  show "ring_slots e (r\<lparr>rs_mem := m\<rparr>)" using inv by (simp add: ring_slots_def v)
qed

lemma step_inv: "ring_step r r' \<Longrightarrow> ring_conf e r \<and> ring_slots e r \<Longrightarrow> ring_conf e r' \<and> ring_slots e r'"
proof (induction rule: ring_step.induct)
  case (Submit r p sid m t)
  then show ?case using submit_inv by blast
next
  case (Poll r c m cr)
  then show ?case using poll_inv by blast
next
  case (Device i r base m)
  then show ?case using device_inv by blast
next
  case (Registers m r)
  then show ?case using registers_inv by blast
qed

lemma reach_ring_inv: "ring_reach r0 r \<Longrightarrow> ring_conf e r0 \<Longrightarrow> ring_slots e r0 \<Longrightarrow> ring_conf e r \<and> ring_slots e r"
  by (induction rule: ring_reach.induct) (simp_all add: step_inv)

section \<open>A queue just opened\<close>

text \<open>\<open>mmap\<close> gives a mapping of the size asked for.\<close>

definition mmap_sized :: "os_env \<Rightarrow> bool" where
  "mmap_sized os \<longleftrightarrow> (\<forall>name n m. os_mmap os name n = Some m \<longrightarrow> length m = n)"

definition ring_start :: "modq_queue \<Rightarrow> ring_sys" where
  "ring_start q = \<lparr>rs_mem = mq_bar q, rs_tx = mq_tx q, rs_cr = mq_completions q, rs_subs = [], rs_got = []\<rparr>"

lemma bar_write_length:
  "bar_write32 m off v = Inr m' \<Longrightarrow> length m' = length m" "bar_write64 m off w = Inr m' \<Longrightarrow> length m' = length m"
  by (auto simp: bar_write32_def bar_write64_def split: if_splits)

lemma init_loop:
  assumes "ring_fits m n s" and "k \<le> n"
  shows "\<exists>m'. try_fold (\<lambda>m i. bar_write32 m (BAR_RING_BASE + i * unat s) SLOT_FREE) m [0..<k] = Inr m'
    \<and> length m' = length m \<and> (\<forall>i < k. slot_free m' s i)"
  using assms(2)
proof (induction k)
  case (Suc k)
  then obtain m1 where m1: "try_fold (\<lambda>m i. bar_write32 m (BAR_RING_BASE + i * unat s) SLOT_FREE) m [0..<k] = Inr m1"
    "length m1 = length m" "\<forall>i < k. slot_free m1 s i" by auto
  have fits: "ring_fits m1 n s" and k: "k < n" using assms(1) m1(2) Suc.prems by (simp_all add: ring_fits_def)
  have s: "16 < unat s" using fits by (simp add: ring_fits_def)
  then obtain m2 where w: "bar_write32 m1 (slot_base k s) SLOT_FREE = Inr m2"
    using slot_in_ring(1) [OF fits k] by (simp add: bar_write32_def)
  note sw = status_write [OF fits k w]
  have "slot_free m2 s i" if "i < Suc k" for i
    using that m1(3) sw(2) slot_same_views(2) [OF sw(3) s, of i] k by (cases "i = k") (auto simp: slot_free_def)
  then show ?case using m1 w sw(1) by (auto simp: try_fold_append slot_base_def)
qed simp

lemma opened:
  assumes "mmap_sized os" and "mc_transport cfg = Loopback name" and "unat (mc_slot_size cfg) \<le> 2 ^ 32 - 80"
    and "modq_open os cfg = Inr (Inr q)"
  obtains e where "ring_conf e (ring_start q)" and "ring_slots e (ring_start q)"
    and "unat (mc_ring_depth cfg) = 2 ^ e" and "e < 32" and "tx_slot_stride (mq_tx q) = stride_of (mc_slot_size cfg)"
    and "tx_depth (mq_tx q) = mc_ring_depth cfg"
proof -
  let ?d = "mc_ring_depth cfg" and ?s = "stride_of (mc_slot_size cfg)"
  have st: "(mc_slot_size cfg + 16 + 63) AND NOT 63 = ?s"
    by (simp add: stride_of_def SLOT_PAYLOAD_OFFSET_def Let_def ac_simps)
  note b = stride_of_bounds [OF assms(3)]
  obtain m0 m where p: "is_power_of_two ?d" and m0: "bar_open_shm os name (BAR_RING_BASE + unat ?s * unat ?d) = Inr m0"
    and m: "init_ring m0 ?d (mc_slot_size cfg) (unat ?s) = Inr m"
    and q: "q = \<lparr>mq_bar = m, mq_tx = tx_with_params ?d (mc_slot_size cfg), mq_completions = cr_new ?d ?s, mq_config = cfg\<rparr>"
    using assms(2) assms(4) [unfolded modq_open_def Let_def st] by (auto simp: try_bind_eq_Inr split: if_splits sum.splits)
  from power_of_two_depth [OF p] obtain e where e: "e < 32" "unat ?d = 2 ^ e" .
  have "length m0 = BAR_RING_BASE + unat ?s * unat ?d"
    using m0 assms(1) by (auto simp: bar_open_shm_def mmap_sized_def ok_or_def split: if_splits option.splits)
  then have l0: "length m0 = BAR_RING_BASE + 2 ^ e * unat ?s" by (simp add: e(2) mult.commute)
  have s: "64 \<le> unat ?s" using b(2,3) by (cases "unat ?s < 64") auto
  from m obtain a b c m1 where w: "bar_write32 m0 BAR_DEPTH ?d = Inr a" "bar_write32 a BAR_SLOT_SIZE (mc_slot_size cfg) = Inr b"
    "bar_write64 b BAR_HEAD 0 = Inr c" "bar_write64 c BAR_TAIL 0 = Inr m1"
    and loop: "try_fold (\<lambda>m i. bar_write32 m (BAR_RING_BASE + i * unat ?s) SLOT_FREE) m1 [0..<unat ?d] = Inr m"
    unfolding init_ring_def try_bind_eq_Inr by blast
  have m1: "length m1 = length m0" using bar_write_length(1) [OF w(1)] bar_write_length(1) [OF w(2)] bar_write_length(2) [OF w(3)] bar_write_length(2) [OF w(4)] by simp
  have fits: "ring_fits m1 (2 ^ e) ?s" using m1 l0 s by (simp add: ring_fits_def)
  from init_loop [OF fits le_refl] loop e(2) have "length m = length m1" "\<forall>i < 2 ^ e. slot_free m ?s i" by auto
  then show ?thesis
    using that [of e] e fits by (simp add: ring_conf_def ring_slots_def ring_start_def q tx_with_params_def cr_new_def ring_fits_def)
qed

section \<open>Properties\<close>

text \<open>(C2) The contract of the ring. From a freshly opened loopback queue, after any interleaving of
  submissions, polls, device completions in any order and device register writes: the polled
  identifiers are 0, 1, 2, ... in the order of submission with none missing or repeated; at most
  \<open>ring_depth\<close> submissions are in flight; and each of them still has its identifier and its exact
  payload in its own slot, marked ready or done. Counters may have wrapped.\<close>

theorem ring_fifo:
  assumes "mmap_sized os" and "mc_transport cfg = Loopback name" and "unat (mc_slot_size cfg) \<le> 2 ^ 32 - 80"
    and "modq_open os cfg = Inr (Inr q)" and "ring_reach (ring_start q) r"
  shows "rs_got r = map of_nat [0..<length (rs_got r)]
    \<and> length (rs_got r) \<le> length (rs_subs r)
    \<and> length (rs_subs r) \<le> length (rs_got r) + unat (mc_ring_depth cfg)
    \<and> (\<forall>k. length (rs_got r) \<le> k \<and> k < length (rs_subs r) \<longrightarrow>
         slot_holds (rs_mem r) (tx_slot_stride (rs_tx r)) (k mod unat (mc_ring_depth cfg)) k (rs_subs r ! k))"
proof -
  from opened [OF assms(1-4)] obtain e where e: "ring_conf e (ring_start q)" "ring_slots e (ring_start q)"
    "unat (mc_ring_depth cfg) = 2 ^ e" by metis
  from reach_ring_inv [OF assms(5) e(1,2)] have c: "ring_conf e r" and s: "ring_slots e r" by simp_all
  show ?thesis using c inv_slot(1) [OF s] by (auto simp: ring_conf_def e(3))
qed

text \<open>(C32) The queue that \<open>ModulationQueue::open\<close> returns for a loopback transport and slot sizes up to
  \<open>2 ^ 32 - 80\<close>: both ring ends use the same depth and stride; every slot starts on a multiple of 64
  bytes, lies entirely inside the memory that was mapped, does not overlap another slot, and is
  free; and a payload of the configured size fits behind its header. For larger sizes the 32-bit
  stride wraps: at \<open>0xFFFFFFF0\<close> it is zero and the computed capacity is \<open>2 ^ 64 - 16\<close>.\<close>

theorem slot_geometry:
  assumes "mmap_sized os" and "mc_transport cfg = Loopback name" and "unat (mc_slot_size cfg) \<le> 2 ^ 32 - 80"
    and "modq_open os cfg = Inr (Inr q)"
  shows "let s = tx_slot_stride (mq_tx q) in
    tx_depth (mq_tx q) = mc_ring_depth cfg \<and> cr_depth (mq_completions q) = mc_ring_depth cfg \<and> cr_slot_stride (mq_completions q) = s
    \<and> (\<forall>i < unat (mc_ring_depth cfg). slot_base i s mod 64 = 0 \<and> slot_base i s + unat s \<le> length (mq_bar q)
         \<and> slot_free (mq_bar q) s i \<and> (\<forall>j < i. slot_base j s + unat s \<le> slot_base i s))
    \<and> unat (mc_slot_size cfg) \<le> unat (tx_slot_payload_capacity (mq_tx q))
    \<and> stride_of 0xFFFFFFF0 = 0 \<and> unat (tx_slot_payload_capacity (tx_with_params depth 0xFFFFFFF0)) = 2 ^ 64 - 16"
proof -
  from opened [OF assms] obtain e where c: "ring_conf e (ring_start q)" and sl: "ring_slots e (ring_start q)"
    and d: "unat (mc_ring_depth cfg) = 2 ^ e" and s: "tx_slot_stride (mq_tx q) = stride_of (mc_slot_size cfg)"
    and t: "tx_depth (mq_tx q) = mc_ring_depth cfg" by metis
  note b = stride_of_bounds [OF assms(3)]
  have fits: "ring_fits (mq_bar q) (2 ^ e) (tx_slot_stride (mq_tx q))"
    using c by (simp add: ring_conf_def ring_start_def)
  have "unat (mc_slot_size cfg) \<le> unat (tx_slot_payload_capacity (mq_tx q))"
    using fits b(2) by (subst tx_capacity) (simp_all add: ring_fits_def s)
  moreover have "slot_base i (tx_slot_stride (mq_tx q)) mod 64 = 0" for i
    using b(3) by (simp add: s slot_base_def BAR_RING_BASE_def mod_eq_0_iff_dvd)
  moreover have "slot_free (mq_bar q) (tx_slot_stride (mq_tx q)) i" if "i < 2 ^ e" for i
    using sl that by (simp add: ring_slots_def ring_start_def)
  moreover have z: "stride_of 0xFFFFFFF0 = 0" by code_simp
  then have "unat (tx_slot_payload_capacity (tx_with_params depth 0xFFFFFFF0)) = 2 ^ 64 - 16"
    by (simp add: tx_slot_payload_capacity_def tx_with_params_def SLOT_PAYLOAD_OFFSET_def)
  ultimately show ?thesis
    using c t z slot_in_ring(1) [OF fits] slots_disjoint by (simp add: Let_def d ring_conf_def ring_start_def)
qed

section \<open>Progress\<close>

text \<open>While fewer than \<open>ring_depth\<close> submissions are in flight, a payload that fits is accepted at the
  first reading, under the next identifier.\<close>

lemma submit_progress:
  assumes conf: "ring_conf e r" and inv: "ring_slots e r"
    and room: "length (rs_subs r) < length (rs_got r) + 2 ^ e" and len: "16 + length p \<le> unat (tx_slot_stride (rs_tx r))"
  shows "\<exists>m t. submit (\<lambda>_. rs_mem r) (rs_tx r) p = Inr (Inr (of_nat (length (rs_subs r)), m, t))"
proof -
  let ?s = "tx_slot_stride (rs_tx r)" and ?n = "2 ^ e :: nat" and ?T = "length (rs_subs r)"
  let ?i = "?T mod ?n"
  note I = conf [unfolded ring_conf_def]
  have i: "?i < ?n" by simp
  have fits: "ring_fits (rs_mem r) ?n ?s" using I by simp
  note fit = slot_in_ring [OF fits i]
  have st: "16 < unat ?s" using fits by (simp add: ring_fits_def)
  have ri: "ring_index (tx_tail (rs_tx r)) (tx_depth (rs_tx r)) = Inr ?i" using I ring_index_count by simp
  note cap = tx_capacity [OF st]
  have "slot_free (rs_mem r) ?s ?i" using inv_slot(2) [OF inv _ room] I by simp
  then have f: "mem32 (rs_mem r) (slot_base ?i ?s) = SLOT_FREE" by (simp add: slot_free_def)
  have "bar_read32 (rs_mem r) (slot_base ?i ?s + SLOT_HDR_STATUS) = Inr SLOT_FREE"
    using fit(1) st f by (simp add: bar_read32_ok SLOT_HDR_STATUS_def)
  then have sw: "spin_wait (\<lambda>_. rs_mem r) (slot_base ?i ?s) 0 = Inr (Some 0)" by (subst spin_wait.simps) simp
  have b: "slot_base ?i ?s + 16 < length (rs_mem r)" using fit(1) st by simp
  obtain m t where "publish (rs_mem r) (rs_tx r) (slot_base ?i ?s) p = Inr (tx_next_sid (rs_tx r), m, t)"
    using publish_ok [OF fit less_imp_le [OF st] len b, where t = "rs_tx r"] by metis
  then have "submit (\<lambda>_. rs_mem r) (rs_tx r) p = Inr (Inr (tx_next_sid (rs_tx r), m, t))"
    using len by (simp add: submit_def ri cap sw Let_def)
  then show ?thesis using I by simp
qed

lemma open_succeeds:
  assumes "mmap_sized os" and "mc_transport cfg = Loopback name" and "unat (mc_slot_size cfg) \<le> 2 ^ 32 - 80"
    and "is_power_of_two (mc_ring_depth cfg)" and "CHR 0x00 \<notin> set name" and "os_shm_open os name"
    and "\<And>n. os_ftruncate os name n" and "\<And>n. os_mmap os name n \<noteq> None"
  shows "\<exists>q. modq_open os cfg = Inr (Inr q)"
proof -
  let ?d = "mc_ring_depth cfg" and ?s = "stride_of (mc_slot_size cfg)"
  have st: "(mc_slot_size cfg + 16 + 63) AND NOT 63 = ?s"
    by (simp add: stride_of_def SLOT_PAYLOAD_OFFSET_def Let_def ac_simps)
  note b = stride_of_bounds [OF assms(3)]
  have s: "64 \<le> unat ?s" using b(2,3) by (cases "unat ?s < 64") auto
  from assms(8) obtain m0 where "os_mmap os name (BAR_RING_BASE + unat ?s * unat ?d) = Some m0" by blast
  then have m0: "bar_open_shm os name (BAR_RING_BASE + unat ?s * unat ?d) = Inr m0" "length m0 = BAR_RING_BASE + unat ?s * unat ?d"
    using assms(1,5-7) by (simp_all add: bar_open_shm_def mmap_sized_def)
  obtain m1 where m1: "bar_write32 m0 BAR_DEPTH ?d = Inr m1" using m0(2) by (simp add: bar_write32_def bar_regs)
  obtain m2 where m2: "bar_write32 m1 BAR_SLOT_SIZE (mc_slot_size cfg) = Inr m2"
    using m0(2) bar_write_length(1) [OF m1] by (simp add: bar_write32_def bar_regs)
  obtain m3 where m3: "bar_write64 m2 BAR_HEAD 0 = Inr m3"
    using m0(2) bar_write_length(1) [OF m1] bar_write_length(1) [OF m2] by (simp add: bar_write64_def bar_regs)
  obtain m4 where m4: "bar_write64 m3 BAR_TAIL 0 = Inr m4"
    using m0(2) bar_write_length(1) [OF m1] bar_write_length(1) [OF m2] bar_write_length(2) [OF m3]
    by (simp add: bar_write64_def bar_regs)
  have "ring_fits m4 (unat ?d) ?s"
    using m0(2) s bar_write_length(1) [OF m1] bar_write_length(1) [OF m2] bar_write_length(2) [OF m3] bar_write_length(2) [OF m4]
    by (simp add: ring_fits_def mult.commute)
  from init_loop [OF this le_refl] m1 m2 m3 m4 obtain m5 where "init_ring m0 ?d (mc_slot_size cfg) (unat ?s) = Inr m5"
    by (auto simp: init_ring_def)
  then show ?thesis unfolding modq_open_def Let_def st using m0(1) assms(2,4) by simp
qed

definition sample_os :: os_env where
  "sample_os = \<lparr>os_open = \<lambda>_. Inr (), os_file_size = \<lambda>_. Inr 0, os_mmap = \<lambda>_ n. Some (replicate n 0),
     os_shm_open = \<lambda>_. True, os_ftruncate = \<lambda>_ _. True\<rparr>"

definition sample_modq :: modq_config where
  "sample_modq = \<lparr>mc_transport = Loopback ''/otap_modq_loopback'', mc_ring_depth = 1024, mc_slot_size = 256\<rparr>"

lemma sample_modq_ok:
  "mmap_sized sample_os" "mc_transport sample_modq = Loopback ''/otap_modq_loopback''"
  "unat (mc_slot_size sample_modq) \<le> 2 ^ 32 - 80" "is_power_of_two (mc_ring_depth sample_modq)"
  "\<exists>q. modq_open sample_os sample_modq = Inr (Inr q)"
proof -
  show 1: "mmap_sized sample_os" by (simp add: mmap_sized_def sample_os_def)
  show 2: "mc_transport sample_modq = Loopback ''/otap_modq_loopback''" "unat (mc_slot_size sample_modq) \<le> 2 ^ 32 - 80"
    by (simp_all add: sample_modq_def)
  show 3: "is_power_of_two (mc_ring_depth sample_modq)" unfolding sample_modq_def by code_simp
  show "\<exists>q. modq_open sample_os sample_modq = Inr (Inr q)"
    by (rule open_succeeds [OF 1 2 3]) (simp_all add: sample_os_def)
qed

theorem ring_fifo_witness:
  "\<exists>q r. modq_open sample_os sample_modq = Inr (Inr q) \<and> ring_reach (ring_start q) r \<and> rs_subs r = [[1, 2, 3]]
     \<and> slot_holds (rs_mem r) (tx_slot_stride (rs_tx r)) 0 0 [1, 2, 3]"
proof -
  obtain q where q: "modq_open sample_os sample_modq = Inr (Inr q)" using sample_modq_ok(5) by blast
  from opened [OF sample_modq_ok(1-3) q] obtain e where e: "ring_conf e (ring_start q)" "ring_slots e (ring_start q)"
    and s: "tx_slot_stride (mq_tx q) = stride_of (mc_slot_size sample_modq)" by metis
  have "unat (stride_of 256) = 320" by code_simp
  then have "16 + length [1, 2, 3 :: u8] \<le> unat (tx_slot_stride (rs_tx (ring_start q)))"
    by (simp add: ring_start_def s sample_modq_def)
  from submit_progress [OF e _ this] obtain m t where
    "submit (\<lambda>_. rs_mem (ring_start q)) (rs_tx (ring_start q)) [1, 2, 3] = Inr (Inr (0, m, t))"
    by (auto simp: ring_start_def)
  from ring_reach.Next [OF ring_reach.Here ring_step.Submit [OF this]]
  obtain r where r: "ring_reach (ring_start q) r" "rs_subs r = [[1, 2, 3]]" "rs_got r = []"
    by (auto simp: ring_start_def)
  with ring_fifo [OF sample_modq_ok(1-3) q r(1)] q show ?thesis by fastforce
qed

theorem slot_geometry_witness:
  "\<exists>q. modq_open sample_os sample_modq = Inr (Inr q) \<and> slot_free (mq_bar q) (tx_slot_stride (mq_tx q)) 1023
     \<and> slot_base 1023 (tx_slot_stride (mq_tx q)) + unat (tx_slot_stride (mq_tx q)) \<le> length (mq_bar q)
     \<and> slot_base 0 (tx_slot_stride (mq_tx q)) + unat (tx_slot_stride (mq_tx q)) \<le> slot_base 1023 (tx_slot_stride (mq_tx q))"
proof -
  obtain q where q: "modq_open sample_os sample_modq = Inr (Inr q)" using sample_modq_ok(5) by blast
  have "unat (mc_ring_depth sample_modq) = 1024" by (simp add: sample_modq_def)
  with slot_geometry [OF sample_modq_ok(1-3) q, of 1024] q show ?thesis by (auto simp: Let_def)
qed

end
