(* ===== verification/Endpoint.thy ===== *)
theory Endpoint
  imports RingProtocol Schema
begin

text \<open>
  The unified endpoint of otap-obg/src/modq_backend.rs, which hides whether a submission goes to the
  software driver (only an identifier is assigned) or to the ring of \<open>Ring\<close>.
\<close>

section \<open>Types\<close>

record endpoint_completion =
  ec_sequence_id :: u32
  ec_schema_id :: schema_id

datatype endpoint_error =
    EpPayloadTooLarge nat nat
  | EpRingTimeout
  | EpSoftDriver string
  | EpModq string

datatype endpoint_config = CfgSoftware | CfgHardware modq_config

datatype otap_endpoint = EpSoftware u32 | EpHardware modq_queue

text \<open>\<open>ModqError::to_string\<close>.\<close>

fun dec_string :: "nat \<Rightarrow> string" where
  "dec_string n = (if n < 10 then [char_of (48 + n)] else dec_string (n div 10) @ [char_of (48 + n mod 10)])"

declare dec_string.simps [simp del]

fun modq_error_text :: "modq_error \<Rightarrow> string" where
  "modq_error_text (BarOpen path source) = ''failed to open BAR resource at '' @ path @ '': '' @ source"
| "modq_error_text (BarEmpty path) = ''BAR resource at '' @ path @ '' has zero size ''
     @ [CHR 0xE2, CHR 0x80, CHR 0x94] @ '' device may not be enumerated''"
| "modq_error_text (MmapFailed path) = ''mmap failed for '' @ path"
| "modq_error_text (InvalidRingDepth d) = ''ring depth must be a power of 2, got '' @ dec_string (unat d)"
| "modq_error_text (InvalidShmName n) = ''invalid shared memory name: '' @ n"
| "modq_error_text (ShmOpenFailed n) = ''failed to open shared memory: '' @ n"
| "modq_error_text (ShmTruncateFailed n) = ''failed to truncate shared memory: '' @ n"

section \<open>Operations\<close>

definition ep_open :: "os_env \<Rightarrow> endpoint_config \<Rightarrow> (endpoint_error + otap_endpoint) panics" where
  "ep_open os config = (case config of
     CfgSoftware \<Rightarrow> Inr (Inr (EpSoftware 0))
   | CfgHardware modq_config \<Rightarrow> try_bind (modq_open os modq_config) (\<lambda>r.
       Inr (try_bind (map_err (\<lambda>e. EpModq (modq_error_text e)) r) (\<lambda>queue. Inr (EpHardware queue)))))"

fun ep_ring_error :: "ring_error \<Rightarrow> endpoint_error" where
  "ep_ring_error (PayloadTooLarge got mx) = EpPayloadTooLarge got mx"
| "ep_ring_error (RingTimeout slot) = EpRingTimeout"

definition ep_submit :: "(nat \<Rightarrow> bytes) \<Rightarrow> otap_endpoint \<Rightarrow> schema_id \<Rightarrow> bytes \<Rightarrow>
    (endpoint_error + u32 \<times> otap_endpoint) panics" where
  "ep_submit mem ep schema payload = (case ep of
     EpSoftware next_sid \<Rightarrow> Inr (Inr (next_sid, EpSoftware (next_sid + 1)))
   | EpHardware queue \<Rightarrow> try_bind (mq_submit mem queue payload) (\<lambda>r.
       Inr (try_bind (map_err ep_ring_error r) (\<lambda>(sid, q). Inr (sid, EpHardware q)))))"

definition ep_poll_completion :: "otap_endpoint \<Rightarrow> (endpoint_completion option \<times> otap_endpoint) panics" where
  "ep_poll_completion ep = (case ep of
     EpSoftware next_sid \<Rightarrow> Inr (None, ep)
   | EpHardware queue \<Rightarrow> try_bind (mq_poll queue) (\<lambda>(c, q).
       Inr (map_option (\<lambda>c. \<lparr>ec_sequence_id = rc_sequence_id c, ec_schema_id = SEquityTradeOrder\<rparr>) c, EpHardware q)))"

definition ep_max_payload :: "otap_endpoint \<Rightarrow> u64" where
  "ep_max_payload ep = (case ep of EpSoftware _ \<Rightarrow> of_nat EQ_PAYLOAD_BYTES
     | EpHardware queue \<Rightarrow> mq_slot_payload_capacity queue)"

definition ep_is_hardware :: "otap_endpoint \<Rightarrow> bool" where
  "ep_is_hardware ep = (case ep of EpSoftware _ \<Rightarrow> False | EpHardware _ \<Rightarrow> True)"

section \<open>Bursts\<close>

text \<open>Submissions one after the other, with nobody else writing the memory.\<close>

definition ep_mem :: "otap_endpoint \<Rightarrow> bytes" where
  "ep_mem ep = (case ep of EpSoftware _ \<Rightarrow> [] | EpHardware q \<Rightarrow> mq_bar q)"

fun ep_burst :: "otap_endpoint \<Rightarrow> (schema_id \<times> bytes) list \<Rightarrow> (endpoint_error + u32 list \<times> otap_endpoint) panics" where
  "ep_burst ep [] = Inr (Inr ([], ep))"
| "ep_burst ep ((sch, p) # rest) =
     try_bind (ep_submit (\<lambda>_. ep_mem ep) ep sch p) (\<lambda>r. case r of
       Inl e \<Rightarrow> Inr (Inl e)
     | Inr (sid, ep') \<Rightarrow> try_bind (ep_burst ep' rest) (\<lambda>r'. Inr (try_bind r' (\<lambda>(sids, ep''). Inr (sid # sids, ep'')))))"

lemma software_burst:
  "ep_burst (EpSoftware n) xs = Inr (Inr (map (\<lambda>k. n + of_nat k) [0..<length xs], EpSoftware (n + of_nat (length xs))))"
proof (induction xs arbitrary: n)
  case (Cons x xs)
  obtain sch p where x: "x = (sch, p)" by (cases x)
  have "[0..<Suc (length xs)] = 0 # map Suc [0..<length xs]" by (simp add: map_Suc_upt upt_conv_Cons del: upt_Suc)
  then show ?case using Cons [of "n + 1"] by (simp add: x ep_submit_def algebra_simps comp_def)
qed (simp add: ep_submit_def)

text \<open>The ring state behind a hardware endpoint that has made some submissions and polled nothing.\<close>

definition ep_ring :: "modq_queue \<Rightarrow> bytes list \<Rightarrow> ring_sys" where
  "ep_ring q ps = \<lparr>rs_mem = mq_bar q, rs_tx = mq_tx q, rs_cr = mq_completions q, rs_subs = ps, rs_got = []\<rparr>"

lemma hardware_burst:
  assumes "ring_conf e (ep_ring q ps)" and "ring_slots e (ep_ring q ps)"
    and "length ps + length xs \<le> 2 ^ e"
    and "list_all (\<lambda>(sch, p). 16 + length p \<le> unat (tx_slot_stride (mq_tx q))) xs"
  shows "\<exists>q'. ep_burst (EpHardware q) xs = Inr (Inr (map of_nat [length ps..<length ps + length xs], EpHardware q'))
    \<and> ring_conf e (ep_ring q' (ps @ map snd xs)) \<and> ring_slots e (ep_ring q' (ps @ map snd xs))
    \<and> tx_slot_stride (mq_tx q') = tx_slot_stride (mq_tx q)"
  using assms
proof (induction xs arbitrary: q ps)
  case (Cons x xs)
  obtain sch p where x: "x = (sch, p)" by (cases x)
  have len: "16 + length p \<le> unat (tx_slot_stride (rs_tx (ep_ring q ps)))"
    using Cons.prems(4) by (simp add: x ep_ring_def)
  have "length (rs_subs (ep_ring q ps)) < length (rs_got (ep_ring q ps)) + 2 ^ e"
    using Cons.prems(3) by (simp add: ep_ring_def)
  from submit_progress [OF Cons.prems(1,2) this len] obtain m t where
    s: "submit (\<lambda>_. rs_mem (ep_ring q ps)) (rs_tx (ep_ring q ps)) p = Inr (Inr (of_nat (length ps), m, t))"
    by (auto simp: ep_ring_def)
  define q1 where "q1 = q\<lparr>mq_bar := m, mq_tx := t\<rparr>"
  have r: "(ep_ring q ps)\<lparr>rs_mem := m, rs_tx := t, rs_subs := rs_subs (ep_ring q ps) @ [p]\<rparr> = ep_ring q1 (ps @ [p])"
    by (simp add: ep_ring_def q1_def)
  note inv = submit_inv [OF Cons.prems(1,2) s, unfolded r]
  have st: "tx_slot_stride (mq_tx q1) = tx_slot_stride (mq_tx q)"
    using inv(1) Cons.prems(1) by (simp add: ring_conf_def ep_ring_def q1_def)
  have "ep_submit (\<lambda>_. ep_mem (EpHardware q)) (EpHardware q) sch p = Inr (Inr (of_nat (length ps), EpHardware q1))"
    using s by (simp add: ep_submit_def mq_submit_def ep_mem_def ep_ring_def q1_def)
  moreover from Cons.IH [OF inv] Cons.prems(3,4) st obtain q' where
    "ep_burst (EpHardware q1) xs = Inr (Inr (map of_nat [Suc (length ps)..<Suc (length ps) + length xs], EpHardware q'))
    \<and> ring_conf e (ep_ring q' ((ps @ [p]) @ map snd xs)) \<and> ring_slots e (ep_ring q' ((ps @ [p]) @ map snd xs))
    \<and> tx_slot_stride (mq_tx q') = tx_slot_stride (mq_tx q1)" by fastforce
  moreover have "[length ps..<length ps + length (x # xs)] = length ps # [Suc (length ps)..<Suc (length ps) + length xs]"
    by (simp add: upt_conv_Cons del: upt_Suc)
  ultimately show ?case using st by (simp add: x)
qed simp

text \<open>A full ring with nobody consuming times out.\<close>

lemma full_times_out:
  assumes "ring_conf e (ep_ring q ps)" and "ring_slots e (ep_ring q ps)" and "length ps = 2 ^ e"
    and "16 + length p \<le> unat (tx_slot_stride (mq_tx q))"
  shows "ep_submit (\<lambda>_. mq_bar q) (EpHardware q) sch p = Inr (Inl EpRingTimeout)"
proof -
  let ?s = "tx_slot_stride (mq_tx q)"
  note I = assms(1) [unfolded ring_conf_def ep_ring_def, simplified]
  have st: "16 < unat ?s" using I by (simp add: ring_fits_def)
  have "slot_holds (mq_bar q) ?s 0 0 (ps ! 0)" using inv_slot(1) [OF assms(2), of 0] assms(3) by (simp add: ep_ring_def)
  then have "mem32 (mq_bar q) (slot_base 0 ?s) \<noteq> SLOT_FREE" by (auto simp: slot_holds_def slot_states)
  then have "spin_wait (\<lambda>_. mq_bar q) (slot_base 0 ?s) 0 = Inr None"
    using spin_wait_spec [of "slot_base 0 ?s" "\<lambda>_. mq_bar q" 0] slot_in_ring(1) [of "mq_bar q" "2 ^ e" ?s 0] I st by simp
  moreover have "ring_index (tx_tail (mq_tx q)) (tx_depth (mq_tx q)) = Inr 0"
    using I ring_index_count [of "tx_depth (mq_tx q)" e "2 ^ e"] assms(3) by simp
  ultimately show ?thesis
    using assms(4) by (simp add: ep_submit_def mq_submit_def submit_def tx_capacity [OF st] Let_def)
qed

section \<open>Property\<close>

text \<open>(C28) The two transports give out the same identifiers: a burst of payloads that fit the slots, no
  longer than the ring is deep, gets 0, 1, 2, ... from a freshly opened hardware endpoint as from
  a software one. They differ when the ring is full and the device is not consuming: the hardware
  endpoint reports a timeout, the software one always accepts, whatever the size of the
  payload.\<close>

theorem endpoint_equivalence:
  assumes "mmap_sized os" and "mc_transport cfg = Loopback name" and "unat (mc_slot_size cfg) \<le> 2 ^ 32 - 80"
    and "modq_open os cfg = Inr (Inr q)" and "length xs \<le> unat (mc_ring_depth cfg)"
    and "list_all (\<lambda>(sch, p). length p \<le> unat (mc_slot_size cfg)) xs" and "length p \<le> unat (mc_slot_size cfg)"
  shows "\<exists>q' n. ep_burst (EpHardware q) xs = Inr (Inr (map of_nat [0..<length xs], EpHardware q'))
    \<and> ep_burst (EpSoftware 0) xs = Inr (Inr (map of_nat [0..<length xs], EpSoftware n))
    \<and> (length xs = unat (mc_ring_depth cfg) \<longrightarrow>
         ep_submit (\<lambda>_. mq_bar q') (EpHardware q') sch p = Inr (Inl EpRingTimeout))
    \<and> (\<forall>mem k s p. ep_submit mem (EpSoftware k) s p = Inr (Inr (k, EpSoftware (k + 1))))"
proof -
  from opened [OF assms(1-4)] obtain e where e: "ring_conf e (ring_start q)" "ring_slots e (ring_start q)"
    "unat (mc_ring_depth cfg) = 2 ^ e" "tx_slot_stride (mq_tx q) = stride_of (mc_slot_size cfg)" by metis
  have start: "ring_start q = ep_ring q []" by (simp add: ring_start_def ep_ring_def)
  have fit: "16 + k \<le> unat (tx_slot_stride (mq_tx q))" if "k \<le> unat (mc_slot_size cfg)" for k
    using that stride_of_bounds(2) [OF assms(3)] e(4) by simp
  have "list_all (\<lambda>(sch, p). 16 + length p \<le> unat (tx_slot_stride (mq_tx q))) xs"
    using assms(6) fit by (auto simp: list_all_iff)
  from hardware_burst [OF e(1,2) [unfolded start] _ this] assms(5) e(3) obtain q' where
    q': "ep_burst (EpHardware q) xs = Inr (Inr (map of_nat [0..<length xs], EpHardware q'))"
      "ring_conf e (ep_ring q' (map snd xs))" "ring_slots e (ep_ring q' (map snd xs))"
      "tx_slot_stride (mq_tx q') = tx_slot_stride (mq_tx q)" by auto
  have "ep_submit (\<lambda>_. mq_bar q') (EpHardware q') sch p = Inr (Inl EpRingTimeout)"
    if "length xs = unat (mc_ring_depth cfg)"
    using full_times_out [OF q'(2,3)] that e(3) fit [OF assms(7)] q'(4) by simp
  then show ?thesis using q'(1) software_burst [of 0 xs] by (simp add: ep_submit_def)
qed

theorem endpoint_equivalence_witness:
  "\<exists>q q'. modq_open sample_os sample_modq = Inr (Inr q)
     \<and> ep_burst (EpHardware q) [(SHeartbeat, replicate 32 0), (SMarketTick, replicate 64 0)] = Inr (Inr ([0, 1], EpHardware q'))"
proof -
  obtain q where q: "modq_open sample_os sample_modq = Inr (Inr q)" using sample_modq_ok(5) by blast
  have "unat (mc_ring_depth sample_modq) = 1024" "unat (mc_slot_size sample_modq) = 256" by (simp_all add: sample_modq_def)
  with endpoint_equivalence [OF sample_modq_ok(1-3) q, of "[(SHeartbeat, replicate 32 0), (SMarketTick, replicate 64 0)]" "[]"] q
  show ?thesis by (fastforce simp: upt_rec [of 0] upt_rec [of 1])
qed

end
