(* ===== verification/Loopback.thy ===== *)
theory Loopback
  imports RingProtocol
begin

text \<open>
  The loopback test of otap-modq/src/bin/modq_loopback.rs: a second thread that maps the same shared memory and plays the device. One turn
  of its loop is \<open>consumer_turn\<close>. Unlike the device of \<open>RingProtocol\<close> it hands slots back as free.
\<close>

section \<open>The simulated consumer\<close>

definition consumer_turn :: "u32 \<Rightarrow> nat \<Rightarrow> bytes \<Rightarrow> u64 \<Rightarrow> (bytes \<times> u64) panics" where
  "consumer_turn depth slot_stride m local_head =
     try_bind (ring_index local_head depth) (\<lambda>index.
     let base = BAR_RING_BASE + index * slot_stride in
     try_bind (bar_read32 m base) (\<lambda>status.
     if status = SLOT_READY then
       try_bind (bar_read32 m (base + 0x04)) (\<lambda>_.
       try_bind (bar_read32 m (base + 0x08)) (\<lambda>_.
       try_bind (bar_write32 m base SLOT_FREE) (\<lambda>m. Inr (m, local_head + 1))))
     else Inr (m, local_head)))"

record loop_sys =
  ls_mem :: bytes
  ls_tx :: tx_ring
  ls_head :: u64
  ls_count :: nat

inductive loop_step :: "loop_sys \<Rightarrow> loop_sys \<Rightarrow> bool" where
  LSubmit: "submit (\<lambda>_. ls_mem l) (ls_tx l) p = Inr (Inr (sid, m, t)) \<Longrightarrow>
    loop_step l (l\<lparr>ls_mem := m, ls_tx := t, ls_count := Suc (ls_count l)\<rparr>)"
| LConsume: "consumer_turn (tx_depth (ls_tx l)) (unat (tx_slot_stride (ls_tx l))) (ls_mem l) (ls_head l) = Inr (m, h) \<Longrightarrow>
    loop_step l (l\<lparr>ls_mem := m, ls_head := h\<rparr>)"

inductive loop_reach :: "loop_sys \<Rightarrow> loop_sys \<Rightarrow> bool" for l0 :: loop_sys where
  LHere: "loop_reach l0 l0"
| LNext: "loop_reach l0 l \<Longrightarrow> loop_step l l' \<Longrightarrow> loop_reach l0 l'"

definition loop_start :: "modq_queue \<Rightarrow> loop_sys" where
  "loop_start q = \<lparr>ls_mem = mq_bar q, ls_tx = mq_tx q, ls_head = 0, ls_count = 0\<rparr>"

section \<open>Invariant\<close>

definition loop_inv :: "u32 \<Rightarrow> u32 \<Rightarrow> loop_sys \<Rightarrow> bool" where
  "loop_inv d s l \<longleftrightarrow> d \<noteq> 0 \<and> tx_depth (ls_tx l) = d \<and> tx_slot_stride (ls_tx l) = s \<and> ring_fits (ls_mem l) (unat d) s
     \<and> tx_next_sid (ls_tx l) = of_nat (ls_count l)
     \<and> (\<forall>i < unat d. mem32 (ls_mem l) (slot_base i s) \<in> {SLOT_FREE, SLOT_READY})"

lemma index_bound: "d \<noteq> 0 \<Longrightarrow> \<exists>i < unat d. ring_index c d = Inr i"
proof -
  assume d: "d \<noteq> 0"
  have "unat (ucast d :: u64) = unat d"
    using unat_less_pow [of d] by (simp add: unsigned_ucast_eq take_bit_nat_eq_self)
  then show ?thesis using d by (simp add: ring_index_def unat_mod_distrib unat_gt_0)
qed

lemma status_same: "slot_same m m' s i \<Longrightarrow> 16 < unat s \<Longrightarrow> mem32 m' (slot_base i s) = mem32 m (slot_base i s)"
  by (simp add: slot_same_def mem32_def)

lemma loop_submit:
  assumes "loop_inv d s l" and "submit (\<lambda>_. ls_mem l) (ls_tx l) p = Inr (Inr (sid, m, t))"
  shows "loop_inv d s (l\<lparr>ls_mem := m, ls_tx := t, ls_count := Suc (ls_count l)\<rparr>)"
proof -
  note I = assms(1) [unfolded loop_inv_def]
  obtain i where i: "i < unat d" "ring_index (tx_tail (ls_tx l)) d = Inr i" using I index_bound by blast
  have fits: "ring_fits (ls_mem l) (unat d) s" and st: "16 < unat s" using I by (simp_all add: ring_fits_def)
  note fit = slot_in_ring [OF fits i(1)]
  have "16 < unat (tx_slot_stride (ls_tx l))" using st I by simp
  note cap = tx_capacity [OF this]
  have pub: "publish (ls_mem l) (ls_tx l) (slot_base i s) p = Inr (sid, m, t)" and len: "16 + length p \<le> unat s"
    using assms(2) I i(2) st by (auto simp: submit_def cap Let_def try_bind_eq_Inr split: if_splits option.splits)
  have b: "slot_base i s + 16 < length (ls_mem l)" using fit(1) st by simp
  from publish_ok [OF fit less_imp_le [OF st] len b, where t = "ls_tx l"] obtain m' where
    p': "publish (ls_mem l) (ls_tx l) (slot_base i s) p
        = Inr (tx_next_sid (ls_tx l), m', (ls_tx l)\<lparr>tx_tail := tx_tail (ls_tx l) + 1, tx_next_sid := tx_next_sid (ls_tx l) + 1\<rparr>)"
      "length m' = length (ls_mem l)" "mem32 m' (slot_base i s) = SLOT_READY"
      "\<And>a b. BAR_RING_BASE \<le> a \<Longrightarrow> b \<le> length (ls_mem l) \<Longrightarrow> b \<le> slot_base i s \<or> slot_base i s + unat s \<le> a \<Longrightarrow>
         sub_slice a b m' = sub_slice a b (ls_mem l)" by metis
  have "slot_same (ls_mem l) m' s j" if "j \<noteq> i" "j < unat d" for j
    unfolding slot_same_def
    using slot_apart [OF that(1), of s] slot_in_ring [OF fits that(2)] by (intro allI impI p'(4)) auto
  then have "\<forall>j < unat d. mem32 m' (slot_base j s) \<in> {SLOT_FREE, SLOT_READY}"
    using status_same [OF _ st] p'(3) I by (metis insertCI)
  moreover have "m = m'" "t = (ls_tx l)\<lparr>tx_tail := tx_tail (ls_tx l) + 1, tx_next_sid := tx_next_sid (ls_tx l) + 1\<rparr>"
    using pub unfolding p'(1) by auto
  ultimately show ?thesis using I p'(2) by (simp add: loop_inv_def ring_fits_def)
qed

lemma loop_consume:
  assumes "loop_inv d s l" and "consumer_turn d (unat s) (ls_mem l) (ls_head l) = Inr (m, h)"
  shows "loop_inv d s (l\<lparr>ls_mem := m, ls_head := h\<rparr>)"
proof -
  note I = assms(1) [unfolded loop_inv_def]
  obtain i where i: "i < unat d" "ring_index (ls_head l) d = Inr i" using I index_bound by blast
  have fits: "ring_fits (ls_mem l) (unat d) s" and st: "16 < unat s" using I by (simp_all add: ring_fits_def)
  have "m = ls_mem l \<or> bar_write32 (ls_mem l) (slot_base i s) SLOT_FREE = Inr m"
    using assms(2) i(2) by (auto simp: consumer_turn_def Let_def slot_base_def try_bind_eq_Inr split: if_splits)
  then show ?thesis
  proof
    assume "bar_write32 (ls_mem l) (slot_base i s) SLOT_FREE = Inr m"
    note sw = status_write [OF fits i(1) this]
    have "\<forall>j < unat d. mem32 m (slot_base j s) \<in> {SLOT_FREE, SLOT_READY}"
      using status_same [OF sw(3) st] sw(2) I by (metis insertCI)
    then show ?thesis using I sw(1) by (simp add: loop_inv_def ring_fits_def)
  qed (use assms(1) in \<open>simp add: loop_inv_def\<close>)
qed

lemma loop_reach_inv: "loop_reach l0 l \<Longrightarrow> loop_inv d s l0 \<Longrightarrow> loop_inv d s l"
proof (induction rule: loop_reach.induct)
  case (LNext l l')
  from LNext.hyps(2) show ?case
  proof cases
    case (LSubmit p sid m t)
    then show ?thesis using loop_submit LNext by simp
  next
    case (LConsume m h)
    moreover have "loop_inv d s l" using LNext by simp
    moreover from this have "tx_depth (ls_tx l) = d" "tx_slot_stride (ls_tx l) = s" by (simp_all add: loop_inv_def)
    ultimately show ?thesis using loop_consume by simp
  qed
qed

section \<open>Property\<close>

text \<open>With the simulated consumer the completion path is never exercised: however submissions and
  consumer turns interleave, \<open>poll\<close> finds nothing. The
  identifiers given out are consecutive all the same.\<close>

theorem loopback_never_completes:
  assumes "mmap_sized os" and "mc_transport cfg = Loopback name" and "unat (mc_slot_size cfg) \<le> 2 ^ 32 - 80"
    and "modq_open os cfg = Inr (Inr q)" and "loop_reach (loop_start q) l"
  shows "poll (ls_mem l) (mq_completions q) = Inr (None, ls_mem l, mq_completions q)
    \<and> tx_next_sid (ls_tx l) = of_nat (ls_count l)"
proof -
  let ?d = "mc_ring_depth cfg" and ?s = "stride_of (mc_slot_size cfg)"
  from opened [OF assms(1-4)] obtain e where e: "ring_conf e (ring_start q)" "ring_slots e (ring_start q)"
    "unat ?d = 2 ^ e" "tx_slot_stride (mq_tx q) = ?s" "tx_depth (mq_tx q) = ?d" by metis
  have "slot_free (mq_bar q) ?s i" if "i < 2 ^ e" for i
    using e(2,4) that by (simp add: ring_slots_def ring_start_def)
  then have "loop_inv ?d ?s (loop_start q)"
    using e by (auto simp: loop_inv_def loop_start_def ring_conf_def ring_start_def slot_free_def)
  from loop_reach_inv [OF assms(5) this] have I: "loop_inv ?d ?s l" .
  have c: "cr_depth (mq_completions q) = ?d" "cr_slot_stride (mq_completions q) = ?s"
    using e by (simp_all add: ring_conf_def ring_start_def)
  obtain i where i: "i < unat ?d" "ring_index (cr_head (mq_completions q)) ?d = Inr i"
    using I index_bound unfolding loop_inv_def by blast
  have "ring_fits (ls_mem l) (unat ?d) ?s" using I by (simp add: loop_inv_def)
  then have "bar_read32 (ls_mem l) (slot_base i ?s) = Inr (mem32 (ls_mem l) (slot_base i ?s))"
    using slot_in_ring(1) [OF _ i(1)] by (intro bar_read32_ok) (fastforce simp: ring_fits_def)
  moreover have "mem32 (ls_mem l) (slot_base i ?s) \<noteq> SLOT_DONE"
    using I i(1) by (auto simp: loop_inv_def slot_states)
  ultimately show ?thesis using I c i(2) by (simp add: poll_def SLOT_HDR_STATUS_def Let_def loop_inv_def)
qed

theorem loopback_never_completes_witness:
  "\<exists>q l. modq_open sample_os sample_modq = Inr (Inr q) \<and> loop_reach (loop_start q) l \<and> ls_count l = 1
     \<and> poll (ls_mem l) (mq_completions q) = Inr (None, ls_mem l, mq_completions q)"
proof -
  obtain q where q: "modq_open sample_os sample_modq = Inr (Inr q)" using sample_modq_ok(5) by blast
  from opened [OF sample_modq_ok(1-3) q] obtain e where e: "ring_conf e (ring_start q)" "ring_slots e (ring_start q)"
    and s: "tx_slot_stride (mq_tx q) = stride_of (mc_slot_size sample_modq)" by metis
  have "unat (stride_of 256) = 320" by code_simp
  then have "16 + length [1, 2, 3 :: u8] \<le> unat (tx_slot_stride (rs_tx (ring_start q)))"
    by (simp add: ring_start_def s sample_modq_def)
  from submit_progress [OF e _ this] obtain m t where
    "submit (\<lambda>_. ls_mem (loop_start q)) (ls_tx (loop_start q)) [1, 2, 3] = Inr (Inr (0, m, t))"
    by (auto simp: ring_start_def loop_start_def)
  from loop_reach.LNext [OF loop_reach.LHere loop_step.LSubmit [OF this]]
  obtain l where l: "loop_reach (loop_start q) l" "ls_count l = 1" by (auto simp: loop_start_def)
  with loopback_never_completes [OF sample_modq_ok(1-3) q l(1)] q show ?thesis by blast
qed

end
