(* ===== verification/KeyDomain.thy ===== *)
theory KeyDomain
  imports Prelude
begin

text \<open>
  The key types of luxstream-otap-d3/src/key_domain.rs. The signature schemes are third-party
  packages and parameters here: a record of the operations of ed25519-dalek and one of those of
  p256, over arbitrary key types. What the session code relies on is stated once in
  \<open>ed_correct\<close>: key encodings round trip, sizes are fixed, and a signature verifies under the
  key that made it.
\<close>

type_synonym sha_fn = "bytes \<Rightarrow> bytes"

definition PUBKEY_LEN :: nat where "PUBKEY_LEN = 32"
definition NONCE_LEN :: nat where "NONCE_LEN = 32"
definition SIG_LEN :: nat where "SIG_LEN = 64"

lemmas key_sizes = PUBKEY_LEN_def NONCE_LEN_def SIG_LEN_def

section \<open>Data plane: Ed25519\<close>

record ('s, 'v) ed25519 =
  ed_secret :: "bytes \<Rightarrow> 's"
  ed_public :: "'s \<Rightarrow> 'v"
  ed_sign :: "'s \<Rightarrow> bytes \<Rightarrow> bytes"
  ed_decode :: "bytes \<Rightarrow> 'v option"
  ed_encode :: "'v \<Rightarrow> bytes"
  ed_verify :: "'v \<Rightarrow> bytes \<Rightarrow> bytes \<Rightarrow> bool"

datatype 's d3_signing_key = D3SigningKey (d3_sk: 's)
datatype 'v d3_verifying_key = D3VerifyingKey (d3_vk: 'v)

definition d3_sk_from_bytes :: "('s, 'v) ed25519 \<Rightarrow> bytes \<Rightarrow> 's d3_signing_key" where
  "d3_sk_from_bytes ed bs = D3SigningKey (ed_secret ed bs)"

definition d3_verifying_key_of :: "('s, 'v) ed25519 \<Rightarrow> 's d3_signing_key \<Rightarrow> 'v d3_verifying_key" where
  "d3_verifying_key_of ed sk = D3VerifyingKey (ed_public ed (d3_sk sk))"

definition sign_raw :: "('s, 'v) ed25519 \<Rightarrow> 's d3_signing_key \<Rightarrow> bytes \<Rightarrow> bytes" where
  "sign_raw ed sk msg = ed_sign ed (d3_sk sk) msg"

definition d3_vk_from_bytes :: "('s, 'v) ed25519 \<Rightarrow> bytes \<Rightarrow> string + 'v d3_verifying_key" where
  "d3_vk_from_bytes ed bs = ok_or (map_option D3VerifyingKey (ed_decode ed bs)) ''Invalid Ed25519 D3 public key''"

definition d3_vk_as_bytes :: "('s, 'v) ed25519 \<Rightarrow> 'v d3_verifying_key \<Rightarrow> bytes" where
  "d3_vk_as_bytes ed vk = ed_encode ed (d3_vk vk)"

definition verify_raw :: "('s, 'v) ed25519 \<Rightarrow> 'v d3_verifying_key \<Rightarrow> bytes \<Rightarrow> bytes \<Rightarrow> string + unit" where
  "verify_raw ed vk msg sig =
     (if ed_verify ed (d3_vk vk) msg sig then Inr () else Inl ''D3 Ed25519 verification failed'')"

section \<open>Control plane: ECDSA P-256\<close>

record ('s, 'v, 'g) p256 =
  p_secret :: "bytes \<Rightarrow> 's option"
  p_public :: "'s \<Rightarrow> 'v"
  p_sign :: "'s \<Rightarrow> bytes \<Rightarrow> 'g"
  p_verify :: "'v \<Rightarrow> bytes \<Rightarrow> 'g \<Rightarrow> bool"

datatype 's flr_signing_key = FlrSigningKey (flr_sk: 's)
datatype 'v flr_verifying_key = FlrVerifyingKey (flr_vk: 'v)

definition flr_sk_from_bytes :: "('s, 'v, 'g) p256 \<Rightarrow> bytes \<Rightarrow> string + 's flr_signing_key" where
  "flr_sk_from_bytes p bs = ok_or (map_option FlrSigningKey (p_secret p bs)) ''Invalid P-256 FLR secret key''"

definition flr_verifying_key_of :: "('s, 'v, 'g) p256 \<Rightarrow> 's flr_signing_key \<Rightarrow> 'v flr_verifying_key" where
  "flr_verifying_key_of p sk = FlrVerifyingKey (p_public p (flr_sk sk))"

definition sign_schema :: "('s, 'v, 'g) p256 \<Rightarrow> 's flr_signing_key \<Rightarrow> bytes \<Rightarrow> 'g" where
  "sign_schema p sk schema_hash = p_sign p (flr_sk sk) schema_hash"

definition verify_schema :: "('s, 'v, 'g) p256 \<Rightarrow> 'v flr_verifying_key \<Rightarrow> bytes \<Rightarrow> 'g \<Rightarrow> string + unit" where
  "verify_schema p vk schema_hash sig =
     (if p_verify p (flr_vk vk) schema_hash sig then Inr () else Inl ''FLR P-256 verification failed'')"

section \<open>What the packages promise\<close>

definition ed_correct :: "('s, 'v) ed25519 \<Rightarrow> bool" where
  "ed_correct ed \<longleftrightarrow> (\<forall>vk. length (ed_encode ed vk) = PUBKEY_LEN \<and> ed_decode ed (ed_encode ed vk) = Some vk)
     \<and> (\<forall>sk m. length (ed_sign ed sk m) = SIG_LEN \<and> ed_verify ed (ed_public ed sk) m (ed_sign ed sk m))"

lemma ed_correctD:
  assumes "ed_correct ed"
  shows "length (d3_vk_as_bytes ed vk) = PUBKEY_LEN"
    and "d3_vk_from_bytes ed (d3_vk_as_bytes ed vk) = Inr vk"
    and "length (sign_raw ed sk m) = SIG_LEN"
    and "verify_raw ed (d3_verifying_key_of ed sk) m (sign_raw ed sk m) = Inr ()"
  using assms by (simp_all add: ed_correct_def d3_vk_as_bytes_def d3_vk_from_bytes_def sign_raw_def
      verify_raw_def d3_verifying_key_of_def)

lemma verify_raw_ok_iff: "verify_raw ed vk m sig = Inr () \<longleftrightarrow> ed_verify ed (d3_vk vk) m sig"
  by (simp add: verify_raw_def)

lemma verify_raw_ok [simp]: "is_ok (verify_raw ed vk m sig) \<longleftrightarrow> ed_verify ed (d3_vk vk) m sig"
  by (simp add: verify_raw_def)

text \<open>A scheme that meets the contract, with one-byte keys and a signature that spells out the key
  and, for messages of the length of a digest, the message.\<close>

definition sample_sign :: "u8 \<Rightarrow> bytes \<Rightarrow> bytes" where
  "sample_sign sk m = (if length m = 32 then sk # 1 # m @ replicate 30 0 else sk # 0 # replicate 62 0)"

definition sample_ed :: "(u8, u8) ed25519" where
  "sample_ed = \<lparr>ed_secret = \<lambda>bs. hd (bs @ [0]), ed_public = id, ed_sign = sample_sign,
     ed_decode = \<lambda>bs. if length bs = 32 \<and> tl bs = replicate 31 0 then Some (hd bs) else None,
     ed_encode = \<lambda>vk. vk # replicate 31 0,
     ed_verify = \<lambda>vk m sig. sig = sample_sign vk m\<rparr>"

definition sample_sha :: sha_fn where
  "sample_sha m = take 32 (m @ replicate 32 0)"

lemma sample_ed_correct: "ed_correct sample_ed"
  by (simp add: ed_correct_def sample_ed_def sample_sign_def key_sizes)

end
