(* ===== verification/Handshake.thy ===== *)
theory Handshake
  imports KeyDomain Wire
begin

text \<open>
  The three-way handshake of luxstream-otap-d3/src/handshake.rs: the wire messages, the digests
  that are signed, and the typed state machines of both sides. Each Rust type of a state is a
  record and each consuming method a function from that record; the nonces drawn from
  \<open>OsRng\<close> are arguments. SHA-256 is the parameter \<open>sha\<close>, applied to the concatenation of
  everything given to \<open>update\<close>.
\<close>

section \<open>Errors and access control\<close>

datatype hs_error =
    Malformed nat nat
  | BadServerSig
  | BadClientSig
  | NotAuthorized
  | Transport string

type_synonym client_acl = "bytes \<Rightarrow> bool"

definition allow_all :: client_acl where
  "allow_all pk = True"

section \<open>Messages\<close>

record hs_msg1 =
  m1_client_pk :: bytes
  m1_nonce_i :: bytes

record hs_msg2 =
  m2_server_pk :: bytes
  m2_nonce_r :: bytes
  m2_sig_r :: bytes

record hs_msg3 =
  m3_client_pk :: bytes
  m3_sig_i :: bytes

definition MSG1_LEN :: nat where "MSG1_LEN = PUBKEY_LEN + NONCE_LEN"
definition MSG2_LEN :: nat where "MSG2_LEN = PUBKEY_LEN + NONCE_LEN + SIG_LEN"
definition MSG3_LEN :: nat where "MSG3_LEN = PUBKEY_LEN + SIG_LEN"

lemmas msg_sizes = MSG1_LEN_def MSG2_LEN_def MSG3_LEN_def key_sizes

definition hs_msg1_encode :: "hs_msg1 \<Rightarrow> bytes" where
  "hs_msg1_encode m =
     copy_at PUBKEY_LEN (m1_nonce_i m) (copy_at 0 (m1_client_pk m) (replicate MSG1_LEN 0))"

definition hs_msg1_decode :: "bytes \<Rightarrow> hs_error + hs_msg1" where
  "hs_msg1_decode buf = Inr \<lparr>m1_client_pk = sub_slice 0 PUBKEY_LEN buf,
     m1_nonce_i = sub_slice PUBKEY_LEN MSG1_LEN buf\<rparr>"

definition hs_msg2_encode :: "hs_msg2 \<Rightarrow> bytes" where
  "hs_msg2_encode m =
     copy_at (PUBKEY_LEN + NONCE_LEN) (m2_sig_r m)
       (copy_at PUBKEY_LEN (m2_nonce_r m) (copy_at 0 (m2_server_pk m) (replicate MSG2_LEN 0)))"

definition hs_msg2_decode :: "bytes \<Rightarrow> hs_error + hs_msg2" where
  "hs_msg2_decode buf = Inr \<lparr>m2_server_pk = sub_slice 0 PUBKEY_LEN buf,
     m2_nonce_r = sub_slice PUBKEY_LEN (PUBKEY_LEN + NONCE_LEN) buf,
     m2_sig_r = sub_slice (PUBKEY_LEN + NONCE_LEN) MSG2_LEN buf\<rparr>"

definition hs_msg3_encode :: "hs_msg3 \<Rightarrow> bytes" where
  "hs_msg3_encode m =
     copy_at PUBKEY_LEN (m3_sig_i m) (copy_at 0 (m3_client_pk m) (replicate MSG3_LEN 0))"

definition hs_msg3_decode :: "bytes \<Rightarrow> hs_error + hs_msg3" where
  "hs_msg3_decode buf = Inr \<lparr>m3_client_pk = sub_slice 0 PUBKEY_LEN buf,
     m3_sig_i = sub_slice PUBKEY_LEN MSG3_LEN buf\<rparr>"

text \<open>The array types of the fields.\<close>

definition wf_msg1 :: "hs_msg1 \<Rightarrow> bool" where
  "wf_msg1 m \<longleftrightarrow> length (m1_client_pk m) = PUBKEY_LEN \<and> length (m1_nonce_i m) = NONCE_LEN"

definition wf_msg2 :: "hs_msg2 \<Rightarrow> bool" where
  "wf_msg2 m \<longleftrightarrow> length (m2_server_pk m) = PUBKEY_LEN \<and> length (m2_nonce_r m) = NONCE_LEN
     \<and> length (m2_sig_r m) = SIG_LEN"

definition wf_msg3 :: "hs_msg3 \<Rightarrow> bool" where
  "wf_msg3 m \<longleftrightarrow> length (m3_client_pk m) = PUBKEY_LEN \<and> length (m3_sig_i m) = SIG_LEN"

section \<open>Digests\<close>

definition nonce_input :: "bytes \<Rightarrow> bytes \<Rightarrow> bytes \<Rightarrow> bytes" where
  "nonce_input prefix n1 n2 = prefix @ n1 @ n2"

definition hash_nonces :: "sha_fn \<Rightarrow> bytes \<Rightarrow> bytes \<Rightarrow> bytes \<Rightarrow> bytes" where
  "hash_nonces sha prefix n1 n2 = sha (nonce_input prefix n1 n2)"

definition derive_epoch_nonce :: "sha_fn \<Rightarrow> bytes \<Rightarrow> bytes \<Rightarrow> u64" where
  "derive_epoch_nonce sha n_i n_r =
     from_be_bytes (sub_slice 0 8 (hash_nonces sha (ascii ''OTAP-EPOCH-v1'') n_i n_r))"

section \<open>Initiator\<close>

record ('s, 'v) initiator =
  in_sk :: "'s d3_signing_key"
  in_peer_pk :: "'v d3_verifying_key"

record ('s, 'v) initiator_wait_msg2 =
  iw_sk :: "'s d3_signing_key"
  iw_peer_pk :: "'v d3_verifying_key"
  iw_nonce_i :: bytes

record 'v established_initiator =
  ei_epoch_nonce :: u64
  ei_peer_pk :: "'v d3_verifying_key"

definition initiator_new :: "'s d3_signing_key \<Rightarrow> 'v d3_verifying_key \<Rightarrow> ('s, 'v) initiator" where
  "initiator_new sk peer_pk = \<lparr>in_sk = sk, in_peer_pk = peer_pk\<rparr>"

definition initiator_start ::
  "('s, 'v) ed25519 \<Rightarrow> bytes \<Rightarrow> ('s, 'v) initiator \<Rightarrow> ('s, 'v) initiator_wait_msg2 \<times> hs_msg1" where
  "initiator_start ed nonce_i i =
     (let msg1 = \<lparr>m1_client_pk = d3_vk_as_bytes ed (d3_verifying_key_of ed (in_sk i)), m1_nonce_i = nonce_i\<rparr>;
          wait = \<lparr>iw_sk = in_sk i, iw_peer_pk = in_peer_pk i, iw_nonce_i = nonce_i\<rparr>
      in (wait, msg1))"

definition finish :: "('s, 'v) ed25519 \<Rightarrow> sha_fn \<Rightarrow> ('s, 'v) initiator_wait_msg2 \<Rightarrow> hs_msg2 \<Rightarrow>
    hs_error + 'v established_initiator \<times> hs_msg3" where
  "finish ed sha w msg2 =
     (let digest = hash_nonces sha (ascii ''HELLO-R'') (iw_nonce_i w) (m2_nonce_r msg2) in
      try_bind (map_err (\<lambda>_. BadServerSig) (verify_raw ed (iw_peer_pk w) digest (m2_sig_r msg2))) (\<lambda>_.
      let our_digest = hash_nonces sha (ascii ''HELLO-I'') (m2_nonce_r msg2) (iw_nonce_i w);
          sig_i = sign_raw ed (iw_sk w) our_digest;
          epoch_nonce = derive_epoch_nonce sha (iw_nonce_i w) (m2_nonce_r msg2);
          established = \<lparr>ei_epoch_nonce = epoch_nonce, ei_peer_pk = iw_peer_pk w\<rparr>;
          msg3 = \<lparr>m3_client_pk = d3_vk_as_bytes ed (d3_verifying_key_of ed (iw_sk w)), m3_sig_i = sig_i\<rparr>
      in Inr (established, msg3)))"

section \<open>Responder\<close>

record 's responder =
  re_sk :: "'s d3_signing_key"
  re_acl :: client_acl

record ('s, 'v) responder_wait_msg3 =
  rw_sk :: "'s d3_signing_key"
  rw_client_pk :: "'v d3_verifying_key"
  rw_nonce_i :: bytes
  rw_nonce_r :: bytes

record 'v established_responder =
  er_epoch_nonce :: u64
  er_peer_pk :: "'v d3_verifying_key"

definition responder_new :: "'s d3_signing_key \<Rightarrow> client_acl \<Rightarrow> 's responder" where
  "responder_new sk acl = \<lparr>re_sk = sk, re_acl = acl\<rparr>"

definition handle_msg1 :: "('s, 'v) ed25519 \<Rightarrow> sha_fn \<Rightarrow> bytes \<Rightarrow> 's responder \<Rightarrow> hs_msg1 \<Rightarrow>
    hs_error + ('s, 'v) responder_wait_msg3 \<times> hs_msg2" where
  "handle_msg1 ed sha nonce_r r msg1 =
     (if \<not> re_acl r (m1_client_pk msg1) then Inl NotAuthorized
      else try_bind (map_err (\<lambda>_. BadClientSig) (d3_vk_from_bytes ed (m1_client_pk msg1))) (\<lambda>client_pk.
        let digest = hash_nonces sha (ascii ''HELLO-R'') (m1_nonce_i msg1) nonce_r;
            sig_r = sign_raw ed (re_sk r) digest;
            msg2 = \<lparr>m2_server_pk = d3_vk_as_bytes ed (d3_verifying_key_of ed (re_sk r)),
                    m2_nonce_r = nonce_r, m2_sig_r = sig_r\<rparr>;
            wait = \<lparr>rw_sk = re_sk r, rw_client_pk = client_pk, rw_nonce_i = m1_nonce_i msg1, rw_nonce_r = nonce_r\<rparr>
        in Inr (wait, msg2)))"

definition handle_msg3 :: "('s, 'v) ed25519 \<Rightarrow> sha_fn \<Rightarrow> ('s, 'v) responder_wait_msg3 \<Rightarrow> hs_msg3 \<Rightarrow>
    hs_error + 'v established_responder" where
  "handle_msg3 ed sha w msg3 =
     (let digest = hash_nonces sha (ascii ''HELLO-I'') (rw_nonce_r w) (rw_nonce_i w) in
      try_bind (map_err (\<lambda>_. BadClientSig) (verify_raw ed (rw_client_pk w) digest (m3_sig_i msg3))) (\<lambda>_.
      let epoch_nonce = derive_epoch_nonce sha (rw_nonce_i w) (rw_nonce_r w)
      in Inr \<lparr>er_epoch_nonce = epoch_nonce, er_peer_pk = rw_client_pk w\<rparr>))"

section \<open>The wire formats are canonical codecs\<close>

text \<open>The decoders take arrays of a fixed length; \<open>sized\<close> is that type constraint, with the
  error the handshake reserves for a wrong length.\<close>

definition sized :: "nat \<Rightarrow> (bytes \<Rightarrow> hs_error + 'm) \<Rightarrow> bytes \<Rightarrow> hs_error + 'm" where
  "sized len dec buf = (if length buf = len then dec buf else Inl (Malformed len (length buf)))"

lemma two_fields:
  "length x = a \<Longrightarrow> length y = b \<Longrightarrow> copy_at a y (copy_at 0 x (replicate (a + b) 0)) = x @ y"
  by (simp add: copy_at_def)

lemma three_fields:
  "length x = a \<Longrightarrow> length y = b \<Longrightarrow> length z = c \<Longrightarrow>
   copy_at (a + b) z (copy_at a y (copy_at 0 x (replicate (a + b + c) 0))) = x @ y @ z"
  by (simp add: copy_at_def)

lemma hs_encode:
  "wf_msg1 m \<Longrightarrow> hs_msg1_encode m = m1_client_pk m @ m1_nonce_i m"
  "wf_msg2 n \<Longrightarrow> hs_msg2_encode n = m2_server_pk n @ m2_nonce_r n @ m2_sig_r n"
  "wf_msg3 k \<Longrightarrow> hs_msg3_encode k = m3_client_pk k @ m3_sig_i k"
  by (simp_all add: hs_msg1_encode_def hs_msg2_encode_def hs_msg3_encode_def wf_msg1_def wf_msg2_def
      wf_msg3_def MSG1_LEN_def MSG2_LEN_def MSG3_LEN_def two_fields three_fields)

lemmas hs_decode_defs = hs_msg1_decode_def hs_msg2_decode_def hs_msg3_decode_def sized_def
  wf_msg1_def wf_msg2_def wf_msg3_def msg_sizes sub_slice_def

interpretation hm1: canonical_codec hs_msg1_encode "sized MSG1_LEN hs_msg1_decode" MSG1_LEN wf_msg1
proof
  fix v bs
  show "wf_msg1 v \<Longrightarrow> length (hs_msg1_encode v) = MSG1_LEN" by (simp add: hs_encode) (simp add: hs_decode_defs)
  show "wf_msg1 v \<Longrightarrow> sized MSG1_LEN hs_msg1_decode (hs_msg1_encode v) = Inr v"
    by (simp add: hs_encode) (simp add: hs_decode_defs)
  show wf: "sized MSG1_LEN hs_msg1_decode bs = Inr v \<Longrightarrow> wf_msg1 v"
    by (auto simp: hs_decode_defs split: if_splits)
  show "sized MSG1_LEN hs_msg1_decode bs = Inr v \<Longrightarrow> length bs = MSG1_LEN"
    by (simp add: sized_def split: if_splits)
  show "sized MSG1_LEN hs_msg1_decode bs = Inr v \<Longrightarrow> hs_msg1_encode v = bs"
    using wf by (auto simp: hs_encode) (auto simp: hs_decode_defs split: if_splits)
qed

interpretation hm2: canonical_codec hs_msg2_encode "sized MSG2_LEN hs_msg2_decode" MSG2_LEN wf_msg2
proof
  fix v bs
  show "wf_msg2 v \<Longrightarrow> length (hs_msg2_encode v) = MSG2_LEN" by (simp add: hs_encode) (simp add: hs_decode_defs)
  show "wf_msg2 v \<Longrightarrow> sized MSG2_LEN hs_msg2_decode (hs_msg2_encode v) = Inr v"
    by (simp add: hs_encode) (simp add: hs_decode_defs)
  show wf: "sized MSG2_LEN hs_msg2_decode bs = Inr v \<Longrightarrow> wf_msg2 v"
    by (auto simp: hs_decode_defs split: if_splits)
  show "sized MSG2_LEN hs_msg2_decode bs = Inr v \<Longrightarrow> length bs = MSG2_LEN"
    by (simp add: sized_def split: if_splits)
  have bs: "take 32 bs @ take 32 (drop 32 bs) @ drop 64 bs = bs"
    using append_take_drop_id [of 32 "drop 32 bs"] by simp
  show "sized MSG2_LEN hs_msg2_decode bs = Inr v \<Longrightarrow> hs_msg2_encode v = bs"
    apply (frule wf, simp only: hs_encode)
    using bs by (auto simp: hs_decode_defs split: if_splits)
qed

interpretation hm3: canonical_codec hs_msg3_encode "sized MSG3_LEN hs_msg3_decode" MSG3_LEN wf_msg3
proof
  fix v bs
  show "wf_msg3 v \<Longrightarrow> length (hs_msg3_encode v) = MSG3_LEN" by (simp add: hs_encode) (simp add: hs_decode_defs)
  show "wf_msg3 v \<Longrightarrow> sized MSG3_LEN hs_msg3_decode (hs_msg3_encode v) = Inr v"
    by (simp add: hs_encode) (simp add: hs_decode_defs)
  show wf: "sized MSG3_LEN hs_msg3_decode bs = Inr v \<Longrightarrow> wf_msg3 v"
    by (auto simp: hs_decode_defs split: if_splits)
  show "sized MSG3_LEN hs_msg3_decode bs = Inr v \<Longrightarrow> length bs = MSG3_LEN"
    by (simp add: sized_def split: if_splits)
  show "sized MSG3_LEN hs_msg3_decode bs = Inr v \<Longrightarrow> hs_msg3_encode v = bs"
    using wf by (auto simp: hs_encode) (auto simp: hs_decode_defs split: if_splits)
qed

section \<open>Branches of the state machines\<close>

lemma finish_cases:
  "finish ed sha w m =
     (if ed_verify ed (d3_vk (iw_peer_pk w)) (hash_nonces sha (ascii ''HELLO-R'') (iw_nonce_i w) (m2_nonce_r m)) (m2_sig_r m)
      then Inr (\<lparr>ei_epoch_nonce = derive_epoch_nonce sha (iw_nonce_i w) (m2_nonce_r m), ei_peer_pk = iw_peer_pk w\<rparr>,
                \<lparr>m3_client_pk = d3_vk_as_bytes ed (d3_verifying_key_of ed (iw_sk w)),
                 m3_sig_i = sign_raw ed (iw_sk w) (hash_nonces sha (ascii ''HELLO-I'') (m2_nonce_r m) (iw_nonce_i w))\<rparr>)
      else Inl BadServerSig)"
  by (simp add: finish_def verify_raw_def Let_def)

lemma handle_msg3_cases:
  "handle_msg3 ed sha w m =
     (if ed_verify ed (d3_vk (rw_client_pk w)) (hash_nonces sha (ascii ''HELLO-I'') (rw_nonce_r w) (rw_nonce_i w)) (m3_sig_i m)
      then Inr \<lparr>er_epoch_nonce = derive_epoch_nonce sha (rw_nonce_i w) (rw_nonce_r w), er_peer_pk = rw_client_pk w\<rparr>
      else Inl BadClientSig)"
  by (simp add: handle_msg3_def verify_raw_def Let_def)

lemma handle_msg1_Inr:
  "handle_msg1 ed sha nr r m = Inr (w, m2) \<longleftrightarrow>
     re_acl r (m1_client_pk m) \<and> (\<exists>vk. d3_vk_from_bytes ed (m1_client_pk m) = Inr vk
       \<and> w = \<lparr>rw_sk = re_sk r, rw_client_pk = vk, rw_nonce_i = m1_nonce_i m, rw_nonce_r = nr\<rparr>
       \<and> m2 = \<lparr>m2_server_pk = d3_vk_as_bytes ed (d3_verifying_key_of ed (re_sk r)), m2_nonce_r = nr,
           m2_sig_r = sign_raw ed (re_sk r) (hash_nonces sha (ascii ''HELLO-R'') (m1_nonce_i m) nr)\<rparr>)"
  by (auto simp: handle_msg1_def try_bind_eq_Inr map_err_eq_Inr Let_def)

section \<open>The strings that are signed\<close>

text \<open>With nonces of the fixed length the hashed strings determine role and nonces.\<close>

lemma nonce_input_eq_iff:
  "length p = length q \<Longrightarrow> length a = length c \<Longrightarrow> nonce_input p a b = nonce_input q c d \<longleftrightarrow> p = q \<and> a = c \<and> b = d"
  by (simp add: nonce_input_def)

lemma hello_neq: "ascii ''HELLO-R'' \<noteq> ascii ''HELLO-I''" "length (ascii ''HELLO-R'') = length (ascii ''HELLO-I'')"
  by code_simp+

lemma hello_roles: "nonce_input (ascii ''HELLO-R'') a b \<noteq> nonce_input (ascii ''HELLO-I'') c d"
  using hello_neq by (simp add: nonce_input_def)

end
