(* ===== verification/Rpc.thy ===== *)
theory Rpc
  imports Prelude
begin

text \<open>
  The Rolling Photon Checksum of luxstream-otap-d3/src/rpc.rs: a 64-bit wrapping accumulator,
  seeded with epoch nonce and domain tag, of which the low 32 bits are the tag. The lemmas give
  it in closed form over the natural numbers and characterise which changes of a frame it
  detects.
\<close>

section \<open>Symbols and domains\<close>

datatype polarization = Pol_H | Pol_V | Pol_D | Pol_A

fun pol_code :: "polarization \<Rightarrow> u64" where
  "pol_code Pol_H = 1"
| "pol_code Pol_V = 2"
| "pol_code Pol_D = 3"
| "pol_code Pol_A = 5"

record symbol =
  sym_value :: u16
  sym_lambda :: u8
  sym_pol :: polarization

datatype rpc_domain = LinkData | ControlPlane

fun domain_code :: "rpc_domain \<Rightarrow> u32" where
  "domain_code LinkData = 0"
| "domain_code ControlPlane = 1"

section \<open>The checksum\<close>

definition RPC_PRIME :: u64 where
  "RPC_PRIME = 7919"

definition rpc_term :: "symbol \<Rightarrow> u64" where
  "rpc_term s = (let w = ucast (sym_lambda s) * RPC_PRIME in ucast (sym_value s) * w * pol_code (sym_pol s))"

definition calculate_rpc :: "symbol list \<Rightarrow> u32 \<Rightarrow> u64 \<Rightarrow> u32" where
  "calculate_rpc symbols domain epoch_nonce =
     (let acc = foldl (\<lambda>acc s. acc + rpc_term s) (epoch_nonce + ucast domain * 31) symbols
      in ucast (acc AND 0xFFFFFFFF))"

section \<open>Closed form\<close>

definition sym_product :: "symbol \<Rightarrow> nat" where
  "sym_product s = unat (sym_value s) * unat (sym_lambda s) * unat (pol_code (sym_pol s))"

definition rpc_sum :: "symbol list \<Rightarrow> u32 \<Rightarrow> u64 \<Rightarrow> nat" where
  "rpc_sum symbols domain epoch_nonce =
     unat epoch_nonce + 31 * unat domain + 7919 * sum_list (map sym_product symbols)"

lemma rpc_term_of_nat: "rpc_term s = of_nat (7919 * sym_product s)"
  by (simp add: rpc_term_def sym_product_def RPC_PRIME_def Let_def ac_simps)

lemma rpc_fold: "foldl (\<lambda>acc s. acc + rpc_term s) a symbols
    = a + of_nat (7919 * sum_list (map sym_product symbols))"
  by (induction symbols arbitrary: a) (simp_all add: rpc_term_of_nat algebra_simps)

lemma low_half: "ucast (a AND 0xFFFFFFFF :: u64) = (ucast a :: u32)"
proof -
  have "(0xFFFFFFFF :: u64) = mask 32" by (simp add: mask_eq_decr_exp)
  then show ?thesis by (intro bit_word_eqI) (simp only: bit_simps, auto simp: bit_simps)
qed

lemma unat_rpc: "unat (calculate_rpc symbols domain epoch_nonce) = rpc_sum symbols domain epoch_nonce mod 2 ^ 32"
proof -
  have "epoch_nonce + ucast domain * 31 + of_nat (7919 * sum_list (map sym_product symbols))
      = (of_nat (rpc_sum symbols domain epoch_nonce) :: u64)"
    by (simp add: rpc_sum_def)
  then show ?thesis
    unfolding calculate_rpc_def rpc_fold Let_def low_half
    by (simp add: unsigned_ucast_eq unat_of_nat take_bit_eq_mod mod_mod_cancel)
qed

lemma rpc_eq_iff: "calculate_rpc ss d e = calculate_rpc ts c f \<longleftrightarrow> rpc_sum ss d e mod 2 ^ 32 = rpc_sum ts c f mod 2 ^ 32"
  by (metis unat_rpc word_unat_eq_iff)

lemma mod_add_cancel: "(a + c) mod m = (b + c) mod m \<longleftrightarrow> a mod m = b mod (m :: nat)"
proof -
  have "(int a + int c) mod int m = (int b + int c) mod int m \<longleftrightarrow> int a mod int m = int b mod int m"
    by (simp add: mod_eq_dvd_iff)
  then show ?thesis by (metis of_nat_add of_nat_eq_iff zmod_int)
qed

lemma odd_factor_cancel:
  assumes "(a + 7919 * x) mod 2 ^ 32 = (a + 7919 * y) mod (2 ^ 32 :: nat)" and "x < 2 ^ 32" and "y < 2 ^ 32"
  shows "x = y"
proof -
  have "coprime (2 ^ 32 :: int) 7919" by code_simp
  moreover have "(int a + 7919 * int x) mod 2 ^ 32 = (int a + 7919 * int y) mod 2 ^ 32"
    using arg_cong [OF assms(1), of int] by (simp add: zmod_int)
  then have "2 ^ 32 dvd (7919 * (int x - int y))"
    by (simp add: mod_eq_dvd_iff algebra_simps)
  ultimately have "2 ^ 32 dvd int x - int y" by (simp only: coprime_dvd_mult_right_iff)
  then have "int x mod 2 ^ 32 = int y mod 2 ^ 32" by (simp only: mod_eq_dvd_iff)
  with assms(2,3) show ?thesis by simp
qed

lemma sym_product_less: "sym_product s < 2 ^ 32"
proof -
  have "unat (pol_code (sym_pol s)) \<le> 5" by (cases "sym_pol s") simp_all
  moreover have "unat (sym_value s) * unat (sym_lambda s) \<le> 65535 * 255"
    using unat_less_pow [of "sym_value s"] unat_less_pow [of "sym_lambda s"] by (intro mult_le_mono) simp_all
  ultimately have "sym_product s \<le> 65535 * 255 * 5" unfolding sym_product_def by (simp only: mult_le_mono)
  then show ?thesis by simp
qed

text \<open>(C33) What the checksum catches when one symbol of a frame is altered: exactly the changes
  of the product of value, channel and polarization weight. A changed value is always caught
  on a non-zero channel; moving a zero value to another channel or polarization never is.\<close>

theorem rpc_substitution:
  "calculate_rpc (xs @ s # ys) d e = calculate_rpc (xs @ t # ys) d e \<longleftrightarrow> sym_product s = sym_product t"
proof
  assume "calculate_rpc (xs @ s # ys) d e = calculate_rpc (xs @ t # ys) d e"
  then have "(rpc_sum (xs @ ys) d e + 7919 * sym_product s) mod 2 ^ 32
      = (rpc_sum (xs @ ys) d e + 7919 * sym_product t) mod 2 ^ 32"
    by (simp only: rpc_eq_iff) (simp add: rpc_sum_def algebra_simps)
  then show "sym_product s = sym_product t" by (rule odd_factor_cancel) (rule sym_product_less)+
qed (simp add: rpc_eq_iff rpc_sum_def)

text \<open>What keeps the tags of one payload apart: two epochs have the same tag exactly when their
  nonces agree modulo \<open>2 ^ 32\<close>, whereas the two domains never share a tag within an epoch.
  Exchanging two neighbouring symbols never shows.\<close>

theorem rpc_separation:
  "(calculate_rpc ss d e = calculate_rpc ss d f \<longleftrightarrow> unat e mod 2 ^ 32 = unat f mod 2 ^ 32)
   \<and> calculate_rpc ss (domain_code LinkData) e \<noteq> calculate_rpc ss (domain_code ControlPlane) e
   \<and> calculate_rpc (xs @ s # t # ys) d e = calculate_rpc (xs @ t # s # ys) d e"
proof (intro conjI)
  from mod_add_cancel [of "unat e" "31 * unat d + 7919 * sum_list (map sym_product ss)" "2 ^ 32" "unat f"]
  show "calculate_rpc ss d e = calculate_rpc ss d f \<longleftrightarrow> unat e mod 2 ^ 32 = unat f mod 2 ^ 32"
    by (simp add: rpc_eq_iff rpc_sum_def add.assoc)
  show "calculate_rpc ss (domain_code LinkData) e \<noteq> calculate_rpc ss (domain_code ControlPlane) e"
    using mod_add_cancel [of 0 "rpc_sum ss 0 e" "2 ^ 32" 31] by (simp add: rpc_eq_iff rpc_sum_def add.assoc add.left_commute)
  show "calculate_rpc (xs @ s # t # ys) d e = calculate_rpc (xs @ t # s # ys) d e"
    by (simp add: rpc_eq_iff rpc_sum_def ac_simps)
qed

end
