(* ===== verification/D3Session.thy ===== *)
theory D3Session
  imports Handshake Rpc
begin

text \<open>
  Sessions of luxstream-otap-d3/src/session.rs: a completed handshake gives each side a
  \<open>d3_session\<close>, with which frames are sealed (checksum, canonical preimage, signature) and
  opened (signature first, then the checksum).
\<close>

section \<open>Sessions and frames\<close>

record ('s, 'v) d3_session =
  se_epoch_nonce :: u64
  se_signing_key :: "'s d3_signing_key"
  se_peer_key :: "'v d3_verifying_key"

record authenticated_frame =
  af_symbols :: "symbol list"
  af_rpc_tag :: u32
  af_d3_sig :: bytes

definition from_client_handshake ::
  "'v established_initiator \<Rightarrow> 's d3_signing_key \<Rightarrow> ('s, 'v) d3_session" where
  "from_client_handshake established our_sk = \<lparr>se_epoch_nonce = ei_epoch_nonce established,
     se_signing_key = our_sk, se_peer_key = ei_peer_pk established\<rparr>"

definition from_server_handshake ::
  "'v established_responder \<Rightarrow> 's d3_signing_key \<Rightarrow> ('s, 'v) d3_session" where
  "from_server_handshake established our_sk = \<lparr>se_epoch_nonce = er_epoch_nonce established,
     se_signing_key = our_sk, se_peer_key = er_peer_pk established\<rparr>"

section \<open>The signed bytes\<close>

definition symbol_bytes :: "symbol \<Rightarrow> bytes" where
  "symbol_bytes s = (let val_bytes = to_be_bytes 2 (sym_value s)
     in [val_bytes ! 0, val_bytes ! 1, sym_lambda s, ucast (pol_code (sym_pol s))])"

definition preimage_input :: "rpc_domain \<Rightarrow> u64 \<Rightarrow> symbol list \<Rightarrow> u32 \<Rightarrow> bytes" where
  "preimage_input domain epoch_nonce symbols rpc_tag =
     ascii ''LUXSTREAM-OTAP-D3-v1'' @ to_be_bytes 4 (domain_code domain) @ to_be_bytes 8 epoch_nonce
       @ to_be_bytes 4 (of_nat (length symbols) :: u32) @ concat (map symbol_bytes symbols)
       @ to_be_bytes 4 rpc_tag"

definition canonical_preimage :: "sha_fn \<Rightarrow> rpc_domain \<Rightarrow> u64 \<Rightarrow> symbol list \<Rightarrow> u32 \<Rightarrow> bytes" where
  "canonical_preimage sha domain epoch_nonce symbols rpc_tag =
     sha (preimage_input domain epoch_nonce symbols rpc_tag)"

section \<open>Sealing and opening\<close>

text \<open>The message of the second check, with the UTF-8 bytes of its dash.\<close>

definition RPC_FAILED :: string where
  "RPC_FAILED = ''RPC: re-verification failed '' @ [CHR 0xE2, CHR 0x80, CHR 0x94] @ '' sender bug or fault injection''"

definition seal :: "('s, 'v) ed25519 \<Rightarrow> sha_fn \<Rightarrow> ('s, 'v) d3_session \<Rightarrow> rpc_domain \<Rightarrow> symbol list \<Rightarrow>
    authenticated_frame" where
  "seal ed sha se domain symbols =
     (let rpc_tag = calculate_rpc symbols (domain_code domain) (se_epoch_nonce se);
          preimage = canonical_preimage sha domain (se_epoch_nonce se) symbols rpc_tag;
          sig = sign_raw ed (se_signing_key se) preimage
      in \<lparr>af_symbols = symbols, af_rpc_tag = rpc_tag, af_d3_sig = sig\<rparr>)"

definition open_frame :: "('s, 'v) ed25519 \<Rightarrow> sha_fn \<Rightarrow> ('s, 'v) d3_session \<Rightarrow> rpc_domain \<Rightarrow>
    authenticated_frame \<Rightarrow> string + symbol list" where
  "open_frame ed sha se domain frame =
     (let preimage = canonical_preimage sha domain (se_epoch_nonce se) (af_symbols frame) (af_rpc_tag frame) in
      try_bind (map_err (\<lambda>_. ''D3: signature verification failed'')
                  (verify_raw ed (se_peer_key se) preimage (af_d3_sig frame))) (\<lambda>_.
      let recomputed = calculate_rpc (af_symbols frame) (domain_code domain) (se_epoch_nonce se) in
      if recomputed \<noteq> af_rpc_tag frame
      then Inl RPC_FAILED
      else Inr (af_symbols frame)))"

section \<open>The preimage determines the frame\<close>

lemma length_symbol_bytes [simp]: "length (symbol_bytes s) = 4"
  by (simp add: symbol_bytes_def Let_def)

lemma pol_byte_inj: "(ucast (pol_code p) :: u8) = ucast (pol_code q) \<longleftrightarrow> p = q"
  by (cases p; cases q) simp_all

lemma symbol_bytes_inj: "symbol_bytes s = symbol_bytes t \<longleftrightarrow> s = t"
proof
  assume eq: "symbol_bytes s = symbol_bytes t"
  have "to_be_bytes 2 (sym_value s) = to_be_bytes 2 (sym_value t)"
    using eq by (intro nth_equalityI) (auto simp: symbol_bytes_def Let_def less_2_cases_iff)
  then have "sym_value s = sym_value t" by (intro to_be_bytes_inj) simp_all
  then show "s = t" using eq by (cases s, cases t) (simp add: symbol_bytes_def Let_def pol_byte_inj)
qed simp

lemma concat_blocks_inj:
  assumes "\<And>x. length (f x) = n" and "0 < n" and "\<And>x y. f x = f y \<longleftrightarrow> x = y"
  shows "concat (map f xs) = concat (map f ys) \<longleftrightarrow> xs = ys"
proof (induction xs arbitrary: ys)
  case Nil
  have "f y \<noteq> []" for y using assms(1) [of y] assms(2) by auto
  then show ?case by (cases ys) auto
next
  case (Cons x xs)
  have "f x \<noteq> []" using assms(1) [of x] assms(2) by auto
  then show ?case using Cons.IH assms(1,3) by (cases ys) (auto simp: append_eq_append_conv)
qed

lemma domain_code_inj: "domain_code c = domain_code d \<longleftrightarrow> c = d"
  by (cases c; cases d) simp_all

lemma preimage_input_inj:
  "preimage_input c e xs t = preimage_input d f ys u \<longleftrightarrow> c = d \<and> e = f \<and> xs = ys \<and> t = u"
proof
  assume eq: "preimage_input c e xs t = preimage_input d f ys u"
  have "to_be_bytes 4 (domain_code c) = to_be_bytes 4 (domain_code d)" and "to_be_bytes 8 e = to_be_bytes 8 f"
    and r: "concat (map symbol_bytes xs) @ to_be_bytes 4 t = concat (map symbol_bytes ys) @ to_be_bytes 4 u"
    using eq by (simp_all add: preimage_input_def)
  moreover from r have "to_be_bytes 4 t = to_be_bytes 4 u" "concat (map symbol_bytes xs) = concat (map symbol_bytes ys)"
    by (simp_all add: append_eq_append_conv)
  ultimately show "c = d \<and> e = f \<and> xs = ys \<and> t = u"
    using concat_blocks_inj [of symbol_bytes 4 xs ys]
    by (auto dest!: to_be_bytes_inj [rotated] simp: symbol_bytes_inj domain_code_inj)
qed simp

lemma preimage_not_hello: "preimage_input c e xs t \<noteq> nonce_input (ascii ''HELLO-R'') a b"
  "preimage_input c e xs t \<noteq> nonce_input (ascii ''HELLO-I'') a b"
  by (simp_all add: preimage_input_def nonce_input_def ascii_def)

section \<open>Opening what was sealed\<close>

lemma open_cases:
  "open_frame ed sha se d fr =
     (if \<not> ed_verify ed (d3_vk (se_peer_key se))
           (canonical_preimage sha d (se_epoch_nonce se) (af_symbols fr) (af_rpc_tag fr)) (af_d3_sig fr)
      then Inl ''D3: signature verification failed''
      else if calculate_rpc (af_symbols fr) (domain_code d) (se_epoch_nonce se) \<noteq> af_rpc_tag fr
      then Inl RPC_FAILED
      else Inr (af_symbols fr))"
  by (simp add: open_frame_def verify_raw_def Let_def)

text \<open>Two sessions are linked when the second knows the first's key and both have the same
  epoch.\<close>

definition linked :: "('s, 'v) ed25519 \<Rightarrow> ('s, 'v) d3_session \<Rightarrow> ('s, 'v) d3_session \<Rightarrow> bool" where
  "linked ed a b \<longleftrightarrow> se_peer_key b = d3_verifying_key_of ed (se_signing_key a) \<and> se_epoch_nonce a = se_epoch_nonce b"

lemma open_seal:
  "ed_correct ed \<Longrightarrow> linked ed a b \<Longrightarrow> open_frame ed sha b d (seal ed sha a d symbols) = Inr symbols"
  by (simp add: open_cases seal_def Let_def linked_def ed_correct_def d3_verifying_key_of_def sign_raw_def)

end
