(* ===== verification/HsNet.thy ===== *)
theory HsNet
  imports D3Session
begin

text \<open>
  The handshake and the frames under an active attacker. Honest parties run the functions of
  handshake.rs and session.rs; every message they receive is chosen by the attacker, who is
  limited in one way only: a signature the attacker presents verifies under an honest key only
  for strings that key has signed. The state is a history: which strings were signed, which
  half-open and completed handshakes there are, which frames were sealed. The theorems are the
  agreement each side has when its handshake completes, the authenticity of an opened frame,
  and what the messages do not bind.
\<close>

section \<open>States\<close>

record ('s, 'v) net =
  signed :: "('s d3_signing_key \<times> bytes) set"
  iwait :: "('s, 'v) initiator_wait_msg2 set"
  rwait :: "('s, 'v) responder_wait_msg3 set"
  idone :: "(('s, 'v) initiator_wait_msg2 \<times> bytes \<times> 'v established_initiator) set"
  rdone :: "(('s, 'v) responder_wait_msg3 \<times> 'v established_responder) set"
  sealed :: "('s d3_signing_key \<times> rpc_domain \<times> u64 \<times> authenticated_frame) set"

definition net_init :: "('s, 'v) net" where
  "net_init = \<lparr>signed = {}, iwait = {}, rwait = {}, idone = {}, rdone = {}, sealed = {}\<rparr>"

abbreviation hello_r :: "bytes \<Rightarrow> bytes \<Rightarrow> bytes" where
  "hello_r ni nr \<equiv> nonce_input (ascii ''HELLO-R'') ni nr"

abbreviation hello_i :: "bytes \<Rightarrow> bytes \<Rightarrow> bytes" where
  "hello_i ni nr \<equiv> nonce_input (ascii ''HELLO-I'') nr ni"

abbreviation frame_string :: "rpc_domain \<Rightarrow> u64 \<Rightarrow> authenticated_frame \<Rightarrow> bytes" where
  "frame_string d e fr \<equiv> preimage_input d e (af_symbols fr) (af_rpc_tag fr)"

definition unforged :: "('s, 'v) ed25519 \<Rightarrow> sha_fn \<Rightarrow> 's d3_signing_key set \<Rightarrow>
    ('s d3_signing_key \<times> bytes) set \<Rightarrow> bytes \<Rightarrow> bool" where
  "unforged ed sha H log sig \<longleftrightarrow>
     (\<forall>sk \<in> H. \<forall>d. ed_verify ed (ed_public ed (d3_sk sk)) d sig \<longrightarrow> (\<exists>x. (sk, x) \<in> log \<and> d = sha x))"

section \<open>Steps\<close>

inductive net_step :: "('s, 'v) ed25519 \<Rightarrow> sha_fn \<Rightarrow> 's d3_signing_key set \<Rightarrow>
    ('s, 'v) net \<Rightarrow> ('s, 'v) net \<Rightarrow> bool"
  for ed :: "('s, 'v) ed25519" and sha :: sha_fn and H :: "'s d3_signing_key set" where
  Start: "sk \<in> H \<Longrightarrow> length ni = NONCE_LEN \<Longrightarrow> initiator_start ed ni (initiator_new sk peer) = (w, m1) \<Longrightarrow>
     net_step ed sha H st (st\<lparr>iwait := insert w (iwait st)\<rparr>)"
| Msg1: "sk \<in> H \<Longrightarrow> length nr = NONCE_LEN \<Longrightarrow> wf_msg1 m1 \<Longrightarrow>
     handle_msg1 ed sha nr (responder_new sk acl) m1 = Inr (r, m2) \<Longrightarrow>
     net_step ed sha H st (st\<lparr>rwait := insert r (rwait st), signed := insert (sk, hello_r (m1_nonce_i m1) nr) (signed st)\<rparr>)"
| Msg2: "w \<in> iwait st \<Longrightarrow> wf_msg2 m2 \<Longrightarrow> unforged ed sha H (signed st) (m2_sig_r m2) \<Longrightarrow>
     finish ed sha w m2 = Inr (e, m3) \<Longrightarrow>
     net_step ed sha H st (st\<lparr>idone := insert (w, m2_nonce_r m2, e) (idone st),
       signed := insert (iw_sk w, hello_i (iw_nonce_i w) (m2_nonce_r m2)) (signed st)\<rparr>)"
| Msg3: "r \<in> rwait st \<Longrightarrow> wf_msg3 m3 \<Longrightarrow> unforged ed sha H (signed st) (m3_sig_i m3) \<Longrightarrow>
     handle_msg3 ed sha r m3 = Inr e \<Longrightarrow>
     net_step ed sha H st (st\<lparr>rdone := insert (r, e) (rdone st)\<rparr>)"
| Seal: "se_signing_key se \<in> H \<Longrightarrow> seal ed sha se d symbols = fr \<Longrightarrow>
     net_step ed sha H st (st\<lparr>sealed := insert (se_signing_key se, d, se_epoch_nonce se, fr) (sealed st),
       signed := insert (se_signing_key se, frame_string d (se_epoch_nonce se) fr) (signed st)\<rparr>)"

inductive net_reach :: "('s, 'v) ed25519 \<Rightarrow> sha_fn \<Rightarrow> 's d3_signing_key set \<Rightarrow> ('s, 'v) net \<Rightarrow> bool"
  for ed :: "('s, 'v) ed25519" and sha :: sha_fn and H :: "'s d3_signing_key set" where
  Init: "net_reach ed sha H net_init"
| Step: "net_reach ed sha H st \<Longrightarrow> net_step ed sha H st st' \<Longrightarrow> net_reach ed sha H st'"

inductive_cases net_stepE: "net_step ed sha H st st'"

section \<open>Invariants\<close>

text \<open>Every signed string has its origin in a step of its signer.\<close>

definition signed_origin :: "('s, 'v) net \<Rightarrow> bool" where
  "signed_origin st \<longleftrightarrow> (\<forall>(sk, x) \<in> signed st.
     (\<exists>r \<in> rwait st. rw_sk r = sk \<and> x = hello_r (rw_nonce_i r) (rw_nonce_r r))
   \<or> (\<exists>(w, nr, e) \<in> idone st. iw_sk w = sk \<and> x = hello_i (iw_nonce_i w) nr)
   \<or> (\<exists>(k, d, e, fr) \<in> sealed st. k = sk \<and> x = frame_string d e fr))"

definition nonces_sized :: "('s, 'v) net \<Rightarrow> bool" where
  "nonces_sized st \<longleftrightarrow> (\<forall>w \<in> iwait st. length (iw_nonce_i w) = NONCE_LEN)
     \<and> (\<forall>r \<in> rwait st. length (rw_nonce_i r) = NONCE_LEN \<and> length (rw_nonce_r r) = NONCE_LEN)
     \<and> (\<forall>(w, nr, e) \<in> idone st. w \<in> iwait st \<and> length nr = NONCE_LEN)
     \<and> (\<forall>(r, e) \<in> rdone st. r \<in> rwait st)"

text \<open>A completed handshake with an honest peer was completed on a string the peer signed.\<close>

definition done_signed :: "('s, 'v) ed25519 \<Rightarrow> sha_fn \<Rightarrow> 's d3_signing_key set \<Rightarrow> ('s, 'v) net \<Rightarrow> bool" where
  "done_signed ed sha H st \<longleftrightarrow>
     (\<forall>(w, nr, e) \<in> idone st. ei_epoch_nonce e = derive_epoch_nonce sha (iw_nonce_i w) nr
        \<and> (\<forall>B \<in> H. iw_peer_pk w = d3_verifying_key_of ed B \<longrightarrow>
              (\<exists>x. (B, x) \<in> signed st \<and> sha (hello_r (iw_nonce_i w) nr) = sha x)))
   \<and> (\<forall>(r, e) \<in> rdone st. er_epoch_nonce e = derive_epoch_nonce sha (rw_nonce_i r) (rw_nonce_r r)
        \<and> (\<forall>A \<in> H. rw_client_pk r = d3_verifying_key_of ed A \<longrightarrow>
              (\<exists>x. (A, x) \<in> signed st \<and> sha (hello_i (rw_nonce_i r) (rw_nonce_r r)) = sha x)))"

lemma step_origin: "net_step ed sha H st st' \<Longrightarrow> signed_origin st \<Longrightarrow> signed_origin st'"
  by (induction rule: net_step.induct) (fastforce simp: signed_origin_def handle_msg1_Inr responder_new_def)+

lemma step_sized: "net_step ed sha H st st' \<Longrightarrow> nonces_sized st \<Longrightarrow> nonces_sized st'"
  by (induction rule: net_step.induct)
    (fastforce simp: nonces_sized_def handle_msg1_Inr initiator_start_def Let_def wf_msg1_def wf_msg2_def)+

lemma step_done: "net_step ed sha H st st' \<Longrightarrow> done_signed ed sha H st \<Longrightarrow> done_signed ed sha H st'"
proof (induction rule: net_step.induct)
  case (Msg2 w st m2 e m3)
  then show ?case
    by (fastforce simp: done_signed_def finish_cases unforged_def hash_nonces_def d3_verifying_key_of_def split: if_splits)
next
  case (Msg3 r st m3 e)
  then show ?case
    by (fastforce simp: done_signed_def handle_msg3_cases unforged_def hash_nonces_def d3_verifying_key_of_def split: if_splits)
qed (fastforce simp: done_signed_def)+

lemma reach_inv:
  assumes "net_reach ed sha H st"
  shows "signed_origin st" and "nonces_sized st" and "done_signed ed sha H st"
proof -
  have "signed_origin st \<and> nonces_sized st \<and> done_signed ed sha H st"
    using assms
  proof (induction rule: net_reach.induct)
    case Init
    then show ?case by (simp add: net_init_def signed_origin_def nonces_sized_def done_signed_def)
  next
    case (Step st st')
    then show ?case using step_origin step_sized step_done by blast
  qed
  then show "signed_origin st" "nonces_sized st" "done_signed ed sha H st" by simp_all
qed

section \<open>Agreement\<close>

text \<open>The strings hashed in a run, to sign or to verify; that SHA-256 has no collision is asked of
  these finitely many only.\<close>

definition hashed :: "('s, 'v) net \<Rightarrow> bytes set" where
  "hashed st = snd ` signed st \<union> (\<lambda>(w, nr, e). hello_r (iw_nonce_i w) nr) ` idone st
     \<union> (\<lambda>(r, e). hello_i (rw_nonce_i r) (rw_nonce_r r)) ` rdone st"

lemma hello_r_eq: "length a = NONCE_LEN \<Longrightarrow> length c = NONCE_LEN \<Longrightarrow> hello_r a b = hello_r c d \<longleftrightarrow> a = c \<and> b = d"
  and hello_i_eq: "length b = NONCE_LEN \<Longrightarrow> length d = NONCE_LEN \<Longrightarrow> hello_i a b = hello_i c d \<longleftrightarrow> a = c \<and> b = d"
  by (auto simp: nonce_input_eq_iff)

text \<open>Where a signed string comes from, by its form.\<close>

lemma origin_hello_r:
  assumes "signed_origin st" and "nonces_sized st" and "(sk, hello_r ni nr) \<in> signed st" and "length ni = NONCE_LEN"
  shows "\<exists>r \<in> rwait st. rw_sk r = sk \<and> rw_nonce_i r = ni \<and> rw_nonce_r r = nr"
  using assms
  by (fastforce simp: signed_origin_def nonces_sized_def hello_roles preimage_not_hello [symmetric] nonce_input_eq_iff)

lemma origin_hello_i:
  assumes "signed_origin st" and "nonces_sized st" and "(sk, hello_i ni nr) \<in> signed st" and "length nr = NONCE_LEN"
  shows "\<exists>(w, nr', e) \<in> idone st. iw_sk w = sk \<and> iw_nonce_i w = ni \<and> nr' = nr"
  using assms
  by (fastforce simp: signed_origin_def nonces_sized_def hello_roles [symmetric] preimage_not_hello [symmetric] nonce_input_eq_iff)

lemma origin_frame:
  assumes "signed_origin st" and "(sk, preimage_input d e ss t) \<in> signed st"
  shows "\<exists>fr. (sk, d, e, fr) \<in> sealed st \<and> af_symbols fr = ss \<and> af_rpc_tag fr = t"
  using assms by (fastforce simp: signed_origin_def preimage_not_hello preimage_input_inj)

text \<open>(C3) When an initiator completes a handshake with an honest server key, that server has
  answered exactly this initiator's nonce with exactly the nonce the initiator received, and the
  epoch nonce is the one the server derives from them; whatever the attacker delivered. The
  assumption on SHA-256 concerns the strings of this run.\<close>

theorem initiator_agreement:
  assumes "net_reach ed sha H st" and "inj_on sha (hashed st)" and "(w, nr, e) \<in> idone st"
    and "iw_peer_pk w = d3_verifying_key_of ed B" and "B \<in> H"
  shows "\<exists>r \<in> rwait st. rw_sk r = B \<and> rw_nonce_i r = iw_nonce_i w \<and> rw_nonce_r r = nr
    \<and> ei_epoch_nonce e = derive_epoch_nonce sha (rw_nonce_i r) (rw_nonce_r r)"
proof -
  note inv = reach_inv [OF assms(1)]
  from inv(3) assms(3-5) obtain x where x: "(B, x) \<in> signed st" "sha (hello_r (iw_nonce_i w) nr) = sha x"
    and e: "ei_epoch_nonce e = derive_epoch_nonce sha (iw_nonce_i w) nr"
    by (fastforce simp: done_signed_def)
  have "hello_r (iw_nonce_i w) nr \<in> hashed st" "x \<in> hashed st"
    using assms(3) x(1) by (force simp: hashed_def)+
  with assms(2) x have "(B, hello_r (iw_nonce_i w) nr) \<in> signed st" by (auto dest: inj_onD)
  moreover have "length (iw_nonce_i w) = NONCE_LEN" using inv(2) assms(3) by (fastforce simp: nonces_sized_def)
  ultimately show ?thesis using origin_hello_r [OF inv(1,2)] e by fastforce
qed

text \<open>(C6) When a responder completes a handshake for an honest client key, that client has completed
  the same handshake: the same two nonces, hence the same epoch nonce.\<close>

theorem responder_agreement:
  assumes "net_reach ed sha H st" and "inj_on sha (hashed st)" and "(r, e) \<in> rdone st"
    and "rw_client_pk r = d3_verifying_key_of ed A" and "A \<in> H"
  shows "\<exists>(w, nr, e') \<in> idone st. iw_sk w = A \<and> iw_nonce_i w = rw_nonce_i r \<and> nr = rw_nonce_r r
    \<and> ei_epoch_nonce e' = er_epoch_nonce e"
proof -
  note inv = reach_inv [OF assms(1)]
  from inv(3) assms(3-5) obtain x where x: "(A, x) \<in> signed st" "sha (hello_i (rw_nonce_i r) (rw_nonce_r r)) = sha x"
    and e: "er_epoch_nonce e = derive_epoch_nonce sha (rw_nonce_i r) (rw_nonce_r r)"
    by (fastforce simp: done_signed_def)
  have "hello_i (rw_nonce_i r) (rw_nonce_r r) \<in> hashed st" "x \<in> hashed st"
    using assms(3) x(1) by (force simp: hashed_def)+
  with assms(2) x have "(A, hello_i (rw_nonce_i r) (rw_nonce_r r)) \<in> signed st" by (auto dest: inj_onD)
  moreover have "length (rw_nonce_r r) = NONCE_LEN" using inv(2) assms(3) by (fastforce simp: nonces_sized_def)
  ultimately obtain w nr e' where w: "(w, nr, e') \<in> idone st" "iw_sk w = A" "iw_nonce_i w = rw_nonce_i r" "nr = rw_nonce_r r"
    using origin_hello_i [OF inv(1,2)] by fastforce
  moreover have "ei_epoch_nonce e' = derive_epoch_nonce sha (iw_nonce_i w) nr"
    using inv(3) w(1) by (fastforce simp: done_signed_def)
  ultimately show ?thesis using e by (intro bexI [OF _ w(1)]) simp
qed

text \<open>(C7) A frame that opens under an honest peer's key was sealed by that peer, with these symbols
  and this checksum, in this domain and for this epoch. Frames of another domain or epoch, and
  handshake signatures, cannot be passed off as it.\<close>

theorem frame_authentic:
  assumes "net_reach ed sha H st" and "inj_on sha (insert (frame_string d (se_epoch_nonce se) fr) (hashed st))"
    and "unforged ed sha H (signed st) (af_d3_sig fr)" and "se_peer_key se = d3_verifying_key_of ed B" and "B \<in> H"
    and "open_frame ed sha se d fr = Inr symbols"
  shows "\<exists>fr'. (B, d, se_epoch_nonce se, fr') \<in> sealed st \<and> af_symbols fr' = symbols \<and> af_rpc_tag fr' = af_rpc_tag fr"
proof -
  from assms(6) have v: "ed_verify ed (ed_public ed (d3_sk B))
      (sha (frame_string d (se_epoch_nonce se) fr)) (af_d3_sig fr)" and s: "af_symbols fr = symbols"
    using assms(4) by (auto simp: open_cases canonical_preimage_def d3_verifying_key_of_def split: if_splits)
  from v assms(3,5) obtain x where x: "(B, x) \<in> signed st" "sha (frame_string d (se_epoch_nonce se) fr) = sha x"
    unfolding unforged_def by blast
  then have "x \<in> hashed st" by (force simp: hashed_def)
  with assms(2) x have "(B, frame_string d (se_epoch_nonce se) fr) \<in> signed st" by (auto dest: inj_onD)
  then show ?thesis using origin_frame [OF reach_inv(1) [OF assms(1)]] s by simp
qed

section \<open>A run\<close>

text \<open>A complete handshake between two keys of the sample scheme, followed by a frame from the
  responder.\<close>

abbreviation key_a :: "u8 d3_signing_key" where "key_a \<equiv> D3SigningKey 1"
abbreviation key_b :: "u8 d3_signing_key" where "key_b \<equiv> D3SigningKey 2"

definition run_ni :: bytes where "run_ni = replicate 32 5"
definition run_nr :: bytes where "run_nr = replicate 32 6"

definition run_epoch :: u64 where "run_epoch = derive_epoch_nonce sample_sha run_ni run_nr"

definition run_w :: "(u8, u8) initiator_wait_msg2" where
  "run_w = \<lparr>iw_sk = key_a, iw_peer_pk = D3VerifyingKey 2, iw_nonce_i = run_ni\<rparr>"

definition run_r :: "(u8, u8) responder_wait_msg3" where
  "run_r = \<lparr>rw_sk = key_b, rw_client_pk = D3VerifyingKey 1, rw_nonce_i = run_ni, rw_nonce_r = run_nr\<rparr>"

definition run_e :: "u8 established_initiator" where
  "run_e = \<lparr>ei_epoch_nonce = run_epoch, ei_peer_pk = D3VerifyingKey 2\<rparr>"

definition run_f :: "u8 established_responder" where
  "run_f = \<lparr>er_epoch_nonce = run_epoch, er_peer_pk = D3VerifyingKey 1\<rparr>"

definition run_symbols :: "symbol list" where
  "run_symbols = [\<lparr>sym_value = 777, sym_lambda = 34, sym_pol = Pol_D\<rparr>]"

definition run_frame :: authenticated_frame where
  "run_frame = seal sample_ed sample_sha (from_server_handshake run_f key_b) LinkData run_symbols"

definition run_net :: "(u8, u8) net" where
  "run_net = \<lparr>signed = {(key_b, frame_string LinkData run_epoch run_frame),
       (key_a, hello_i run_ni run_nr), (key_b, hello_r run_ni run_nr)},
     iwait = {run_w}, rwait = {run_r}, idone = {(run_w, run_nr, run_e)}, rdone = {(run_r, run_f)},
     sealed = {(key_b, LinkData, run_epoch, run_frame)}\<rparr>"

lemma length_sample_sha [simp]: "length (sample_sha m) = 32"
  by (simp add: sample_sha_def)

lemma length_sample_sign [simp]: "length (sample_sign k m) = 64"
  by (simp add: sample_sign_def)

lemma run_lengths [simp]: "length run_ni = 32" "length run_nr = 32"
  by (simp_all add: run_ni_def run_nr_def)

lemma sample_sign_inj: "length m = 32 \<Longrightarrow> sample_sign a m = sample_sign b d \<longleftrightarrow> a = b \<and> m = d"
  by (auto simp: sample_sign_def split: if_splits)

lemma sample_unforged:
  "(D3SigningKey k, x) \<in> log \<Longrightarrow> unforged sample_ed sample_sha H log (sample_sign k (sample_sha x))"
  by (auto simp: unforged_def sample_ed_def sample_sign_inj)

lemma run_reach: "net_reach sample_ed sample_sha {key_a, key_b} run_net"
proof -
  let ?R = "net_reach sample_ed sample_sha {key_a, key_b}"
  define s1 where "s1 = net_init\<lparr>iwait := {run_w}\<rparr>"
  define s2 where "s2 = s1\<lparr>rwait := {run_r}, signed := {(key_b, hello_r run_ni run_nr)}\<rparr>"
  define s3 where "s3 = s2\<lparr>idone := {(run_w, run_nr, run_e)},
    signed := {(key_a, hello_i run_ni run_nr), (key_b, hello_r run_ni run_nr)}\<rparr>"
  define s4 where "s4 = s3\<lparr>rdone := {(run_r, run_f)}\<rparr>"
  have 1: "?R s1"
    using net_reach.Step [OF net_reach.Init net_step.Start [where sk = key_a and ni = run_ni and peer = "D3VerifyingKey 2" and w = run_w]]
    by (simp add: s1_def net_init_def initiator_start_def initiator_new_def Let_def run_w_def key_sizes)
  have 2: "?R s2"
  proof -
    have "handle_msg1 sample_ed sample_sha run_nr (responder_new key_b allow_all)
        \<lparr>m1_client_pk = 1 # replicate 31 0, m1_nonce_i = run_ni\<rparr>
      = Inr (run_r, \<lparr>m2_server_pk = 2 # replicate 31 0, m2_nonce_r = run_nr,
          m2_sig_r = sample_sign 2 (sample_sha (hello_r run_ni run_nr))\<rparr>)"
      by (simp add: handle_msg1_Inr responder_new_def allow_all_def d3_vk_from_bytes_def sample_ed_def run_r_def
          d3_vk_as_bytes_def d3_verifying_key_of_def sign_raw_def hash_nonces_def)
    from net_reach.Step [OF 1 net_step.Msg1 [OF _ _ _ this]] show ?thesis
      by (simp add: s2_def s1_def net_init_def wf_msg1_def key_sizes)
  qed
  have 3: "?R s3"
  proof -
    let ?m = "\<lparr>m2_server_pk = 2 # replicate 31 0, m2_nonce_r = run_nr, m2_sig_r = sample_sign 2 (sample_sha (hello_r run_ni run_nr))\<rparr>"
    have "\<exists>m3. finish sample_ed sample_sha run_w ?m = Inr (run_e, m3)"
      by (simp add: finish_cases run_w_def run_e_def run_epoch_def sample_ed_def hash_nonces_def)
    then obtain m3 where "finish sample_ed sample_sha run_w ?m = Inr (run_e, m3)" ..
    from net_reach.Step [OF 2 net_step.Msg2 [OF _ _ _ this]] show ?thesis
      by (simp add: s3_def s2_def s1_def net_init_def wf_msg2_def key_sizes sample_unforged) (simp add: run_w_def)
  qed
  have 4: "?R s4"
  proof -
    have "handle_msg3 sample_ed sample_sha run_r
        \<lparr>m3_client_pk = 1 # replicate 31 0, m3_sig_i = sample_sign 1 (sample_sha (hello_i run_ni run_nr))\<rparr> = Inr run_f"
      by (simp add: handle_msg3_cases run_r_def run_f_def run_epoch_def sample_ed_def hash_nonces_def)
    from net_reach.Step [OF 3 net_step.Msg3 [OF _ _ _ this]] show ?thesis
      by (simp add: s4_def s3_def s2_def s1_def net_init_def wf_msg3_def key_sizes sample_unforged)
  qed
  have "from_server_handshake run_f key_b = \<lparr>se_epoch_nonce = run_epoch, se_signing_key = key_b, se_peer_key = D3VerifyingKey 1\<rparr>"
    by (simp add: from_server_handshake_def run_f_def)
  then show ?thesis
    using net_reach.Step [OF 4 net_step.Seal [OF _ run_frame_def [symmetric]]]
    by (simp add: run_net_def s4_def s3_def s2_def s1_def net_init_def)
qed

lemma run_collision_free: "inj_on sample_sha (hashed run_net)"
proof -
  have "hashed run_net = {frame_string LinkData run_epoch run_frame, hello_i run_ni run_nr, hello_r run_ni run_nr}"
    by (auto simp: hashed_def run_net_def run_w_def run_r_def)
  moreover have "sample_sha (hello_i run_ni run_nr) \<noteq> sample_sha (hello_r run_ni run_nr)"
    by (simp add: sample_sha_def nonce_input_def ascii_def)
  moreover have f: "sample_sha (nonce_input (ascii (CHR ''H'' # p)) a b) \<noteq> sample_sha (frame_string LinkData run_epoch run_frame)" for p a b
    by (simp add: sample_sha_def nonce_input_def preimage_input_def ascii_def)
  moreover note f [symmetric]
  ultimately show ?thesis by (simp add: inj_on_def)
qed

theorem initiator_agreement_witness:
  "net_reach sample_ed sample_sha {key_a, key_b} run_net \<and> inj_on sample_sha (hashed run_net)
   \<and> (\<exists>r \<in> rwait run_net. rw_sk r = key_b \<and> rw_nonce_i r = run_ni \<and> rw_nonce_r r = run_nr
        \<and> ei_epoch_nonce run_e = derive_epoch_nonce sample_sha (rw_nonce_i r) (rw_nonce_r r))"
  using initiator_agreement [OF run_reach run_collision_free, of run_w run_nr run_e key_b] run_reach run_collision_free
  by (simp add: run_net_def run_w_def d3_verifying_key_of_def sample_ed_def)

theorem responder_agreement_witness:
  "net_reach sample_ed sample_sha {key_a, key_b} run_net \<and> inj_on sample_sha (hashed run_net)
   \<and> (\<exists>(w, nr, e') \<in> idone run_net. iw_sk w = key_a \<and> iw_nonce_i w = run_ni \<and> nr = run_nr
        \<and> ei_epoch_nonce e' = er_epoch_nonce run_f)"
  using responder_agreement [OF run_reach run_collision_free, of run_r run_f key_a] run_reach run_collision_free
  by (simp add: run_net_def run_r_def d3_verifying_key_of_def sample_ed_def)

theorem frame_authentic_witness:
  "open_frame sample_ed sample_sha (from_client_handshake run_e key_a) LinkData run_frame = Inr run_symbols
   \<and> (\<exists>fr'. (key_b, LinkData, run_epoch, fr') \<in> sealed run_net \<and> af_symbols fr' = run_symbols
        \<and> af_rpc_tag fr' = af_rpc_tag run_frame)"
proof -
  let ?se = "from_client_handshake run_e key_a"
  have o: "open_frame sample_ed sample_sha ?se LinkData run_frame = Inr run_symbols"
    unfolding run_frame_def
    by (rule open_seal [OF sample_ed_correct])
      (simp add: linked_def from_client_handshake_def from_server_handshake_def run_e_def run_f_def
        d3_verifying_key_of_def sample_ed_def)
  have e: "se_epoch_nonce ?se = run_epoch" by (simp add: from_client_handshake_def run_e_def)
  have "frame_string LinkData run_epoch run_frame \<in> hashed run_net" by (simp add: hashed_def run_net_def)
  then have i: "inj_on sample_sha (insert (frame_string LinkData run_epoch run_frame) (hashed run_net))"
    using run_collision_free by (simp add: insert_absorb)
  have "af_d3_sig run_frame = sample_sign 2 (sample_sha (frame_string LinkData run_epoch run_frame))"
    by (simp add: run_frame_def seal_def Let_def canonical_preimage_def sign_raw_def sample_ed_def from_server_handshake_def run_f_def)
  then have u: "unforged sample_ed sample_sha {key_a, key_b} (signed run_net) (af_d3_sig run_frame)"
    by (simp add: sample_unforged run_net_def)
  show ?thesis
    using frame_authentic [OF run_reach _ u _ _ o, of key_b] i o
    by (simp add: e) (simp add: from_client_handshake_def run_e_def d3_verifying_key_of_def sample_ed_def)
qed

section \<open>What the messages do not bind\<close>

text \<open>(C38) The signatures cover the nonces but not the identities. An attacker whose key the server
  admits replaces the client key in the first message and signs the third: the server then holds
  a session with the attacker, the client one with the server, with the same epoch nonce, and
  what the server seals for the attacker opens at the client.\<close>

theorem identity_misbinding:
  assumes "ed_correct ed" and "acl (d3_vk_as_bytes ed (d3_verifying_key_of ed E))"
  shows "\<exists>r m2 ei m3 er.
    handle_msg1 ed sha nr (responder_new B acl)
      ((snd (initiator_start ed ni (initiator_new A (d3_verifying_key_of ed B))))
         \<lparr>m1_client_pk := d3_vk_as_bytes ed (d3_verifying_key_of ed E)\<rparr>) = Inr (r, m2)
    \<and> finish ed sha (fst (initiator_start ed ni (initiator_new A (d3_verifying_key_of ed B)))) m2 = Inr (ei, m3)
    \<and> handle_msg3 ed sha r (m3\<lparr>m3_sig_i := sign_raw ed E (hash_nonces sha (ascii ''HELLO-I'') nr ni)\<rparr>) = Inr er
    \<and> ei_peer_pk ei = d3_verifying_key_of ed B \<and> er_peer_pk er = d3_verifying_key_of ed E
    \<and> ei_epoch_nonce ei = er_epoch_nonce er
    \<and> open_frame ed sha (from_client_handshake ei A) d (seal ed sha (from_server_handshake er B) d symbols) = Inr symbols"
proof -
  have v: "ed_verify ed (d3_vk (d3_verifying_key_of ed k)) m (sign_raw ed k m)" for k m
    using ed_correctD(4) [OF assms(1), of k m] by (simp add: verify_raw_ok_iff)
  show ?thesis
    using assms(2) ed_correctD(2) [OF assms(1)]
    by (simp add: handle_msg1_Inr finish_cases handle_msg3_cases initiator_start_def initiator_new_def
        responder_new_def Let_def v)
      (intro open_seal [OF assms(1)], simp add: linked_def from_client_handshake_def from_server_handshake_def)
qed

theorem identity_misbinding_witness:
  "ed_correct sample_ed \<and> (\<exists>r m2. handle_msg1 sample_ed sample_sha run_nr (responder_new key_b allow_all)
      ((snd (initiator_start sample_ed run_ni (initiator_new key_a (d3_verifying_key_of sample_ed key_b))))
         \<lparr>m1_client_pk := d3_vk_as_bytes sample_ed (d3_verifying_key_of sample_ed (D3SigningKey 3))\<rparr>) = Inr (r, m2)
     \<and> is_ok (finish sample_ed sample_sha
         (fst (initiator_start sample_ed run_ni (initiator_new key_a (d3_verifying_key_of sample_ed key_b)))) m2))"
  using identity_misbinding [OF sample_ed_correct, of allow_all "D3SigningKey 3" sample_sha run_nr key_b run_ni key_a]
    sample_ed_correct
  by (fastforce simp: allow_all_def)

end
