(* ===== verification/Transport.thy ===== *)
theory Transport
  imports D3Session
begin

text \<open>
  The handshake over a socket, luxstream-otap-d3/src/transport.rs. A stream is the bytes that
  will still arrive, the bytes sent so far and a schedule of I/O failures: the n-th operation may
  fail with a message, a failing write after any prefix. The two drivers run the state machines
  of \<open>Handshake\<close> over it; \<open>?\<close> and \<open>.await\<close> are the bind of a small result-and-stream monad.
\<close>

section \<open>Streams\<close>

record tcp_stream =
  inbox :: bytes
  sent :: bytes
  faults :: "nat \<Rightarrow> (string \<times> nat) option"
  ops :: nat

type_synonym 'a io = "tcp_stream \<Rightarrow> (hs_error + 'a) \<times> tcp_stream"

definition io_bind :: "'a io \<Rightarrow> ('a \<Rightarrow> 'b io) \<Rightarrow> 'b io" where
  "io_bind m k s = (case m s of (Inl e, s') \<Rightarrow> (Inl e, s') | (Inr v, s') \<Rightarrow> k v s')"

definition io_try :: "hs_error + 'a \<Rightarrow> 'a io" where
  "io_try r s = (r, s)"

text \<open>\<open>write_all\<close> and \<open>read_exact\<close>, with \<open>map_err(|e| HsError::Transport(e.to_string()))\<close>.\<close>

definition write_all :: "bytes \<Rightarrow> unit io" where
  "write_all bs s = (case faults s (ops s) of
     Some (e, n) \<Rightarrow> (Inl (Transport e), s\<lparr>sent := sent s @ take n bs, ops := Suc (ops s)\<rparr>)
   | None \<Rightarrow> (Inr (), s\<lparr>sent := sent s @ bs, ops := Suc (ops s)\<rparr>))"

definition read_exact :: "nat \<Rightarrow> bytes io" where
  "read_exact len s = (case faults s (ops s) of
     Some (e, n) \<Rightarrow> (Inl (Transport e), s\<lparr>inbox := drop n (inbox s), ops := Suc (ops s)\<rparr>)
   | None \<Rightarrow> if length (inbox s) < len then (Inl (Transport ''early eof''), s\<lparr>inbox := [], ops := Suc (ops s)\<rparr>)
             else (Inr (take len (inbox s)), s\<lparr>inbox := drop len (inbox s), ops := Suc (ops s)\<rparr>))"

section \<open>The drivers\<close>

definition run_initiator :: "('s, 'v) ed25519 \<Rightarrow> sha_fn \<Rightarrow> bytes \<Rightarrow> 's d3_signing_key \<Rightarrow>
    'v d3_verifying_key \<Rightarrow> ('s, 'v) d3_session io" where
  "run_initiator ed sha nonce_i client_sk server_pk =
     (let (wait_msg2, msg1) = initiator_start ed nonce_i (initiator_new client_sk server_pk) in
      io_bind (write_all (hs_msg1_encode msg1)) (\<lambda>_.
      io_bind (read_exact MSG2_LEN) (\<lambda>buf2.
      io_bind (io_try (hs_msg2_decode buf2)) (\<lambda>msg2.
      io_bind (io_try (finish ed sha wait_msg2 msg2)) (\<lambda>(established, msg3).
      io_bind (write_all (hs_msg3_encode msg3)) (\<lambda>_.
      io_try (Inr (from_client_handshake established client_sk))))))))"

definition run_responder :: "('s, 'v) ed25519 \<Rightarrow> sha_fn \<Rightarrow> bytes \<Rightarrow> 's d3_signing_key \<Rightarrow> client_acl \<Rightarrow>
    ('s, 'v) d3_session io" where
  "run_responder ed sha nonce_r server_sk acl =
     io_bind (read_exact MSG1_LEN) (\<lambda>buf1.
     io_bind (io_try (hs_msg1_decode buf1)) (\<lambda>msg1.
     let responder = responder_new server_sk acl in
     io_bind (io_try (handle_msg1 ed sha nonce_r responder msg1)) (\<lambda>(wait_msg3, msg2).
     io_bind (write_all (hs_msg2_encode msg2)) (\<lambda>_.
     io_bind (read_exact MSG3_LEN) (\<lambda>buf3.
     io_bind (io_try (hs_msg3_decode buf3)) (\<lambda>msg3.
     io_bind (io_try (handle_msg3 ed sha wait_msg3 msg3)) (\<lambda>established.
     io_try (Inr (from_server_handshake established server_sk)))))))))"

section \<open>Reliable connections\<close>

definition connected :: "bytes \<Rightarrow> tcp_stream" where
  "connected bs = \<lparr>inbox = bs, sent = [], faults = \<lambda>_. None, ops = 0\<rparr>"

named_theorems tcp \<open>one operation on a stream without failures\<close>

lemma io_bind_simps [tcp]:
  "m s = (Inl e, s') \<Longrightarrow> io_bind m k s = (Inl e, s')"
  "m s = (Inr v, s') \<Longrightarrow> io_bind m k s = k v s'"
  "io_bind (io_try (Inl e)) k s = (Inl e, s)"
  "io_bind (io_try (Inr v)) k s = k v s"
  by (simp_all add: io_bind_def io_try_def)

lemma write_all_ok [tcp]:
  "faults s (ops s) = None \<Longrightarrow>
   io_bind (write_all bs) k s = k () (s\<lparr>sent := sent s @ bs, ops := Suc (ops s)\<rparr>)"
  by (simp add: io_bind_def write_all_def)

lemma read_exact_ok [tcp]:
  "faults s (ops s) = None \<Longrightarrow>
   io_bind (read_exact len) k s =
     (if length (inbox s) < len then (Inl (Transport ''early eof''), s\<lparr>inbox := [], ops := Suc (ops s)\<rparr>)
      else k (take len (inbox s)) (s\<lparr>inbox := drop len (inbox s), ops := Suc (ops s)\<rparr>))"
  by (simp add: io_bind_def read_exact_def)

lemma wf_sent:
  assumes "ed_correct ed" and "length n = NONCE_LEN"
  shows "wf_msg1 \<lparr>m1_client_pk = d3_vk_as_bytes ed vk, m1_nonce_i = n\<rparr>"
    and "wf_msg2 \<lparr>m2_server_pk = d3_vk_as_bytes ed vk, m2_nonce_r = n, m2_sig_r = sign_raw ed sk m\<rparr>"
    and "wf_msg3 \<lparr>m3_client_pk = d3_vk_as_bytes ed vk, m3_sig_i = sign_raw ed sk m\<rparr>"
  using assms(2) ed_correctD [OF assms(1)] by (simp_all add: wf_msg1_def wf_msg2_def wf_msg3_def)

text \<open>A message that was encoded is decoded from the front of the inbox.\<close>

lemma decode_sent:
  "wf_msg1 m \<Longrightarrow> hs_msg1_decode (hs_msg1_encode m) = Inr m"
  "wf_msg2 n \<Longrightarrow> hs_msg2_decode (hs_msg2_encode n) = Inr n"
  "wf_msg3 k \<Longrightarrow> hs_msg3_decode (hs_msg3_encode k) = Inr k"
  using hm1.dec_enc [of m] hm1.enc_length [of m] hm2.dec_enc [of n] hm2.enc_length [of n]
    hm3.dec_enc [of k] hm3.enc_length [of k]
  by (simp_all add: sized_def)

text \<open>(C8) Client and server connected to each other, each reading what the other writes: both
  return a session. The sessions name each other's keys and share the epoch nonce, nothing is
  left unread, and every frame either side seals opens at the other.\<close>

theorem handshake_over_tcp:
  assumes "ed_correct ed" and "length ni = NONCE_LEN" and "length nr = NONCE_LEN"
    and "acl (d3_vk_as_bytes ed (d3_verifying_key_of ed A))"
  shows "\<exists>cs ss c s. run_initiator ed sha ni A (d3_verifying_key_of ed B) (connected (sent s)) = (Inr cs, c)
    \<and> run_responder ed sha nr B acl (connected (sent c)) = (Inr ss, s)
    \<and> inbox c = [] \<and> inbox s = [] \<and> linked ed cs ss \<and> linked ed ss cs
    \<and> (\<forall>d xs. open_frame ed sha ss d (seal ed sha cs d xs) = Inr xs
               \<and> open_frame ed sha cs d (seal ed sha ss d xs) = Inr xs)"
proof -
  let ?pk = "d3_verifying_key_of ed" and ?b = "d3_vk_as_bytes ed"
  define m1 where "m1 = \<lparr>m1_client_pk = ?b (?pk A), m1_nonce_i = ni\<rparr>"
  define m2 where "m2 = \<lparr>m2_server_pk = ?b (?pk B), m2_nonce_r = nr,
    m2_sig_r = sign_raw ed B (hash_nonces sha (ascii ''HELLO-R'') ni nr)\<rparr>"
  define m3 where "m3 = \<lparr>m3_client_pk = ?b (?pk A), m3_sig_i = sign_raw ed A (hash_nonces sha (ascii ''HELLO-I'') nr ni)\<rparr>"
  define cs where "cs = \<lparr>se_epoch_nonce = derive_epoch_nonce sha ni nr, se_signing_key = A, se_peer_key = ?pk B\<rparr>"
  define ss where "ss = \<lparr>se_epoch_nonce = derive_epoch_nonce sha ni nr, se_signing_key = B, se_peer_key = ?pk A\<rparr>"
  note wf = wf_sent [OF assms(1)]
  have wf': "wf_msg1 m1" "wf_msg2 m2" "wf_msg3 m3" using wf assms(2,3) by (simp_all add: m1_def m2_def m3_def)
  note l = hm1.enc_length [OF wf'(1)] hm2.enc_length [OF wf'(2)] hm3.enc_length [OF wf'(3)]
  have v: "ed_verify ed (d3_vk (?pk k)) m (sign_raw ed k m)" for k m
    using ed_correctD(4) [OF assms(1), of k m] by (simp add: verify_raw_ok_iff)
  define c where "c = \<lparr>inbox = [], sent = hs_msg1_encode m1 @ hs_msg3_encode m3, faults = \<lambda>_. None, ops = 3 :: nat\<rparr>"
  define s where "s = \<lparr>inbox = [], sent = hs_msg2_encode m2, faults = \<lambda>_. None, ops = 3 :: nat\<rparr>"
  have "finish ed sha \<lparr>iw_sk = A, iw_peer_pk = ?pk B, iw_nonce_i = ni\<rparr> m2
      = Inr (\<lparr>ei_epoch_nonce = derive_epoch_nonce sha ni nr, ei_peer_pk = ?pk B\<rparr>, m3)"
    by (simp add: finish_cases m2_def m3_def v)
  then have "run_initiator ed sha ni A (?pk B) (connected (sent s)) = (Inr cs, c)"
    using wf' l by (simp add: run_initiator_def initiator_start_def initiator_new_def Let_def m1_def [symmetric] tcp
        connected_def s_def c_def decode_sent from_client_handshake_def cs_def) (simp add: io_try_def)
  moreover have "handle_msg1 ed sha nr (responder_new B acl) m1
      = Inr (\<lparr>rw_sk = B, rw_client_pk = ?pk A, rw_nonce_i = ni, rw_nonce_r = nr\<rparr>, m2)"
    using assms(4) ed_correctD(2) [OF assms(1)] by (simp add: handle_msg1_Inr m1_def m2_def responder_new_def)
  then have "run_responder ed sha nr B acl (connected (sent c)) = (Inr ss, s)"
    using wf' l by (simp add: run_responder_def Let_def tcp connected_def c_def s_def decode_sent handle_msg3_cases)
      (simp add: m3_def v tcp io_try_def from_server_handshake_def ss_def)
  moreover have "linked ed cs ss" "linked ed ss cs" by (simp_all add: linked_def cs_def ss_def)
  moreover have "inbox c = []" "inbox s = []" by (simp_all add: c_def s_def)
  ultimately show ?thesis using open_seal [OF assms(1)] by blast
qed

theorem handshake_over_tcp_witness:
  "ed_correct sample_ed \<and> (\<exists>cs ss c s.
     run_initiator sample_ed sample_sha (replicate 32 5) (D3SigningKey 1)
       (d3_verifying_key_of sample_ed (D3SigningKey 2)) (connected (sent s)) = (Inr cs, c)
     \<and> run_responder sample_ed sample_sha (replicate 32 6) (D3SigningKey 2) allow_all (connected (sent c)) = (Inr ss, s)
     \<and> linked sample_ed cs ss)"
  using handshake_over_tcp [OF sample_ed_correct, of "replicate 32 5" "replicate 32 6" allow_all "D3SigningKey 1"
      sample_sha "D3SigningKey 2"] sample_ed_correct
  by (simp add: key_sizes allow_all_def) blast

section \<open>Every outcome of the server\<close>

text \<open>(C26) What the server does with whatever bytes arrive on a connection that does not fail. It
  sends nothing before the client key has passed the access list and is a valid point, it sends
  at most the one second message, and it returns a session only after the third message verifies under the key
  from the first; the key repeated in the third message is ignored. Bytes after the handshake
  stay unread.\<close>

theorem responder_outcome:
  "run_responder ed sha nr B acl (connected bs) =
    (let pk = take 32 bs; ni = take 32 (drop 32 bs);
         m2 = hs_msg2_encode \<lparr>m2_server_pk = d3_vk_as_bytes ed (d3_verifying_key_of ed B), m2_nonce_r = nr,
                m2_sig_r = sign_raw ed B (hash_nonces sha (ascii ''HELLO-R'') ni nr)\<rparr>
     in if length bs < 64 then (Inl (Transport ''early eof''), (connected [])\<lparr>ops := 1\<rparr>)
        else if \<not> acl pk then (Inl NotAuthorized, (connected (drop 64 bs))\<lparr>ops := 1\<rparr>)
        else case ed_decode ed pk of None \<Rightarrow> (Inl BadClientSig, (connected (drop 64 bs))\<lparr>ops := 1\<rparr>)
        | Some vk \<Rightarrow>
          if length bs < 160 then (Inl (Transport ''early eof''), (connected [])\<lparr>sent := m2, ops := 3\<rparr>)
          else (if ed_verify ed vk (hash_nonces sha (ascii ''HELLO-I'') nr ni) (take 64 (drop 96 bs))
                then Inr \<lparr>se_epoch_nonce = derive_epoch_nonce sha ni nr, se_signing_key = B, se_peer_key = D3VerifyingKey vk\<rparr>
                else Inl BadClientSig, (connected (drop 160 bs))\<lparr>sent := m2, ops := 3\<rparr>))"
proof (cases "length bs < 64 \<or> \<not> acl (take 32 bs)")
  case True
  then show ?thesis
    by (auto simp: run_responder_def tcp connected_def msg_sizes hs_msg1_decode_def handle_msg1_def responder_new_def
        sub_slice_def min_def Let_def)
next
  case False
  then have acl: "acl (take 32 bs)" "64 \<le> length bs" by simp_all
  have d: "take 32 (drop 32 (take 64 bs)) = take 32 (drop 32 bs)" by (simp add: drop_take)
  show ?thesis
    using acl
    by (auto simp: run_responder_def tcp connected_def msg_sizes hs_msg1_decode_def handle_msg1_def responder_new_def
        sub_slice_def min_def Let_def d d3_vk_from_bytes_def hs_msg3_decode_def handle_msg3_cases drop_take
        from_server_handshake_def io_try_def split: option.splits)
qed

end
