(* ===== verification/ReplayCache.thy ===== *)
theory ReplayCache
  imports Prelude
begin

text \<open>
  The persistent replay cache of luxstream-otap-d3/src/replay_cache.rs. The file is its bytes; the
  I/O calls that can fail are branches, chosen by a fault argument. A panic is \<open>None\<close>. The
  specification is a sliding window of the transcripts accepted last; within one process the
  ring buffer implements it, and the lemmas on reopening show what a restart keeps and what it
  loses.
\<close>

definition HASH_SIZE :: nat where "HASH_SIZE = 32"

record replay_cache =
  rc_file :: bytes
  rc_capacity :: nat
  rc_current_idx :: nat
  rc_in_memory :: "bytes list"

section \<open>Opening\<close>

datatype open_fault = Open_fails | Seek_fails | Read_fails nat | Metadata_fails | Set_len_fails

text \<open>The load loop: it ends at the capacity, at a short read, and also at a failed read.\<close>

function rc_load :: "open_fault option \<Rightarrow> nat \<Rightarrow> bytes \<Rightarrow> nat \<Rightarrow> bytes list \<Rightarrow> bytes list \<times> nat" where
  "rc_load fault capacity rest loaded in_memory =
     (if fault = Some (Read_fails loaded) then (in_memory, loaded)
      else let buf = take HASH_SIZE rest in
        if length buf = HASH_SIZE then
          (let in_memory' = in_memory @ [buf]; loaded' = loaded + 1
           in if loaded' \<ge> capacity then (in_memory', loaded')
              else rc_load fault capacity (drop HASH_SIZE rest) loaded' in_memory')
        else (in_memory, loaded))"
  by pat_completeness auto

termination
  by (relation "measure (\<lambda>(_, _, rest, _, _). length rest)") (auto simp: HASH_SIZE_def)

declare rc_load.simps [simp del]

definition rc_open :: "open_fault option \<Rightarrow> bytes \<Rightarrow> nat \<Rightarrow> (open_fault + replay_cache) option" where
  "rc_open fault file capacity =
     (if fault = Some Open_fails then Some (Inl Open_fails)
      else if fault = Some Seek_fails then Some (Inl Seek_fails)
      else let (in_memory, loaded) = rc_load fault capacity file 0 [] in
        if capacity = 0 then None
        else let current_idx = loaded mod capacity; expected_file_size = capacity * HASH_SIZE in
          if fault = Some Metadata_fails then Some (Inl Metadata_fails)
          else if length file < expected_file_size \<and> fault = Some Set_len_fails then Some (Inl Set_len_fails)
          else Some (Inr \<lparr>rc_file = (if length file < expected_file_size
                                   then file @ replicate (expected_file_size - length file) 0 else file),
                 rc_capacity = capacity, rc_current_idx = current_idx, rc_in_memory = in_memory\<rparr>))"

section \<open>Checking a transcript\<close>

datatype disk_fault = Disk_seek | Disk_write nat | Disk_sync

definition check_and_insert ::
  "disk_fault option \<Rightarrow> replay_cache \<Rightarrow> bytes \<Rightarrow> ((string + unit) \<times> replay_cache) option" where
  "check_and_insert fault rc transcript =
     (if list_ex (\<lambda>prev. prev = transcript) (rc_in_memory rc) then Some (Inl ''ReplayDetected'', rc)
      else if rc_capacity rc \<le> length (rc_in_memory rc) \<and> length (rc_in_memory rc) \<le> rc_current_idx rc then None
      else let mem = (if length (rc_in_memory rc) < rc_capacity rc then rc_in_memory rc @ [transcript]
                      else (rc_in_memory rc)[rc_current_idx rc := transcript]);
               rc1 = rc\<lparr>rc_in_memory := mem\<rparr>;
               offset = rc_current_idx rc * HASH_SIZE in
        case fault of
          Some Disk_seek \<Rightarrow> Some (Inl ''Disk seek error'', rc1)
        | Some (Disk_write n) \<Rightarrow>
            Some (Inl ''Disk write error'', rc1\<lparr>rc_file := copy_at offset (take n transcript) (rc_file rc)\<rparr>)
        | Some Disk_sync \<Rightarrow>
            Some (Inl ''Disk sync error'', rc1\<lparr>rc_file := copy_at offset transcript (rc_file rc)\<rparr>)
        | None \<Rightarrow>
            if rc_capacity rc = 0 then None
            else Some (Inr (), rc1\<lparr>rc_file := copy_at offset transcript (rc_file rc),
                                 rc_current_idx := (rc_current_idx rc + 1) mod rc_capacity rc\<rparr>))"

text \<open>A process that checks one transcript after the other.\<close>

fun rc_run :: "replay_cache \<Rightarrow> bytes list \<Rightarrow> ((string + unit) list \<times> replay_cache) option" where
  "rc_run rc [] = Some ([], rc)"
| "rc_run rc (t # ts) = (case check_and_insert None rc t of
     None \<Rightarrow> None
   | Some (r, rc') \<Rightarrow> map_option (\<lambda>(rs, rc''). (r # rs, rc'')) (rc_run rc' ts))"

section \<open>Specification: a sliding window\<close>

definition window_step :: "nat \<Rightarrow> bytes list \<Rightarrow> bytes \<Rightarrow> (string + unit) \<times> bytes list" where
  "window_step n w t = (if t \<in> set w then (Inl ''ReplayDetected'', w)
     else (Inr (), drop (Suc (length w) - n) (w @ [t])))"

fun window_run :: "nat \<Rightarrow> bytes list \<Rightarrow> bytes list \<Rightarrow> (string + unit) list \<times> bytes list" where
  "window_run n w [] = ([], w)"
| "window_run n w (t # ts) = (let (r, w') = window_step n w t; (rs, w'') = window_run n w' ts in (r # rs, w''))"

text \<open>The ring in the order of age, and the invariant that ties ring, index and file together.\<close>

definition rc_window :: "replay_cache \<Rightarrow> bytes list" where
  "rc_window rc = (if length (rc_in_memory rc) < rc_capacity rc then rc_in_memory rc
     else rotate (rc_current_idx rc) (rc_in_memory rc))"

definition file_slot :: "bytes \<Rightarrow> nat \<Rightarrow> bytes" where
  "file_slot file i = sub_slice (i * HASH_SIZE) ((i + 1) * HASH_SIZE) file"

definition wf_rc :: "replay_cache \<Rightarrow> bool" where
  "wf_rc rc \<longleftrightarrow> length (rc_in_memory rc) \<le> rc_capacity rc \<and> rc_current_idx rc < rc_capacity rc
     \<and> (length (rc_in_memory rc) < rc_capacity rc \<longrightarrow> rc_current_idx rc = length (rc_in_memory rc))
     \<and> length (rc_file rc) = rc_capacity rc * HASH_SIZE
     \<and> (\<forall>i < length (rc_in_memory rc). file_slot (rc_file rc) i = rc_in_memory rc ! i)"

section \<open>One process\<close>

lemma insert_ok:
  assumes "wf_rc rc" and "t \<notin> set (rc_in_memory rc)"
  shows "check_and_insert None rc t = Some (Inr (), rc
    \<lparr>rc_in_memory := (if length (rc_in_memory rc) < rc_capacity rc then rc_in_memory rc @ [t]
                      else (rc_in_memory rc)[rc_current_idx rc := t]),
     rc_file := copy_at (rc_current_idx rc * HASH_SIZE) t (rc_file rc),
     rc_current_idx := (rc_current_idx rc + 1) mod rc_capacity rc\<rparr>)"
  using assms by (auto simp: check_and_insert_def wf_rc_def list_ex_iff Let_def)

lemma insert_seen: "t \<in> set (rc_in_memory rc) \<Longrightarrow> check_and_insert fault rc t = Some (Inl ''ReplayDetected'', rc)"
  by (auto simp: check_and_insert_def list_ex_iff)

lemma set_window [simp]: "set (rc_window rc) = set (rc_in_memory rc)"
  by (simp add: rc_window_def)

lemma rotate_overwrite:
  assumes "i < length xs"
  shows "rotate (Suc i mod length xs) (xs[i := t]) = tl (rotate i xs) @ [t]"
proof -
  have r: "rotate i xs = drop i xs @ take i xs" using assms by (simp add: rotate_drop_take)
  show ?thesis
  proof (cases "Suc i = length xs")
    case True
    then have "xs[i := t] = take i xs @ [t]" by (simp add: upd_conv_take_nth_drop)
    moreover have "drop i xs = [xs ! i]" using True assms by (simp add: Cons_nth_drop_Suc [symmetric])
    ultimately show ?thesis using True r by simp
  next
    case False
    with assms show ?thesis
      by (simp add: r rotate_drop_take upd_conv_take_nth_drop drop_Suc tl_drop [symmetric])
  qed
qed

lemma slot_copy:
  assumes "length t = HASH_SIZE" and "length file = n * HASH_SIZE" and "i < n" and "j < n"
  shows "file_slot (copy_at (i * HASH_SIZE) t file) j = (if j = i then t else file_slot file j)"
proof -
  have fit: "i * HASH_SIZE + length t \<le> length file"
    using assms mult_le_mono1 [of "Suc i" n HASH_SIZE] by simp
  consider "j = i" | "j < i" | "i < j" by linarith
  then show ?thesis
  proof cases
    case 1
    then show ?thesis using sub_slice_copy_at_same [OF fit] assms(1) by (simp add: file_slot_def algebra_simps)
  next
    case 2
    then have "(j + 1) * HASH_SIZE \<le> i * HASH_SIZE" by (intro mult_le_mono1) simp
    then show ?thesis using 2 sub_slice_copy_at_before [OF fit] by (simp add: file_slot_def)
  next
    case 3
    then have "(i + 1) * HASH_SIZE \<le> j * HASH_SIZE" by (intro mult_le_mono1) simp
    moreover have "(j + 1) * HASH_SIZE \<le> length file" unfolding assms(2) using assms(4) by (intro mult_le_mono1) simp
    ultimately show ?thesis using 3 sub_slice_copy_at_after [OF fit] assms(1) by (simp add: file_slot_def algebra_simps)
  qed
qed

lemma insert_wf:
  assumes "wf_rc rc" and "length t = HASH_SIZE" and "check_and_insert None rc t = Some (r, rc')"
  shows "wf_rc rc'" and "rc_capacity rc' = rc_capacity rc"
    and "(r, rc_window rc') = window_step (rc_capacity rc) (rc_window rc) t"
proof -
  have "wf_rc rc' \<and> rc_capacity rc' = rc_capacity rc
      \<and> (r, rc_window rc') = window_step (rc_capacity rc) (rc_window rc) t"
  proof (cases "t \<in> set (rc_in_memory rc)")
    case True
    then show ?thesis using assms insert_seen [OF True, of None] by (simp add: window_step_def)
  next
    case False
    let ?i = "rc_current_idx rc" and ?n = "rc_capacity rc" and ?m = "rc_in_memory rc"
    note w = assms(1) [unfolded wf_rc_def]
    from insert_ok [OF assms(1) False] assms(3) have r: "r = Inr ()" and rc': "rc' = rc
      \<lparr>rc_in_memory := (if length ?m < ?n then ?m @ [t] else ?m[?i := t]),
       rc_file := copy_at (?i * HASH_SIZE) t (rc_file rc), rc_current_idx := (?i + 1) mod ?n\<rparr>" by simp_all
    have i: "?i < ?n" using w by simp
    have fit: "?i * HASH_SIZE + length t \<le> length (rc_file rc)"
      using w assms(2) mult_le_mono1 [of "Suc ?i" ?n HASH_SIZE] by simp
    have slot: "file_slot (rc_file rc') j = (if j = ?i then t else file_slot (rc_file rc) j)" if "j < ?n" for j
      using slot_copy [OF assms(2) _ i that] w by (simp add: rc')
    show ?thesis
    proof (cases "length ?m < ?n")
      case True
      then have i': "?i = length ?m" using w by simp
      have "rc_window rc' = ?m @ [t]"
        using True i' by (cases "Suc ?i = ?n") (simp_all add: rc_window_def rc')
      then have "(r, rc_window rc') = window_step ?n (rc_window rc) t"
        using True False r by (simp add: window_step_def rc_window_def)
      moreover have "\<forall>j < Suc ?i. file_slot (rc_file rc') j = (?m @ [t]) ! j"
        using slot w True i' by (auto simp: nth_append less_Suc_eq)
      ultimately show ?thesis using w fit True i' by (simp add: wf_rc_def rc')
    next
      case full: False
      then have l: "length ?m = ?n" using w by simp
      moreover have "\<forall>j < ?n. file_slot (rc_file rc') j = ?m[?i := t] ! j"
        using slot w l by (simp add: nth_list_update)
      moreover have "drop 1 (rotate ?i ?m @ [t]) = tl (rotate ?i ?m) @ [t]"
        using l i by (cases "rotate ?i ?m") auto
      ultimately show ?thesis
        using w fit False r i rotate_overwrite [of ?i ?m t] assms(2)
        by (simp add: wf_rc_def rc' rc_window_def window_step_def)
    qed
  qed
  then show "wf_rc rc'" "rc_capacity rc' = rc_capacity rc"
    "(r, rc_window rc') = window_step (rc_capacity rc) (rc_window rc) t" by simp_all
qed

lemma insert_returns: "wf_rc rc \<Longrightarrow> \<exists>r rc'. check_and_insert None rc t = Some (r, rc')"
  using insert_ok insert_seen by (cases "t \<in> set (rc_in_memory rc)") blast+

lemma run_refines:
  assumes "wf_rc rc" and "list_all (\<lambda>t. length t = HASH_SIZE) ts"
  shows "\<exists>rs rc'. rc_run rc ts = Some (rs, rc') \<and> wf_rc rc' \<and> rc_capacity rc' = rc_capacity rc
    \<and> window_run (rc_capacity rc) (rc_window rc) ts = (rs, rc_window rc')"
  using assms
proof (induction ts arbitrary: rc)
  case (Cons t ts)
  from insert_returns [OF Cons.prems(1)] obtain r rc1 where c: "check_and_insert None rc t = Some (r, rc1)" by blast
  have t: "length t = HASH_SIZE" and ts: "list_all (\<lambda>t. length t = HASH_SIZE) ts" using Cons.prems(2) by simp_all
  note st = insert_wf [OF Cons.prems(1) t c]
  from Cons.IH [OF st(1) ts] obtain rs rc' where
    run: "rc_run rc1 ts = Some (rs, rc')" "wf_rc rc'" "rc_capacity rc' = rc_capacity rc1"
     "window_run (rc_capacity rc1) (rc_window rc1) ts = (rs, rc_window rc')" by blast
  have "window_run (rc_capacity rc) (rc_window rc) (t # ts) = (r # rs, rc_window rc')"
    using run(4) st(2) by (simp add: st(3) [symmetric] Let_def)
  then show ?case using run c st(2) by simp
qed simp

section \<open>Reopening\<close>

lemma load_slots:
  assumes "length file = n * HASH_SIZE" and "k < n"
  shows "rc_load None n (drop (k * HASH_SIZE) file) k mem = (mem @ map (file_slot file) [k..<n], n)"
  using assms(2)
proof (induction "n - k" arbitrary: k mem)
  case 0
  then show ?case by simp
next
  case (Suc m)
  have "(k + 1) * HASH_SIZE \<le> length file" unfolding assms(1) using Suc.prems by (intro mult_le_mono1) simp
  then have l: "take HASH_SIZE (drop (k * HASH_SIZE) file) = file_slot file k" "length (file_slot file k) = HASH_SIZE"
    by (simp_all add: file_slot_def sub_slice_def)
  have "[k..<n] = k # [Suc k..<n]" using Suc.prems by (simp add: upt_conv_Cons)
  then show ?case
    using Suc.hyps(1) [of "Suc k" "mem @ [file_slot file k]"] Suc.hyps(2) Suc.prems l
    by (subst rc_load.simps) (auto simp: Let_def add.commute not_le)
qed

text \<open>A file of the full size comes back as all its slots, with the write position at the first.\<close>

lemma reopen:
  assumes "length file = n * HASH_SIZE" and "0 < n"
  shows "rc_open None file n = Some (Inr \<lparr>rc_file = file, rc_capacity = n, rc_current_idx = 0,
    rc_in_memory = map (file_slot file) [0..<n]\<rparr>)"
  using load_slots [OF assms, of "[]"] assms by (simp add: rc_open_def Let_def)

lemma open_fresh:
  "0 < n \<Longrightarrow> rc_open None [] n = Some (Inr \<lparr>rc_file = replicate (n * HASH_SIZE) 0, rc_capacity = n,
     rc_current_idx = 0, rc_in_memory = []\<rparr>)"
  by (simp add: rc_open_def rc_load.simps HASH_SIZE_def Let_def)

lemma fresh_wf: "0 < n \<Longrightarrow> wf_rc \<lparr>rc_file = replicate (n * HASH_SIZE) 0, rc_capacity = n, rc_current_idx = 0, rc_in_memory = []\<rparr>"
  by (simp add: wf_rc_def)

lemma reopened_memory:
  assumes "wf_rc rc"
  shows "map (file_slot (rc_file rc)) [0..<rc_capacity rc]
    = rc_in_memory rc @ map (file_slot (rc_file rc)) [length (rc_in_memory rc)..<rc_capacity rc]"
proof -
  have "[0..<rc_capacity rc] = [0..<length (rc_in_memory rc)] @ [length (rc_in_memory rc)..<rc_capacity rc]"
    using assms upt_add_eq_append [of 0 "length (rc_in_memory rc)" "rc_capacity rc - length (rc_in_memory rc)"]
    by (simp add: wf_rc_def)
  moreover have "map (file_slot (rc_file rc)) [0..<length (rc_in_memory rc)] = rc_in_memory rc"
    using assms by (intro nth_equalityI) (simp_all add: wf_rc_def)
  ultimately show ?thesis by simp
qed

lemma fresh_run:
  assumes "0 < n" and "list_all (\<lambda>t. length t = HASH_SIZE) ts"
  shows "\<exists>rc rs rc'. rc_open None [] n = Some (Inr rc) \<and> rc_run rc ts = Some (rs, rc') \<and> wf_rc rc'
    \<and> rc_capacity rc' = n \<and> window_run n [] ts = (rs, rc_window rc')"
proof -
  let ?f = "\<lparr>rc_file = replicate (n * HASH_SIZE) 0, rc_capacity = n, rc_current_idx = 0, rc_in_memory = []\<rparr>"
  have "rc_window ?f = []" using assms(1) by (simp add: rc_window_def)
  with run_refines [OF fresh_wf [OF assms(1)] assms(2)] open_fresh [OF assms(1)] show ?thesis by fastforce
qed

section \<open>Properties\<close>

text \<open>(C12) Within one process the cache is a sliding window: for every sequence of transcripts the
  answers are those of a window of the last \<open>n\<close> accepted ones, a transcript being refused
  exactly while it is in the window, and no step panics.\<close>

theorem replay_window:
  assumes "0 < n" and "list_all (\<lambda>t. length t = HASH_SIZE) ts"
  shows "\<exists>rc rs rc'. rc_open None [] n = Some (Inr rc) \<and> rc_run rc ts = Some (rs, rc')
    \<and> window_run n [] ts = (rs, rc_window rc')"
  using fresh_run [OF assms] by blast

theorem replay_window_witness:
  "let ts = [replicate 32 1, replicate 32 2, replicate 32 1, replicate 32 3, replicate 32 1]
   in \<exists>rc rc'. rc_open None [] 2 = Some (Inr rc)
     \<and> rc_run rc ts = Some ([Inr (), Inr (), Inl ''ReplayDetected'', Inr (), Inr ()], rc')"
proof -
  let ?ts = "[replicate 32 1, replicate 32 2, replicate 32 1, replicate 32 3, replicate 32 1] :: bytes list"
  have "fst (window_run 2 [] ?ts) = [Inr (), Inr (), Inl ''ReplayDetected'', Inr (), Inr ()]" by code_simp
  then show ?thesis
    unfolding Let_def using replay_window [of 2 ?ts] by (auto simp: HASH_SIZE_def simp del: window_run.simps)
qed

text \<open>(C22) A restart keeps what was remembered: after any run that started from a new file, the cache
  reopened from what is on disk still refuses every transcript of the window.\<close>

theorem restart_remembers:
  assumes "0 < n" and "list_all (\<lambda>t. length t = HASH_SIZE) ts" and "rc_open None [] n = Some (Inr rc)"
    and "rc_run rc ts = Some (rs, rc')" and "t \<in> set (rc_window rc')"
  shows "\<exists>rc2. rc_open None (rc_file rc') n = Some (Inr rc2)
    \<and> check_and_insert None rc2 t = Some (Inl ''ReplayDetected'', rc2)"
proof -
  have w: "wf_rc rc'" and n: "rc_capacity rc' = n"
    using fresh_run [OF assms(1,2)] assms(3,4) by auto
  have "length (rc_file rc') = n * HASH_SIZE" using w n by (simp add: wf_rc_def)
  moreover have "t \<in> set (map (file_slot (rc_file rc')) [0..<n])"
    using assms(5) reopened_memory [OF w] unfolding n by simp
  ultimately show ?thesis using reopen [OF _ assms(1)] insert_seen by simp
qed

theorem restart_remembers_witness:
  "\<exists>rc rs rc' rc2. rc_open None [] 2 = Some (Inr rc)
     \<and> rc_run rc [replicate 32 1, replicate 32 2, replicate 32 3] = Some (rs, rc')
     \<and> rc_open None (rc_file rc') 2 = Some (Inr rc2)
     \<and> check_and_insert None rc2 (replicate 32 3) = Some (Inl ''ReplayDetected'', rc2)"
proof -
  let ?ts = "[replicate 32 1, replicate 32 2, replicate 32 3] :: bytes list"
  have ts: "list_all (\<lambda>t. length t = HASH_SIZE) ?ts" by (simp add: HASH_SIZE_def)
  obtain rc rs rc' where r: "rc_open None [] 2 = Some (Inr rc)" "rc_run rc ?ts = Some (rs, rc')"
    and w: "window_run 2 [] ?ts = (rs, rc_window rc')"
    using fresh_run [OF _ ts, of 2] by (auto simp del: window_run.simps rc_run.simps)
  have "snd (window_run 2 [] ?ts) = [replicate 32 2, replicate 32 3]" by code_simp
  then have "replicate 32 3 \<in> set (rc_window rc')" unfolding w by simp
  from restart_remembers [OF _ ts r this] r show ?thesis by (simp del: rc_run.simps)
qed

text \<open>(C39) What a restart loses is the age of the entries. The file has been extended to its full
  size, so the reopened cache counts the empty slots as loaded, refuses the all-zero transcript
  that nobody sent, and starts writing at slot 0: the next transcript evicts the one before the
  restart although all other slots are unused, and that one is then accepted a second time.\<close>

theorem restart_forgets:
  assumes "2 \<le> n" and "length h = HASH_SIZE" and "length g = HASH_SIZE" and "h \<noteq> g"
    and "h \<noteq> replicate HASH_SIZE 0" and "g \<noteq> replicate HASH_SIZE 0"
  shows "\<exists>rc1 rc2 rc3 rc4 rc5. rc_open None [] n = Some (Inr rc1)
    \<and> check_and_insert None rc1 h = Some (Inr (), rc2)
    \<and> rc_open None (rc_file rc2) n = Some (Inr rc3)
    \<and> check_and_insert None rc3 (replicate HASH_SIZE 0) = Some (Inl ''ReplayDetected'', rc3)
    \<and> check_and_insert None rc3 g = Some (Inr (), rc4)
    \<and> check_and_insert None rc4 h = Some (Inr (), rc5)"
proof -
  define z :: bytes where "z = replicate (n * HASH_SIZE) 0"
  have n: "0 < n" using assms(1) by simp
  have slot: "file_slot (copy_at (0 * HASH_SIZE) h z) j = (if j = 0 then h else replicate HASH_SIZE 0)" if "j < n" for j
  proof -
    have "(j + 1) * HASH_SIZE \<le> n * HASH_SIZE" using that by (intro mult_le_mono1) simp
    then have "file_slot z j = replicate HASH_SIZE 0" by (simp add: file_slot_def sub_slice_def z_def)
    then show ?thesis using slot_copy [OF assms(2) _ n that, of z] by (simp add: z_def)
  qed
  have "map (file_slot (copy_at (0 * HASH_SIZE) h z)) [0..<n] = h # replicate (n - 1) (replicate HASH_SIZE 0)"
    using slot n by (intro nth_equalityI) (auto simp: nth_Cons')
  moreover have "length (copy_at (0 * HASH_SIZE) h z) = n * HASH_SIZE"
    using assms(2) n by (simp add: z_def)
  ultimately have "rc_open None (copy_at (0 * HASH_SIZE) h z) n = Some (Inr \<lparr>rc_file = copy_at (0 * HASH_SIZE) h z,
      rc_capacity = n, rc_current_idx = 0, rc_in_memory = h # replicate (n - 1) (replicate HASH_SIZE 0)\<rparr>)"
    using reopen n by simp
  then show ?thesis
    using open_fresh [OF n] assms n
    by (simp add: check_and_insert_def Let_def list_ex_iff z_def)
qed

theorem restart_forgets_witness:
  "\<exists>rc1 rc2 rc3 rc4 rc5. rc_open None [] 1024 = Some (Inr rc1)
    \<and> check_and_insert None rc1 (replicate 32 1) = Some (Inr (), rc2)
    \<and> rc_open None (rc_file rc2) 1024 = Some (Inr rc3)
    \<and> check_and_insert None rc3 (replicate 32 2) = Some (Inr (), rc4)
    \<and> check_and_insert None rc4 (replicate 32 1) = Some (Inr (), rc5)"
  using restart_forgets [of 1024 "replicate 32 1" "replicate 32 2"]
  by (simp add: HASH_SIZE_def) blast

end
