(* ===== verification/CsrRtl.thy ===== *)
theory CsrRtl
  imports Csr
begin

text \<open>
  The register block of the device, src/rtl/otap_csr_block.sv, and its map otap_csr_map.svh. One
  call of \<open>csr_posedge\<close> is a rising clock edge: all registers take values computed from the old
  ones. The combinational outputs are functions of the state. The theory compares the block with
  the register file of otap-csr, which the map says it mirrors.
\<close>

section \<open>The map\<close>

definition OTAP_CSR_MAP_VERSION :: u8 where "OTAP_CSR_MAP_VERSION = 0x01"
definition OTAP_REG_WAVELENGTH :: nat where "OTAP_REG_WAVELENGTH = 0x000"
definition OTAP_REG_CTRL :: nat where "OTAP_REG_CTRL = 0x004"
definition OTAP_REG_AUTH_TOLERANCE :: nat where "OTAP_REG_AUTH_TOLERANCE = 0x008"
definition OTAP_REG_STATUS :: nat where "OTAP_REG_STATUS = 0x00C"
definition OTAP_REG_SECRET_BASE :: nat where "OTAP_REG_SECRET_BASE = 0x010"
definition OTAP_SECRET_WORDS :: nat where "OTAP_SECRET_WORDS = 8"
definition OTAP_REG_SECRET_VALID :: nat where "OTAP_REG_SECRET_VALID = 0x030"
definition OTAP_REG_SCHEMA_PAYLOAD_BASE :: nat where "OTAP_REG_SCHEMA_PAYLOAD_BASE = 0x040"
definition OTAP_SCHEMA_TABLE_ENTRIES :: nat where "OTAP_SCHEMA_TABLE_ENTRIES = 32"
definition OTAP_REG_OAM_TABLE_BASE :: nat where "OTAP_REG_OAM_TABLE_BASE = 0x100"
definition OTAP_OAM_TABLE_ENTRIES :: nat where "OTAP_OAM_TABLE_ENTRIES = 33"
definition OTAP_REG_PEER_WAVELENGTH_BASE :: nat where "OTAP_REG_PEER_WAVELENGTH_BASE = 0x200"
definition OTAP_PEER_TABLE_ENTRIES :: nat where "OTAP_PEER_TABLE_ENTRIES = 16"
definition OTAP_CSR_SPACE_BYTES :: nat where "OTAP_CSR_SPACE_BYTES = 0x400"
definition OTAP_CSR_SPACE_WORDS :: nat where "OTAP_CSR_SPACE_WORDS = OTAP_CSR_SPACE_BYTES div 4"
definition OTAP_CTRL_ENABLE_TX :: u32 where "OTAP_CTRL_ENABLE_TX = 0x00000001"
definition OTAP_CTRL_ENABLE_RX :: u32 where "OTAP_CTRL_ENABLE_RX = 0x00000002"
definition OTAP_CTRL_AUTH_TOPOLOGICAL :: u32 where "OTAP_CTRL_AUTH_TOPOLOGICAL = 0x00000004"
definition OTAP_STATUS_ARMED :: u32 where "OTAP_STATUS_ARMED = 0x00000001"
definition OTAP_STATUS_PEER_READY :: u32 where "OTAP_STATUS_PEER_READY = 0x00000002"
definition OTAP_STATUS_ERROR :: u32 where "OTAP_STATUS_ERROR = 0x80000000"

lemmas rtl_map = OTAP_CSR_MAP_VERSION_def OTAP_REG_WAVELENGTH_def OTAP_REG_CTRL_def
  OTAP_REG_AUTH_TOLERANCE_def OTAP_REG_STATUS_def OTAP_REG_SECRET_BASE_def OTAP_SECRET_WORDS_def
  OTAP_REG_SECRET_VALID_def OTAP_REG_SCHEMA_PAYLOAD_BASE_def OTAP_SCHEMA_TABLE_ENTRIES_def
  OTAP_REG_OAM_TABLE_BASE_def OTAP_OAM_TABLE_ENTRIES_def OTAP_REG_PEER_WAVELENGTH_BASE_def
  OTAP_PEER_TABLE_ENTRIES_def OTAP_CSR_SPACE_BYTES_def OTAP_CSR_SPACE_WORDS_def
  OTAP_CTRL_ENABLE_TX_def OTAP_CTRL_ENABLE_RX_def OTAP_CTRL_AUTH_TOPOLOGICAL_def
  OTAP_STATUS_ARMED_def OTAP_STATUS_PEER_READY_def OTAP_STATUS_ERROR_def

text \<open>The two copies of the map agree.\<close>

lemma rtl_map_mirrors:
  "OTAP_CSR_MAP_VERSION = MAP_VERSION" "OTAP_REG_WAVELENGTH = REG_WAVELENGTH" "OTAP_REG_CTRL = REG_CTRL"
  "OTAP_REG_AUTH_TOLERANCE = REG_AUTH_TOLERANCE" "OTAP_REG_STATUS = REG_STATUS"
  "OTAP_REG_SECRET_BASE = REG_SECRET_BASE" "OTAP_SECRET_WORDS = SECRET_WORDS"
  "OTAP_REG_SECRET_VALID = REG_SECRET_VALID" "OTAP_REG_SCHEMA_PAYLOAD_BASE = REG_SCHEMA_PAYLOAD_BASE"
  "OTAP_SCHEMA_TABLE_ENTRIES = SCHEMA_TABLE_ENTRIES" "OTAP_REG_OAM_TABLE_BASE = REG_OAM_TABLE_BASE"
  "OTAP_OAM_TABLE_ENTRIES = OAM_TABLE_ENTRIES" "OTAP_REG_PEER_WAVELENGTH_BASE = REG_PEER_WAVELENGTH_BASE"
  "OTAP_PEER_TABLE_ENTRIES = PEER_TABLE_ENTRIES" "OTAP_CSR_SPACE_BYTES = CSR_SPACE_BYTES"
  "OTAP_CSR_SPACE_WORDS = CSR_SPACE_WORDS" "OTAP_CTRL_ENABLE_TX = CTRL_ENABLE_TX"
  "OTAP_CTRL_ENABLE_RX = CTRL_ENABLE_RX" "OTAP_CTRL_AUTH_TOPOLOGICAL = CTRL_AUTH_TOPOLOGICAL"
  "OTAP_STATUS_ARMED = STATUS_ARMED" "OTAP_STATUS_PEER_READY = STATUS_PEER_READY"
  "OTAP_STATUS_ERROR = STATUS_ERROR"
  by (simp_all add: rtl_map csr_map MAP_VERSION_def REG_STATUS_def OAM_TABLE_ENTRIES_def
      REG_PEER_WAVELENGTH_BASE_def PEER_TABLE_ENTRIES_def CTRL_ENABLE_TX_def CTRL_ENABLE_RX_def
      CTRL_AUTH_TOPOLOGICAL_def STATUS_ARMED_def STATUS_PEER_READY_def STATUS_ERROR_def)

section \<open>The block\<close>

text \<open>The ports at a clock edge, with 12-bit addresses, and the registers.\<close>

record csr_ports =
  rstn :: bool
  wr_en :: bool
  wr_addr :: "12 word"
  wr_data :: u32
  rd_en :: bool
  rd_addr :: "12 word"

record csr_block =
  reg_file :: "u32 list"
  rd_data :: u32

definition csr_decodes :: "12 word \<Rightarrow> bool" where
  "csr_decodes a \<longleftrightarrow> take_bit 2 a = 0 \<and> unat a < OTAP_CSR_SPACE_BYTES"

definition csr_posedge :: "csr_block \<Rightarrow> csr_ports \<Rightarrow> csr_block" where
  "csr_posedge s p = \<lparr>
     reg_file =
       (if \<not> rstn p then replicate OTAP_CSR_SPACE_WORDS 0
        else if wr_en p \<and> csr_decodes (wr_addr p) then (reg_file s)[unat (drop_bit 2 (wr_addr p)) := wr_data p]
        else reg_file s),
     rd_data =
       (if rd_en p \<and> csr_decodes (rd_addr p) then reg_file s ! unat (drop_bit 2 (rd_addr p)) else 0)\<rparr>"

text \<open>The decoded outputs.\<close>

definition out_wavelength :: "csr_block \<Rightarrow> u16" where
  "out_wavelength s = ucast (reg_file s ! (OTAP_REG_WAVELENGTH div 4))"

definition out_ctrl :: "csr_block \<Rightarrow> u32" where
  "out_ctrl s = reg_file s ! (OTAP_REG_CTRL div 4)"

definition out_auth_tolerance :: "csr_block \<Rightarrow> u32" where
  "out_auth_tolerance s = reg_file s ! (OTAP_REG_AUTH_TOLERANCE div 4)"

definition out_secret_valid :: "csr_block \<Rightarrow> bool" where
  "out_secret_valid s = bit (reg_file s ! (OTAP_REG_SECRET_VALID div 4)) 0"

definition out_secret :: "csr_block \<Rightarrow> 256 word" where
  "out_secret s =
     foldr (\<lambda>k acc. push_bit (224 - k * 32) (ucast (reg_file s ! ((OTAP_REG_SECRET_BASE + k * 4) div 4))) OR acc)
       [0..<OTAP_SECRET_WORDS] 0"

definition out_schema_payload_bytes :: "csr_block \<Rightarrow> 5 word \<Rightarrow> u16" where
  "out_schema_payload_bytes s lookup =
     (let schema_word = reg_file s ! (OTAP_REG_SCHEMA_PAYLOAD_BASE div 4 + unat (drop_bit 1 lookup))
      in if bit lookup 0 then ucast (drop_bit 16 schema_word) else ucast schema_word)"

definition out_oam_to_schema_id :: "csr_block \<Rightarrow> 5 word \<Rightarrow> u8" where
  "out_oam_to_schema_id s lookup =
     (let idx = (scast lookup :: 6 word) + 16;
          oam_word = reg_file s ! (OTAP_REG_OAM_TABLE_BASE div 4 + unat (drop_bit 2 idx));
          byte_in_word = take_bit 2 idx
      in if byte_in_word = 0 then ucast oam_word
         else if byte_in_word = 1 then ucast (drop_bit 8 oam_word)
         else if byte_in_word = 2 then ucast (drop_bit 16 oam_word)
         else ucast (drop_bit 24 oam_word))"

section \<open>Bus accesses\<close>

text \<open>What the driver's register file does on the same bus cycle: a refused write leaves it alone,
  a refused read returns nothing.\<close>

definition driver_step :: "register_file \<Rightarrow> csr_ports \<Rightarrow> register_file" where
  "driver_step rf p =
     (if \<not> rstn p then register_file_new
      else if wr_en p then case write_u32 rf (unat (wr_addr p)) (wr_data p) of Inr rf' \<Rightarrow> rf' | Inl _ \<Rightarrow> rf
      else rf)"

lemma csr_decodes_iff: "csr_decodes a \<longleftrightarrow> csr_reg (unat a)"
proof -
  have "unat (take_bit 2 a) = unat a mod 4" by (simp only: unsigned_take_bit_eq) (simp add: take_bit_eq_mod)
  then have "take_bit 2 a = 0 \<longleftrightarrow> unat a mod 4 = 0" by (metis unat_eq_zero)
  then show ?thesis by (auto simp: csr_decodes_def csr_reg_def rtl_map csr_map)
qed

lemma unat_drop_2: "unat (drop_bit 2 (a :: 'a::len word)) = unat a div 4"
  by (simp only: unat_drop_bit_eq) (simp add: drop_bit_eq_div)

lemma csr_posedge_sim:
  assumes "reg_file s = words rf"
  shows "reg_file (csr_posedge s p) = words (driver_step rf p)"
proof -
  have "words (driver_step rf p) = (words rf)[unat (wr_addr p) div 4 := wr_data p]"
    if "rstn p" "wr_en p" "csr_reg (unat (wr_addr p))" using that by (simp add: driver_step_def write_u32_reg)
  moreover have "driver_step rf p = rf" if "rstn p" "\<not> csr_reg (unat (wr_addr p))"
    using that csr.refused [of "unat (wr_addr p)" rf "wr_data p"]
    by (auto simp: driver_step_def is_ok_def split: sum.splits)
  ultimately show ?thesis
    using assms by (auto simp: csr_posedge_def csr_decodes_iff unat_drop_2 driver_step_def register_file_new_def
        rtl_map_mirrors)
qed

lemma csr_read_sim:
  assumes "reg_file s = words rf"
  shows "rd_data (csr_posedge s p) =
    (if rd_en p then case read_u32 rf (unat (rd_addr p)) of Inr v \<Rightarrow> v | Inl _ \<Rightarrow> 0 else 0)"
proof (cases "csr_reg (unat (rd_addr p))")
  case True
  then show ?thesis using assms by (simp add: csr_posedge_def csr_decodes_iff unat_drop_2 read_u32_reg)
next
  case False
  then show ?thesis using csr.refused [of "unat (rd_addr p)" rf]
    by (auto simp: csr_posedge_def csr_decodes_iff is_ok_def split: sum.splits)
qed

lemma csr_run_sim:
  "reg_file s = words rf \<Longrightarrow> reg_file (foldl csr_posedge s ps) = words (foldl driver_step rf ps)"
  by (induction ps arbitrary: s rf) (simp_all add: csr_posedge_sim)

section \<open>Decoded outputs\<close>

lemma out_simple:
  assumes "reg_file s = words rf"
  shows "view_ctrl rf = Inr (out_ctrl s)"
    and "view_wavelength rf = map_err CsrProtocol (wavelength_new (out_wavelength s))"
    and "auth_tolerance rf = Inr (fp_div f32 (fp_of_int f32 (uint (out_auth_tolerance s))) (fp_lit f32 1000 1))"
    and "secret_valid rf = Inr (out_secret_valid s)"
proof -
  have r: "read_u32 rf a = Inr (words rf ! (a div 4))" if "a \<in> {0, 4, 8, 48}" for a
    using that by (intro read_u32_reg) (auto simp: csr_reg_def csr_map)
  have "(ucast (v AND 0xFFFF) :: u16) = ucast v" for v :: u32
    by (intro bit_word_eqI) (auto simp: csr_masks bit_simps dest: bit_imp_le_length)
  moreover have "v AND 1 \<noteq> 0 \<longleftrightarrow> bit v 0" for v :: u32 by (simp add: and_one_eq bit_0 odd_iff_mod_2_eq_one)
  ultimately show "view_ctrl rf = Inr (out_ctrl s)"
    "view_wavelength rf = map_err CsrProtocol (wavelength_new (out_wavelength s))"
    "auth_tolerance rf = Inr (fp_div f32 (fp_of_int f32 (uint (out_auth_tolerance s))) (fp_lit f32 1000 1))"
    "secret_valid rf = Inr (out_secret_valid s)"
    using assms by (simp_all add: view_ctrl_def view_wavelength_def auth_tolerance_def secret_valid_def
        out_ctrl_def out_wavelength_def out_auth_tolerance_def out_secret_valid_def rtl_map csr_map r)
qed

text \<open>The packed secret, byte by byte.\<close>

lemma nth_be_of_nat: "j < n \<Longrightarrow> be_of_nat n v ! j = of_nat (v div 256 ^ (n - 1 - j))"
proof (induction n v rule: be_of_nat.induct)
  case (2 n v)
  show ?case
  proof (cases "j = n")
    case False
    with 2 have "n - j = Suc (n - 1 - j)" by simp
    with 2 False show ?thesis by (simp add: nth_append div_mult2_eq)
  qed (simp add: nth_append)
qed simp

lemma unat_drop_bit: "unat (drop_bit k (w :: 'a::len word)) = unat w div 2 ^ k"
  by (simp only: unat_drop_bit_eq) (simp add: drop_bit_eq_div)

lemma nth_to_be_bytes: "j < n \<Longrightarrow> to_be_bytes n (w :: 'a::len word) ! j = ucast (drop_bit (8 * (n - 1 - j)) w)"
  by (intro word_unat_eq_iff [THEN iffD2], simp only: unsigned_ucast_eq unat_drop_bit)
    (simp add: to_be_bytes_def nth_be_of_nat unat_of_nat take_bit_eq_mod power_mult)

lemma nth_concat_blocks:
  assumes "\<And>i. length (f i) = m" and "0 < m" and "j < n * m"
  shows "concat (map f [0..<n]) ! j = f (j div m) ! (j mod m)"
  using assms(3)
proof (induction n)
  case (Suc n)
  have l: "length (concat (map f [0..<n])) = n * m"
    by (simp add: length_concat comp_def assms(1) sum_list_triv)
  show ?case
  proof (cases "j < n * m")
    case False
    with Suc.prems have "j div m = n" using assms(2) by (intro div_nat_eqI) (simp_all add: algebra_simps)
    with False l show ?thesis by (simp add: nth_append minus_mult_div_eq_mod [symmetric] mult.commute)
  qed (use Suc l in \<open>simp add: nth_append\<close>)
qed simp

lemma bit_out_secret:
  assumes "n < 256"
  shows "bit (out_secret s) n \<longleftrightarrow> bit (reg_file s ! (4 + (7 - n div 32))) (n mod 32)"
proof -
  have "bit (foldr (\<lambda>k acc. push_bit (224 - k * 32) (ucast (w k :: u32)) OR acc) ks (0 :: 256 word)) n
    \<longleftrightarrow> (\<exists>k \<in> set ks. 224 - k * 32 \<le> n \<and> bit (w k) (n - (224 - k * 32)))" for w ks
    using assms by (induction ks) (auto simp: bit_simps)
  note e = this [of "\<lambda>k. reg_file s ! ((OTAP_REG_SECRET_BASE + k * 4) div 4)" "[0..<8]"]
  have "224 - k * 32 \<le> n \<and> bit (w :: u32) (n - (224 - k * 32)) \<longleftrightarrow> k = 7 - n div 32 \<and> bit w (n mod 32)"
    if k: "k < 8" for k w
  proof -
    have d: "224 - k * 32 = 32 * (7 - k)" by (simp add: diff_mult_distrib2)
    have q: "n div 32 < 8" using assms by (simp add: less_mult_imp_div_less)
    have "32 * (7 - k) \<le> n \<and> n - 32 * (7 - k) < 32 \<longleftrightarrow> n div 32 = 7 - k"
      by (auto simp: div_nat_eqI algebra_simps)
    moreover have "n div 32 = 7 - k \<longleftrightarrow> k = 7 - n div 32" using q k by auto
    moreover have "n - 32 * (7 - k) < 32" if "bit w (n - 32 * (7 - k))" using bit_imp_le_length [OF that] by simp
    ultimately show ?thesis unfolding d by (metis minus_mult_div_eq_mod)
  qed
  then show ?thesis using assms unfolding out_secret_def OTAP_SECRET_WORDS_def e
    by (auto simp: OTAP_REG_SECRET_BASE_def)
qed

lemma out_secret_bytes:
  "to_be_bytes 32 (out_secret s) = concat (map (\<lambda>i. to_be_bytes 4 (reg_file s ! (4 + i))) [0..<8])" (is "_ = ?rhs")
proof (rule nth_equalityI)
  have l: "length (to_be_bytes 4 (reg_file s ! (4 + i))) = 4" for i by simp
  show "length (to_be_bytes 32 (out_secret s)) = length ?rhs"
    by (simp add: length_concat comp_def sum_list_triv)
  fix j assume "j < length (to_be_bytes 32 (out_secret s))"
  then have j: "j < 32" by simp
  have "?rhs ! j = to_be_bytes 4 (reg_file s ! (4 + j div 4)) ! (j mod 4)"
    using j by (intro nth_concat_blocks [OF l]) simp_all
  also have "\<dots> = ucast (drop_bit (8 * (3 - j mod 4)) (reg_file s ! (4 + j div 4)))"
    by (subst nth_to_be_bytes) simp_all
  also have "\<dots> = ucast (drop_bit (8 * (31 - j)) (out_secret s))"
  proof (rule bit_word_eqI)
    fix m assume "m < LENGTH(8)"
    then have m: "m < 8" by simp
    define q r where "q = j div 4" and "r = j mod 4"
    have qr: "j = 4 * q + r" "q < 8" "r < 4" using j by (simp_all add: q_def r_def less_mult_imp_div_less)
    define c where "c = 8 * (3 - r) + m"
    have e: "8 * (31 - j) + m = 32 * (7 - q) + c" and c: "c < 32" using m qr by (auto simp: c_def)
    have "(8 * (31 - j) + m) div 32 = 7 - q" "(8 * (31 - j) + m) mod 32 = 8 * (3 - r) + m"
      "8 * (31 - j) + m < 256" unfolding e c_def [symmetric] using c by simp_all
    then show "bit (ucast (drop_bit (8 * (3 - j mod 4)) (reg_file s ! (4 + j div 4))) :: u8) m
        = bit (ucast (drop_bit (8 * (31 - j)) (out_secret s)) :: u8) m"
      using m qr(2) by (simp add: bit_simps bit_out_secret q_def [symmetric] r_def [symmetric])
  qed
  also have "\<dots> = to_be_bytes 32 (out_secret s) ! j"
    using j by (subst nth_to_be_bytes) simp_all
  finally show "to_be_bytes 32 (out_secret s) ! j = ?rhs ! j" by simp
qed

lemma out_secret_view:
  assumes "reg_file s = words rf"
  shows "view_shared_secret rf =
    Inr (if out_secret_valid s then Some (SharedSecret (to_be_bytes 32 (out_secret s))) else None)"
proof -
  have r: "read_u32 rf (REG_SECRET_BASE + i * 4) = Inr (words rf ! (4 + i))" if "i < SECRET_WORDS" for i
    using that by (subst read_u32_reg) (simp_all add: csr_reg_def csr_map)
  have v: "read_u32 rf REG_SECRET_VALID = Inr (words rf ! 12)"
    by (subst read_u32_reg) (simp_all add: csr_reg_def csr_map)
  have "w AND 1 \<noteq> 0 \<longleftrightarrow> bit w 0" for w :: u32 by (simp add: and_one_eq bit_0 odd_iff_mod_2_eq_one)
  then show ?thesis
    using view_shared_secret_words [OF r v] assms
    by (simp add: out_secret_bytes out_secret_valid_def SECRET_WORDS_def OTAP_REG_SECRET_VALID_def)
qed

text \<open>The two tables.\<close>

lemma out_payload_view:
  assumes "reg_file s = words rf"
  shows "schema_payload_bytes rf (ucast (i :: 5 word)) =
    (if i = 0 then Inl (SchemaIdOutOfRange 0 SCHEMA_TABLE_ENTRIES) else Inr (out_schema_payload_bytes s i))"
proof -
  have u: "unat (ucast i :: u8) = unat i" by (simp add: unsigned_ucast_eq take_bit_nat_eq_self unat_less_pow [THEN order_less_le_trans])
  have i: "unat i < 32" using unat_less_pow [of i] by simp
  have z: "ucast i = (0 :: u8) \<longleftrightarrow> i = 0" using u by (metis unat_eq_zero)
  have v: "valid_schema (ucast i) \<longleftrightarrow> i \<noteq> 0" using u i z by (simp add: valid_schema_def SCHEMA_TABLE_ENTRIES_def)
  have "read_u32 rf (payload_off (ucast i)) = Inr (words rf ! (16 + unat i div 2))" if "i \<noteq> 0"
    using payload_off_range(1) [of "ucast i"] that v u by (simp add: read_u32_reg payload_off_def csr_map)
  moreover have "unat (drop_bit 1 i) = unat i div 2" by (simp only: unat_drop_bit) simp
  moreover have "bit (unat i) 0 \<longleftrightarrow> bit i 0" by (simp only: bit_unsigned_iff) simp
  then have "even (unat i) \<longleftrightarrow> \<not> bit i 0" by (simp add: bit_0)
  moreover have "(ucast (w AND 0xFFFF) :: u16) = ucast w" "(ucast (drop_bit 16 w AND 0xFFFF) :: u16) = ucast (drop_bit 16 w)" for w :: u32
    by (intro bit_word_eqI; auto simp: csr_masks bit_simps dest: bit_imp_le_length)+
  ultimately show ?thesis
    using assms by (auto simp: schema_payload_bytes_eq v z out_schema_payload_bytes_def get_half_def u rtl_map Let_def)
qed

lemma out_oam_view:
  assumes "reg_file s = words rf"
  shows "schema_id_for_oam rf (OamMode (scast (l :: 5 word))) = Inr (out_oam_to_schema_id s l)"
proof -
  let ?m = "OamMode (scast l)" and ?i = "(scast l :: 6 word) + 16"
  have "sint (scast l :: i8) = sint l" by (rule sint_up_scast) (simp add: is_up)
  moreover have "- 16 \<le> sint l" "sint l < 16" using sint_greater_eq [of l] sint_less [of l] by simp_all
  ultimately have wf: "wf_oam ?m" and idx: "oam_idx ?m = nat (sint l + 16)"
    by (simp_all add: wf_oam_def OAM_MIN_def OAM_MAX_def oam_idx_def)
  have "?i = word_of_int (sint l + 16)" by (simp only: scast_eq of_int_add of_int_numeral)
  then have "uint ?i = (sint l + 16) mod 2 ^ 6" by (simp only: uint_word_of_int) simp
  also have "\<dots> = sint l + 16" using \<open>- 16 \<le> sint l\<close> \<open>sint l < 16\<close> by (intro mod_pos_pos_trivial) simp_all
  finally have "uint ?i = sint l + 16" .
  then have u: "unat ?i = oam_idx ?m" unfolding idx by (simp add: unat_eq_nat_uint)
  have t: "unat (take_bit 2 ?i) = oam_idx ?m mod 4"
    by (simp only: unsigned_take_bit_eq u) (simp add: take_bit_eq_mod)
  have b: "take_bit 2 ?i = of_nat k \<longleftrightarrow> oam_idx ?m mod 4 = k" if "k < 4" for k
    using t that by (auto simp: word_unat_eq_iff unat_of_nat)
  have bs: "take_bit 2 ?i = 0 \<longleftrightarrow> oam_idx ?m mod 4 = 0" "take_bit 2 ?i = 1 \<longleftrightarrow> oam_idx ?m mod 4 = 1"
    "take_bit 2 ?i = 2 \<longleftrightarrow> oam_idx ?m mod 4 = 2" using b [of 0] b [of 1] b [of 2] by simp_all
  have d: "unat (drop_bit 2 ?i) = oam_idx ?m div 4" by (simp only: unat_drop_2 u)
  have w: "read_u32 rf (oam_off ?m) = Inr (words rf ! (64 + oam_idx ?m div 4))"
    using oam_off_range(1) [OF wf] by (simp add: read_u32_reg oam_off_def csr_map)
  have m: "(ucast (v AND 0xFF) :: u8) = ucast v" for v :: u32
    by (intro bit_word_eqI) (auto simp: csr_masks bit_simps dest: bit_imp_le_length)
  have "oam_idx ?m mod 4 = 0 \<or> oam_idx ?m mod 4 = 1 \<or> oam_idx ?m mod 4 = 2 \<or> oam_idx ?m mod 4 = 3" by presburger
  then show ?thesis
    using wf w assms unfolding schema_id_for_oam_eq out_oam_to_schema_id_def Let_def bs d m OTAP_REG_OAM_TABLE_BASE_def
    by (elim disjE) simp_all
qed

section \<open>Property\<close>

text \<open>(C15) The device's register block and the driver's register file stay in step. Whatever the block
  held before, after a reset and any sequence of bus cycles both hold the same words; a read
  returns what the register file would return, or zero where that refuses; and every decoded
  output is what the corresponding view of the register file shows, with an OAM mode given by
  its five bits. The charge +16, which the register file can look up, has no five-bit code: its
  truncation addresses the entry of -16.\<close>

theorem rtl_csr_equivalence:
  "let s = foldl csr_posedge s0 (p0\<lparr>rstn := False\<rparr> # ps); rf = foldl driver_step register_file_new ps
   in snapshot rf = reg_file s
    \<and> rd_data (csr_posedge s p) =
        (if rd_en p then case read_u32 rf (unat (rd_addr p)) of Inr v \<Rightarrow> v | Inl _ \<Rightarrow> 0 else 0)
    \<and> view_ctrl rf = Inr (out_ctrl s)
    \<and> view_wavelength rf = map_err CsrProtocol (wavelength_new (out_wavelength s))
    \<and> auth_tolerance rf = Inr (fp_div f32 (fp_of_int f32 (uint (out_auth_tolerance s))) (fp_lit f32 1000 1))
    \<and> view_shared_secret rf =
        Inr (if out_secret_valid s then Some (SharedSecret (to_be_bytes 32 (out_secret s))) else None)
    \<and> schema_payload_bytes rf (ucast i) =
        (if i = 0 then Inl (SchemaIdOutOfRange 0 SCHEMA_TABLE_ENTRIES) else Inr (out_schema_payload_bytes s i))
    \<and> schema_id_for_oam rf (OamMode (scast l)) = Inr (out_oam_to_schema_id s l)
    \<and> schema_id_for_oam rf (OamMode (- 16)) = Inr (out_oam_to_schema_id s (ucast (16 :: i8)))"
proof -
  define s where "s = foldl csr_posedge s0 (p0\<lparr>rstn := False\<rparr> # ps)"
  define rf where "rf = foldl driver_step register_file_new ps"
  have "reg_file (csr_posedge s0 (p0\<lparr>rstn := False\<rparr>)) = words register_file_new"
    by (simp add: csr_posedge_def register_file_new_def rtl_map_mirrors)
  from csr_run_sim [OF this] have sim: "reg_file s = words rf" by (simp add: s_def rf_def)
  have c: "(ucast (16 :: i8) :: 5 word) = - 16" by simp
  have "scast (- 16 :: 5 word) = (- 16 :: i8)" by (simp add: scast_eq)
  with out_oam_view [OF sim, of "- 16"] have "schema_id_for_oam rf (OamMode (- 16)) = Inr (out_oam_to_schema_id s (- 16))"
    by simp
  then show ?thesis
    using out_simple [OF sim] out_secret_view [OF sim] out_payload_view [OF sim] out_oam_view [OF sim, of l]
      csr_read_sim [OF sim] sim
    unfolding s_def [symmetric] rf_def [symmetric] Let_def snapshot_def c by simp
qed

end
