(* ===== verification/Rob.thy ===== *)
theory Rob
  imports Prelude
begin

text \<open>
  The reorder buffer of the device, src/rtl/otap_rob_bitweave.v: packets are stored with their
  sequence number in bit planes, one plane per bit of the number, and are committed in the order
  of the numbers. One call of \<open>rob_posedge\<close> is a rising clock edge. Memories and planes are
  functions from their index; a sequence number is a natural number of \<open>SID_WIDTH\<close> bits. Two
  \<open>always\<close> blocks write \<open>rob_valid\<close> and the planes; where both write the same entry at one edge
  the language leaves the order open, and the argument \<open>commit_last\<close> chooses it.
\<close>

record rob_params =
  SID_WIDTH :: nat
  ROB_DEPTH :: nat

definition rob_defaults :: rob_params where
  "rob_defaults = \<lparr>SID_WIDTH = 16, ROB_DEPTH = 256\<rparr>"

definition clog2 :: "nat \<Rightarrow> nat" where
  "clog2 n = length (takeWhile (\<lambda>k. 2 ^ k < n) [0..<n])"

definition ADDR_WIDTH :: "rob_params \<Rightarrow> nat" where
  "ADDR_WIDTH p = clog2 (ROB_DEPTH p)"

record ('d, 'k) rob_ports =
  rob_rst :: bool
  s_axis_tdata :: 'd
  s_axis_tkeep :: 'k
  s_axis_tvalid :: bool
  s_axis_tlast :: bool
  m_axis_tready :: bool

record ('d, 'k) rob =
  ingress_sid :: nat
  rob_data :: "nat \<Rightarrow> 'd"
  rob_keep :: "nat \<Rightarrow> 'k"
  rob_valid :: "nat \<Rightarrow> bool"
  sid_plane :: "nat \<Rightarrow> nat \<Rightarrow> bool"
  commit_ptr :: nat
  match_vector_pipe :: "nat \<Rightarrow> bool"
  match_valid_pipe :: bool
  m_axis_tdata :: 'd
  m_axis_tkeep :: 'k
  m_axis_tvalid :: bool
  m_axis_tlast :: bool

section \<open>Combinational signals\<close>

definition write_idx :: "rob_params \<Rightarrow> ('d, 'k) rob \<Rightarrow> nat" where
  "write_idx p s = take_bit (ADDR_WIDTH p) (ingress_sid s)"

definition s_axis_tready :: "rob_params \<Rightarrow> ('d, 'k) rob \<Rightarrow> bool" where
  "s_axis_tready p s = (\<not> rob_valid s (write_idx p s))"

definition rob_ingest :: "rob_params \<Rightarrow> ('d, 'k) rob \<Rightarrow> ('d, 'k) rob_ports \<Rightarrow> bool" where
  "rob_ingest p s i = (s_axis_tvalid i \<and> s_axis_tready p s \<and> s_axis_tlast i)"

text \<open>The AND/ANDNOT over the bit planes, masked with the valid bits.\<close>

definition rob_match :: "rob_params \<Rightarrow> ('d, 'k) rob \<Rightarrow> nat \<Rightarrow> bool" where
  "rob_match p s j =
     (fold (\<lambda>b acc. acc \<and> (if bit (commit_ptr s) b then sid_plane s b j else \<not> sid_plane s b j))
        [0..<SID_WIDTH p] True \<and> rob_valid s j)"

text \<open>The priority encoder: the loop counts down, so the lowest set index wins.\<close>

definition match_idx :: "rob_params \<Rightarrow> ('d, 'k) rob \<Rightarrow> nat" where
  "match_idx p s = fold (\<lambda>k idx. if match_vector_pipe s k then k else idx) (rev [0..<ROB_DEPTH p]) 0"

definition rob_commit :: "('d, 'k) rob \<Rightarrow> ('d, 'k) rob_ports \<Rightarrow> bool" where
  "rob_commit s i = ((m_axis_tready i \<or> \<not> m_axis_tvalid s) \<and> match_valid_pipe s)"

section \<open>The clock edge\<close>

definition rob_update :: "bool \<Rightarrow> bool \<Rightarrow> nat \<Rightarrow> bool \<Rightarrow> bool \<Rightarrow> nat \<Rightarrow> (nat \<Rightarrow> bool) \<Rightarrow> (nat \<Rightarrow> bool)" where
  "rob_update commit_last ingest w v commit m f =
     (let wr = (\<lambda>f. if ingest then f(w := v) else f); clr = (\<lambda>f. if commit then f(m := False) else f)
      in if commit_last then clr (wr f) else wr (clr f))"

definition rob_posedge :: "rob_params \<Rightarrow> bool \<Rightarrow> ('d, 'k) rob \<Rightarrow> ('d, 'k) rob_ports \<Rightarrow> ('d, 'k) rob" where
  "rob_posedge p commit_last s i =
     (let ingest = rob_ingest p s i; w = write_idx p s; commit = rob_commit s i; m = match_idx p s
      in if rob_rst i
         then s\<lparr>ingress_sid := 0, rob_valid := \<lambda>_. False, sid_plane := \<lambda>_ _. False, commit_ptr := 0,
                match_vector_pipe := \<lambda>_. False, match_valid_pipe := False,
                m_axis_tvalid := False, m_axis_tlast := False\<rparr>
         else \<lparr>
           ingress_sid = (if ingest then (ingress_sid s + 1) mod 2 ^ SID_WIDTH p else ingress_sid s),
           rob_data = (if ingest then (rob_data s)(w := s_axis_tdata i) else rob_data s),
           rob_keep = (if ingest then (rob_keep s)(w := s_axis_tkeep i) else rob_keep s),
           rob_valid = rob_update commit_last ingest w True commit m (rob_valid s),
           sid_plane = (\<lambda>b. rob_update commit_last ingest w (bit (ingress_sid s) b) commit m (sid_plane s b)),
           commit_ptr = (if commit then (commit_ptr s + 1) mod 2 ^ SID_WIDTH p else commit_ptr s),
           match_vector_pipe = rob_match p s,
           match_valid_pipe = list_ex (rob_match p s) [0..<ROB_DEPTH p],
           m_axis_tdata = (if commit then rob_data s m else m_axis_tdata s),
           m_axis_tkeep = (if commit then rob_keep s m else m_axis_tkeep s),
           m_axis_tvalid = (if m_axis_tready i \<or> \<not> m_axis_tvalid s then match_valid_pipe s else m_axis_tvalid s),
           m_axis_tlast = (if m_axis_tready i \<or> \<not> m_axis_tvalid s then match_valid_pipe s else m_axis_tlast s)\<rparr>)"

text \<open>A run, with the packets handed over at the output: those that are valid at an edge at which
  the receiver is ready.\<close>

fun rob_run :: "rob_params \<Rightarrow> bool \<Rightarrow> ('d, 'k) rob \<Rightarrow> ('d, 'k) rob_ports list \<Rightarrow> ('d, 'k) rob \<times> ('d \<times> 'k) list" where
  "rob_run p commit_last s [] = (s, [])"
| "rob_run p commit_last s (i # is) =
     (let (s', out) = rob_run p commit_last (rob_posedge p commit_last s i) is
      in (s', (if m_axis_tvalid s \<and> m_axis_tready i \<and> \<not> rob_rst i then [(m_axis_tdata s, m_axis_tkeep s)] else []) @ out))"

section \<open>Sequence numbers in the planes\<close>

text \<open>The number stored for a slot, read across the planes.\<close>

definition sid_at :: "rob_params \<Rightarrow> ('d, 'k) rob \<Rightarrow> nat \<Rightarrow> nat" where
  "sid_at p s j = horner_sum of_bool 2 (map (\<lambda>b. sid_plane s b j) [0..<SID_WIDTH p])"

lemma bit_sid_at: "bit (sid_at p s j) b \<longleftrightarrow> b < SID_WIDTH p \<and> sid_plane s b j"
  by (auto simp: sid_at_def bit_horner_sum_bit_iff)

lemma take_bit_sid_at: "take_bit (SID_WIDTH p) (sid_at p s j) = sid_at p s j"
  by (rule bit_eqI) (auto simp: bit_take_bit_iff bit_sid_at)

lemma rob_match_planes:
  "rob_match p s j \<longleftrightarrow> rob_valid s j \<and> (\<forall>b < SID_WIDTH p. sid_plane s b j = bit (commit_ptr s) b)"
proof -
  have "fold (\<lambda>b acc. acc \<and> (if bit c b then f b else \<not> f b)) [0..<n] True \<longleftrightarrow> (\<forall>b < n. f b = bit c b)"
    for c :: nat and f n
    by (induction n) (auto simp: less_Suc_eq)
  then show ?thesis by (auto simp: rob_match_def)
qed

lemma bits_eq_iff:
  assumes "c < 2 ^ n"
  shows "(\<forall>b < n. bit (sid :: nat) b = bit c b) \<longleftrightarrow> take_bit n sid = c"
proof -
  from assms have "take_bit n c = c" by (simp add: take_bit_nat_eq_self)
  then show ?thesis by (metis bit_eq_iff bit_take_bit_iff)
qed

lemma rob_match_sid:
  assumes "commit_ptr s < 2 ^ SID_WIDTH p"
  shows "rob_match p s j \<longleftrightarrow> rob_valid s j \<and> sid_at p s j = commit_ptr s"
proof -
  have "(\<forall>b < SID_WIDTH p. bit (sid_at p s j) b = bit (commit_ptr s) b) \<longleftrightarrow> sid_at p s j = commit_ptr s"
    using bits_eq_iff [OF assms, of "sid_at p s j"] by (simp only: take_bit_sid_at)
  then have "(\<forall>b < SID_WIDTH p. sid_plane s b j = bit (commit_ptr s) b) \<longleftrightarrow> sid_at p s j = commit_ptr s"
    by (simp add: bit_sid_at)
  then show ?thesis by (simp only: rob_match_planes)
qed

lemma match_idx_unique:
  assumes "match_vector_pipe s j" and "j < ROB_DEPTH p" and "\<And>k. match_vector_pipe s k \<Longrightarrow> k = j"
  shows "match_idx p s = j"
proof -
  have m: "match_vector_pipe s = (\<lambda>k. k = j)" by (rule ext) (use assms(1,3) in blast)
  have "fold (\<lambda>k idx. if k = j then k else idx) (rev [0..<n]) x = (if j < n then j else x)" for n x
    by (induction n arbitrary: x) (auto simp: less_Suc_eq)
  from this [of "ROB_DEPTH p" 0] show ?thesis using assms(2) by (simp add: match_idx_def m)
qed

section \<open>Invariant\<close>

text \<open>The depth is a power of two and the addresses are the low bits of the sequence numbers.\<close>

definition rob_ok :: "rob_params \<Rightarrow> bool" where
  "rob_ok p \<longleftrightarrow> ROB_DEPTH p = 2 ^ ADDR_WIDTH p \<and> 0 < ADDR_WIDTH p \<and> ADDR_WIDTH p < SID_WIDTH p"

lemma clog2_pow: "clog2 (2 ^ a) = a"
proof -
  have "a < 2 ^ a" by (rule less_exp)
  then have "[0..<2 ^ a] = [0..<a] @ [a..<2 ^ a]" by (metis le_add_diff_inverse less_imp_le upt_add_eq_append zero_le)
  moreover have "takeWhile (\<lambda>k. k < a) [a..<2 ^ a] = []" by (simp add: takeWhile_eq_Nil_iff)
  moreover have "takeWhile (\<lambda>k. k < a) ([0..<a] @ ys) = [0..<a] @ takeWhile (\<lambda>k. k < a) ys" for ys
    by (rule takeWhile_append2) simp
  ultimately show ?thesis by (simp add: clog2_def)
qed

lemma rob_ok_bounds:
  assumes "rob_ok p"
  shows "0 < ROB_DEPTH p" and "2 < (2 :: nat) ^ SID_WIDTH p" and "1 < SID_WIDTH p"
  using assms power_strict_increasing [of 1 "SID_WIDTH p" "2 :: nat"] by (simp_all add: rob_ok_def)

lemma rob_defaults_ok: "rob_ok rob_defaults"
  using clog2_pow [of 8] by (simp add: rob_ok_def rob_defaults_def ADDR_WIDTH_def)

text \<open>Every stored packet is in the slot of its sequence number.\<close>

definition rob_inv :: "rob_params \<Rightarrow> ('d, 'k) rob \<Rightarrow> bool" where
  "rob_inv p s \<longleftrightarrow> ingress_sid s < 2 ^ SID_WIDTH p \<and> commit_ptr s < 2 ^ SID_WIDTH p
     \<and> (\<forall>j. rob_valid s j \<longrightarrow> take_bit (ADDR_WIDTH p) (sid_at p s j) = j)"

lemma sid_at_cong: "(\<And>b. b < SID_WIDTH p \<Longrightarrow> sid_plane s b j = sid_plane t b j) \<Longrightarrow> sid_at p s j = sid_at p t j"
  by (intro bit_eqI) (auto simp: bit_sid_at)

lemma rob_posedge_inv:
  assumes "rob_inv p s"
  shows "rob_inv p (rob_posedge p cl s i)"
proof (cases "rob_rst i")
  case True
  then show ?thesis by (simp add: rob_posedge_def rob_inv_def)
next
  case False
  let ?t = "rob_posedge p cl s i"
  have "take_bit (ADDR_WIDTH p) (sid_at p ?t j) = j" if v: "rob_valid ?t j" for j
  proof (cases "rob_ingest p s i \<and> write_idx p s = j")
    case True
    with v False have "sid_plane ?t b j = bit (ingress_sid s) b" for b
      by (auto simp: rob_posedge_def rob_update_def Let_def split: if_splits)
    then have "\<forall>b < SID_WIDTH p. bit (sid_at p ?t j) b = bit (ingress_sid s) b" by (simp add: bit_sid_at)
    then have "sid_at p ?t j = ingress_sid s"
      using assms bits_eq_iff [of "ingress_sid s" "SID_WIDTH p" "sid_at p ?t j"] unfolding take_bit_sid_at
      by (simp add: rob_inv_def)
    then show ?thesis using True by (simp add: write_idx_def)
  next
    case other: False
    with v False have "rob_valid s j" and "sid_plane ?t b j = sid_plane s b j" for b
      by (auto simp: rob_posedge_def rob_update_def Let_def split: if_splits)
    then show ?thesis using assms sid_at_cong [of p ?t j s] by (simp add: rob_inv_def)
  qed
  moreover have "ingress_sid ?t < 2 ^ SID_WIDTH p" "commit_ptr ?t < 2 ^ SID_WIDTH p"
    using False assms by (simp_all add: rob_posedge_def rob_inv_def Let_def)
  ultimately show ?thesis by (simp add: rob_inv_def)
qed

lemma rob_run_inv: "rob_inv p s \<Longrightarrow> rob_inv p (foldl (rob_posedge p cl) s is)"
  by (induction "is" arbitrary: s) (simp_all add: rob_posedge_inv)

lemma rob_reset_inv: "rob_inv p (rob_posedge p cl s (i\<lparr>rob_rst := True\<rparr>))"
  by (simp add: rob_posedge_def rob_inv_def)

section \<open>Properties\<close>

text \<open>An edge with a packet at the input, and one without; the receiver is ready at both.\<close>

definition rob_send :: "'d \<Rightarrow> 'k \<Rightarrow> ('d, 'k) rob_ports" where
  "rob_send x k = \<lparr>rob_rst = False, s_axis_tdata = x, s_axis_tkeep = k, s_axis_tvalid = True,
     s_axis_tlast = True, m_axis_tready = True\<rparr>"

definition rob_idle :: "'d \<Rightarrow> 'k \<Rightarrow> ('d, 'k) rob_ports" where
  "rob_idle x k = (rob_send x k)\<lparr>s_axis_tvalid := False\<rparr>"

text \<open>(C25) The bit-plane scan is a search for the next sequence number. After a reset and any inputs, the
  match vector registered at the next edge marks exactly the valid slots whose stored number is
  the commit pointer. There is at most one, the slot addressed by the low bits of the pointer, and
  the priority encoder returns it.\<close>

theorem rob_scan_reference:
  assumes "rob_ok p" and "\<not> rob_rst i"
  shows "let s = foldl (rob_posedge p cl) s0 (i0\<lparr>rob_rst := True\<rparr> # is); s' = rob_posedge p cl s i;
             j = take_bit (ADDR_WIDTH p) (commit_ptr s)
         in match_vector_pipe s' = (\<lambda>k. k = j \<and> rob_valid s k \<and> sid_at p s k = commit_ptr s)
          \<and> (match_valid_pipe s' \<longleftrightarrow> match_vector_pipe s' j)
          \<and> (match_valid_pipe s' \<longrightarrow> match_idx p s' = j)"
proof -
  define s where "s = foldl (rob_posedge p cl) s0 (i0\<lparr>rob_rst := True\<rparr> # is)"
  define j where "j = take_bit (ADDR_WIDTH p) (commit_ptr s)"
  let ?t = "rob_posedge p cl s i"
  have inv: "rob_inv p s" by (simp add: s_def rob_run_inv rob_reset_inv)
  then have m: "rob_match p s k \<longleftrightarrow> rob_valid s k \<and> sid_at p s k = commit_ptr s" for k
    by (simp add: rob_inv_def rob_match_sid)
  with inv have at: "rob_match p s k \<Longrightarrow> k = j" for k by (auto simp: rob_inv_def j_def)
  have j: "j < ROB_DEPTH p" using assms(1) by (simp add: rob_ok_def j_def)
  have vec: "match_vector_pipe ?t = rob_match p s"
    and val: "match_valid_pipe ?t \<longleftrightarrow> list_ex (rob_match p s) [0..<ROB_DEPTH p]"
    using assms(2) by (simp_all add: rob_posedge_def Let_def)
  have "j \<in> set [0..<ROB_DEPTH p]" using j by simp
  then have v: "match_valid_pipe ?t \<longleftrightarrow> rob_match p s j" unfolding val list_ex_iff using at by metis
  have "match_vector_pipe ?t = (\<lambda>k. k = j \<and> rob_valid s k \<and> sid_at p s k = commit_ptr s)"
    unfolding vec using m at by (intro ext) blast
  moreover have "match_idx p ?t = j" if "match_valid_pipe ?t"
    using match_idx_unique [of ?t j p] that v j at unfolding vec by blast
  ultimately show ?thesis unfolding s_def [symmetric] j_def [symmetric] Let_def using v vec by simp
qed

theorem rob_scan_reference_witness:
  "rob_ok rob_defaults \<and> (\<forall>s0. let s = foldl (rob_posedge rob_defaults True) s0 [(rob_idle 7 ())\<lparr>rob_rst := True\<rparr>, rob_send 7 ()]
   in match_vector_pipe (rob_posedge rob_defaults True s (rob_idle (7 :: nat) ())) =
        (\<lambda>k. k = take_bit (ADDR_WIDTH rob_defaults) (commit_ptr s) \<and> rob_valid s k \<and> sid_at rob_defaults s k = commit_ptr s))"
proof -
  have "\<not> rob_rst (rob_idle (7 :: nat) ())" by (simp add: rob_idle_def rob_send_def)
  from rob_scan_reference [OF rob_defaults_ok this, of True _ "rob_idle 7 ()" "[rob_send 7 ()]"]
  show ?thesis using rob_defaults_ok unfolding Let_def by blast
qed

lemma rob_update_simps [simp]:
  "rob_update cl False w v False m f = f" "rob_update cl True w v False m f = f(w := v)"
  "rob_update cl False w v True m f = f(m := False)"
  by (simp_all add: rob_update_def Let_def)

lemma fst_rob_run: "fst (rob_run p cl s is) = foldl (rob_posedge p cl) s is"
  by (induction "is" arbitrary: s) (simp_all add: case_prod_beta Let_def)

lemma rob_run_append:
  "snd (rob_run p cl s (xs @ ys)) = snd (rob_run p cl s xs) @ snd (rob_run p cl (fst (rob_run p cl s xs)) ys)"
  by (induction xs arbitrary: s) (simp_all add: case_prod_beta Let_def)

text \<open>A buffer in which nothing matches stays silent.\<close>

lemma rob_match_eq:
  "rob_valid s = rob_valid t \<Longrightarrow> sid_plane s = sid_plane t \<Longrightarrow> commit_ptr s = commit_ptr t \<Longrightarrow> rob_match p s = rob_match p t"
  by (rule ext) (simp add: rob_match_planes)

lemma rob_quiet:
  "\<not> m_axis_tvalid s \<Longrightarrow> \<not> match_valid_pipe s \<Longrightarrow> rob_match p s = (\<lambda>_. False) \<Longrightarrow>
   snd (rob_run p cl s (replicate n (rob_idle x k))) = []"
proof (induction n arbitrary: s)
  case (Suc n)
  let ?t = "rob_posedge p cl s (rob_idle x k)"
  have "rob_valid ?t = rob_valid s" "sid_plane ?t = sid_plane s" "commit_ptr ?t = commit_ptr s"
    "\<not> m_axis_tvalid ?t" "\<not> match_valid_pipe ?t"
    using Suc.prems
    by (simp_all add: rob_posedge_def Let_def rob_ingest_def rob_commit_def rob_idle_def rob_send_def
        list_ex_iff)
  then have "snd (rob_run p cl ?t (replicate n (rob_idle x k))) = []"
    using Suc.prems rob_match_eq [of ?t s p] by (intro Suc.IH) simp_all
  then show ?case using Suc.prems(1) by (simp add: case_prod_beta Let_def)
qed simp

text \<open>The states in between: a fresh buffer, one with a packet number 0 that has matched, and one
  in which number 1 waits for a pointer that is already at 2.\<close>

lemmas rob_edge = rob_posedge_def Let_def rob_ingest_def rob_commit_def rob_idle_def rob_send_def
  list_ex_iff write_idx_def s_axis_tready_def

lemma rob_first:
  assumes "rob_ok p" and s3_def: "s3 = foldl (rob_posedge p cl) s0 [(rob_idle x k)\<lparr>rob_rst := True\<rparr>, rob_send x k, rob_idle x k]"
  shows "rob_valid s3 = (\<lambda>_. False)(0 := True)" "sid_plane s3 = (\<lambda>_ _. False)" "commit_ptr s3 = 0"
    "ingress_sid s3 = 1" "match_vector_pipe s3 = (\<lambda>j. j = 0)" "match_valid_pipe s3"
    "\<not> m_axis_tvalid s3" "rob_data s3 0 = x" "rob_keep s3 0 = k"
    "snd (rob_run p cl s0 [(rob_idle x k)\<lparr>rob_rst := True\<rparr>, rob_send x k, rob_idle x k]) = []"
proof -
  define s1 where "s1 = rob_posedge p cl s0 ((rob_idle x k)\<lparr>rob_rst := True\<rparr>)"
  define s2 where "s2 = rob_posedge p cl s1 (rob_send x k)"
  note W = rob_ok_bounds [OF assms(1)]
  have s1: "rob_valid s1 = (\<lambda>_. False)" "sid_plane s1 = (\<lambda>_ _. False)" "commit_ptr s1 = 0" "ingress_sid s1 = 0"
    "\<not> match_valid_pipe s1" "\<not> m_axis_tvalid s1"
    by (simp_all add: s1_def rob_posedge_def)
  have s2: "rob_valid s2 = (\<lambda>_. False)(0 := True)" "sid_plane s2 = (\<lambda>_ _. False)" "commit_ptr s2 = 0"
    "ingress_sid s2 = 1" "\<not> match_valid_pipe s2" "\<not> m_axis_tvalid s2" "rob_data s2 0 = x" "rob_keep s2 0 = k"
    using W s1 by (simp_all add: s2_def rob_edge fun_eq_iff rob_match_planes)
  have m: "rob_match p s2 = (\<lambda>j. j = 0)" by (rule ext) (simp add: rob_match_planes s2)
  have e: "s3 = rob_posedge p cl s2 (rob_idle x k)" by (simp add: s3_def s2_def s1_def)
  show "rob_valid s3 = (\<lambda>_. False)(0 := True)" "sid_plane s3 = (\<lambda>_ _. False)" "commit_ptr s3 = 0"
    "ingress_sid s3 = 1" "match_vector_pipe s3 = (\<lambda>j. j = 0)" "match_valid_pipe s3"
    "\<not> m_axis_tvalid s3" "rob_data s3 0 = x" "rob_keep s3 0 = k"
    using W(1) s2 by (simp_all add: e rob_edge m)
  show "snd (rob_run p cl s0 [(rob_idle x k)\<lparr>rob_rst := True\<rparr>, rob_send x k, rob_idle x k]) = []"
    using s1(6) s2(6) by (simp add: s1_def [symmetric] s2_def [symmetric] Let_def case_prod_beta)
qed

lemma rob_second:
  assumes "rob_ok p" and "rob_valid s3 = (\<lambda>_. False)(0 := True)" "sid_plane s3 = (\<lambda>_ _. False)" "commit_ptr s3 = 0"
    "ingress_sid s3 = 1" "match_vector_pipe s3 = (\<lambda>j. j = 0)" "match_valid_pipe s3"
    "\<not> m_axis_tvalid s3" "rob_data s3 0 = x" "rob_keep s3 0 = k"
  shows "\<exists>s6. rob_run p cl s3 (replicate 3 (rob_idle x k)) = (s6, [(x, k), (x, k)]) \<and> rob_valid s6 = (\<lambda>_. False)
    \<and> sid_plane s6 = (\<lambda>_ _. False) \<and> commit_ptr s6 = 2 \<and> ingress_sid s6 = 1 \<and> \<not> match_valid_pipe s6
    \<and> \<not> m_axis_tvalid s6"
proof -
  note D = rob_ok_bounds(1) [OF assms(1)] and W = rob_ok_bounds(2,3) [OF assms(1)]
  have mi: "match_idx p s = 0" if "match_vector_pipe s = (\<lambda>j. j = 0)" for s :: "('a, 'b) rob"
    using that D by (intro match_idx_unique) simp_all
  let ?i = "rob_idle x k"
  define s4 where "s4 = rob_posedge p cl s3 ?i"
  define s5 where "s5 = rob_posedge p cl s4 ?i"
  define s6 where "s6 = rob_posedge p cl s5 ?i"
  have m3: "rob_match p s3 = (\<lambda>j. j = 0)" by (rule ext) (simp add: rob_match_planes assms)
  have s4: "rob_valid s4 = (\<lambda>_. False)" "sid_plane s4 = (\<lambda>_ _. False)" "commit_ptr s4 = 1" "ingress_sid s4 = 1"
    "match_vector_pipe s4 = (\<lambda>j. j = 0)" "match_valid_pipe s4" "m_axis_tvalid s4" "m_axis_tdata s4 = x"
    "m_axis_tkeep s4 = k" "rob_data s4 0 = x" "rob_keep s4 0 = k"
    using D W assms(2-) by (simp_all add: s4_def rob_edge m3 mi [OF assms(6)] fun_eq_iff)
  have m4: "rob_match p s4 = (\<lambda>_. False)" by (rule ext) (simp add: rob_match_planes s4)
  have s5: "rob_valid s5 = (\<lambda>_. False)" "sid_plane s5 = (\<lambda>_ _. False)" "commit_ptr s5 = 2" "ingress_sid s5 = 1"
    "\<not> match_valid_pipe s5" "m_axis_tvalid s5" "m_axis_tdata s5 = x" "m_axis_tkeep s5 = k"
    using W s4 by (simp_all add: s5_def rob_edge m4 mi [OF s4(5)] fun_eq_iff)
  have m5: "rob_match p s5 = (\<lambda>_. False)" by (rule ext) (simp add: rob_match_planes s5)
  have s6: "rob_valid s6 = (\<lambda>_. False)" "sid_plane s6 = (\<lambda>_ _. False)" "commit_ptr s6 = 2" "ingress_sid s6 = 1"
    "\<not> match_valid_pipe s6" "\<not> m_axis_tvalid s6"
    using s5 by (simp_all add: s6_def rob_edge m5)
  have "rob_run p cl s3 (replicate 3 ?i) = (s6, [(x, k), (x, k)])"
    using assms(8) s4(7-9) s5(6-8)
    by (simp add: numeral_3_eq_3 s4_def [symmetric] s5_def [symmetric] s6_def [symmetric] rob_idle_def [symmetric])
      (simp add: rob_idle_def rob_send_def)
  with s6 show ?thesis by blast
qed

text \<open>(C36) What the pipeline register does to the order. The vector that is registered while a packet is
  committed still marks that packet, so the edge after commits it once more and moves the pointer
  past the next number: a single packet leaves the buffer twice, and the packet accepted after it
  never leaves while no other follows, however long the receiver waits.\<close>

theorem rob_repeats_and_loses:
  assumes "rob_ok p"
  shows "snd (rob_run p cl s0 ((rob_idle x k)\<lparr>rob_rst := True\<rparr> # rob_send x k # replicate 4 (rob_idle x k)
      @ rob_send y l # replicate n (rob_idle x k))) = [(x, k), (x, k)]"
proof -
  let ?i = "rob_idle x k" and ?r = "(rob_idle x k)\<lparr>rob_rst := True\<rparr>"
  define s3 where "s3 = foldl (rob_posedge p cl) s0 [?r, rob_send x k, ?i]"
  note f = rob_first [OF assms s3_def]
  obtain s6 where s6: "rob_run p cl s3 (replicate 3 ?i) = (s6, [(x, k), (x, k)])" "rob_valid s6 = (\<lambda>_. False)"
    "sid_plane s6 = (\<lambda>_ _. False)" "commit_ptr s6 = 2" "ingress_sid s6 = 1" "\<not> match_valid_pipe s6" "\<not> m_axis_tvalid s6"
    using rob_second [OF assms f(1-9)] by blast
  define s7 where "s7 = rob_posedge p cl s6 (rob_send y l)"
  have W: "1 < SID_WIDTH p" by (rule rob_ok_bounds(3) [OF assms])
  have A: "0 < ADDR_WIDTH p" using assms by (simp add: rob_ok_def)
  have m6: "rob_match p s6 = (\<lambda>_. False)" by (rule ext) (simp add: rob_match_planes s6)
  have s7: "rob_valid s7 = (\<lambda>_. False)(1 := True)" "sid_plane s7 = (\<lambda>b. (\<lambda>_. False)(1 := bit (1 :: nat) b))" "commit_ptr s7 = 2"
    "\<not> match_valid_pipe s7" "\<not> m_axis_tvalid s7"
    using s6 W by (simp_all add: s7_def rob_edge m6 A)
  have m7: "rob_match p s7 = (\<lambda>_. False)"
    using W by (intro ext) (auto simp: rob_match_planes s7 bit_0 intro!: exI [of _ 0])
  have q: "snd (rob_run p cl s7 (replicate n ?i)) = []"
    by (rule rob_quiet) (simp_all add: s7 m7)
  have "replicate 4 ?i = [?i] @ replicate 3 ?i" by (simp add: eval_nat_numeral)
  then have "?r # rob_send x k # replicate 4 ?i @ rob_send y l # replicate n ?i
      = [?r, rob_send x k, ?i] @ replicate 3 ?i @ [rob_send y l] @ replicate n ?i" by simp
  then show ?thesis using f(10) s6(1,7) q
    by (simp only: rob_run_append fst_rob_run s3_def [symmetric] foldl_append) (simp add: s7_def case_prod_beta Let_def)
qed

theorem rob_repeats_and_loses_witness:
  "rob_ok rob_defaults \<and> (\<forall>s0. snd (rob_run rob_defaults True s0 ((rob_idle 1 ())\<lparr>rob_rst := True\<rparr> # rob_send 1 ()
      # replicate 4 (rob_idle 1 ()) @ rob_send 2 () # replicate 100 (rob_idle (1 :: nat) ()))) = [(1, ()), (1, ())])"
  by (intro conjI allI rob_defaults_ok rob_repeats_and_loses [OF rob_defaults_ok])

end
