(* ===== verification/Bitweave.thy ===== *)
theory Bitweave
  imports Strings
begin

text \<open>
  The conflict index of the registry service, src/flr/internal/bitweave: lease attributes are
  transposed into bit planes, plane \<open>p\<close> holding bit \<open>p\<close> of the attribute of every slot, 64 slots to
  a word, and a query is evaluated for all slots at once with AND and AND-NOT. The fixed-size Go
  arrays are functions from their index. The theory shows that the planes implement a plain list
  of entries.
\<close>

type_synonym plane_array = "nat \<Rightarrow> nat \<Rightarrow> u64"
type_synonym word_array = "nat \<Rightarrow> u64"

definition MaxLeases :: nat where "MaxLeases = 1024"
definition wordsPerPlane :: nat where "wordsPerPlane = MaxLeases div 64"

record lease_index =
  ix_ChannelNum :: plane_array
  ix_AwgID :: plane_array
  ix_TenantID :: plane_array
  ix_AwgPort :: plane_array
  ix_Active :: word_array
  ix_Exclusive :: word_array
  ix_LeaseIDs :: "nat \<Rightarrow> ustring"
  ix_Count :: nat

definition NewLeaseIndex :: lease_index where
  "NewLeaseIndex = \<lparr>ix_ChannelNum = \<lambda>_ _. 0, ix_AwgID = \<lambda>_ _. 0, ix_TenantID = \<lambda>_ _. 0, ix_AwgPort = \<lambda>_ _. 0,
     ix_Active = \<lambda>_. 0, ix_Exclusive = \<lambda>_. 0, ix_LeaseIDs = \<lambda>_. [], ix_Count = 0\<rparr>"

section \<open>Insert and Remove\<close>

text \<open>The loop over the planes of one attribute: \<open>if (v>>p)&1 == 1 { planes[p][word] |= 1 << bit }\<close>.\<close>

definition plane_insert :: "nat \<Rightarrow> 'a::len word \<Rightarrow> nat \<Rightarrow> nat \<Rightarrow> plane_array \<Rightarrow> plane_array" where
  "plane_insert n v w b planes =
     fold (\<lambda>p planes. if drop_bit p v AND 1 = 1 then planes(p := (planes p)(w := planes p w OR push_bit b 1)) else planes)
       [0..<n] planes"

definition Insert :: "lease_index \<Rightarrow> ustring \<Rightarrow> u32 \<Rightarrow> u16 \<Rightarrow> u16 \<Rightarrow> u16 \<Rightarrow> bool \<Rightarrow> string + nat \<times> lease_index" where
  "Insert idx leaseID channelNum awgID tenantID awgPort exclusive =
     (if ix_Count idx \<ge> MaxLeases then Inl ''lease index full (1024 max)''
      else let slot = ix_Count idx; w = slot div 64; b = slot mod 64
      in Inr (slot, idx\<lparr>
           ix_Active := (ix_Active idx)(w := ix_Active idx w OR push_bit b 1),
           ix_Exclusive := (if exclusive then (ix_Exclusive idx)(w := ix_Exclusive idx w OR push_bit b 1) else ix_Exclusive idx),
           ix_ChannelNum := plane_insert 32 channelNum w b (ix_ChannelNum idx),
           ix_AwgID := plane_insert 16 awgID w b (ix_AwgID idx),
           ix_TenantID := plane_insert 16 tenantID w b (ix_TenantID idx),
           ix_AwgPort := plane_insert 16 awgPort w b (ix_AwgPort idx),
           ix_LeaseIDs := (ix_LeaseIDs idx)(slot := leaseID),
           ix_Count := ix_Count idx + 1\<rparr>))"

definition plane_remove :: "nat \<Rightarrow> nat \<Rightarrow> u64 \<Rightarrow> plane_array \<Rightarrow> plane_array" where
  "plane_remove n w m planes = fold (\<lambda>p planes. planes(p := (planes p)(w := planes p w AND m))) [0..<n] planes"

definition Remove :: "lease_index \<Rightarrow> int \<Rightarrow> lease_index" where
  "Remove idx slot =
     (if slot < 0 \<or> slot \<ge> int MaxLeases then idx
      else let slot = nat slot; w = slot div 64; m = NOT (push_bit (slot mod 64) 1)
      in idx\<lparr>
           ix_Active := (ix_Active idx)(w := ix_Active idx w AND m),
           ix_Exclusive := (ix_Exclusive idx)(w := ix_Exclusive idx w AND m),
           ix_ChannelNum := plane_remove 32 w m (ix_ChannelNum idx),
           ix_AwgID := plane_remove 16 w m (ix_AwgID idx),
           ix_TenantID := plane_remove 16 w m (ix_TenantID idx),
           ix_AwgPort := plane_remove 16 w m (ix_AwgPort idx),
           ix_LeaseIDs := (ix_LeaseIDs idx)(slot := [])\<rparr>)"

section \<open>CheckConflicts\<close>

datatype conflict_type = NoConflict | LambdaCollision | AwgPortCollision | TenantIsolation

datatype conflict = Conflict conflict_type ustring nat

text \<open>\<open>bits.TrailingZeros64\<close>, and the loop that takes the set bits of a word from the lowest up.\<close>

definition TrailingZeros64 :: "u64 \<Rightarrow> nat" where
  "TrailingZeros64 b = length (takeWhile (\<lambda>i. \<not> bit b i) [0..<64])"

function scan_bits :: "u64 \<Rightarrow> nat list" where
  "scan_bits b = (if b \<noteq> 0 then TrailingZeros64 b # scan_bits (b AND (b - 1)) else [])"
  by pat_completeness auto

termination
proof (relation "measure unat")
  fix b :: u64 assume "b \<noteq> 0"
  then have "unat (b - 1) < unat b" by (simp add: unat_minus_one unat_gt_0)
  moreover have "unat (b AND (b - 1)) \<le> unat (b - 1)" by (simp add: word_and_le1 word_le_nat_alt [symmetric])
  ultimately show "(b AND (b - 1), b) \<in> measure unat" by simp
qed simp

declare scan_bits.simps [simp del]

text \<open>The scan of one attribute, as \<open>CheckConflicts\<close> writes it and as \<open>matchScalar16\<close> and
  \<open>matchScalar32\<close> do.\<close>

definition match_planes :: "nat \<Rightarrow> plane_array \<Rightarrow> 'a::len word \<Rightarrow> nat \<Rightarrow> word_array \<Rightarrow> word_array" where
  "match_planes n planes target words match =
     fold (\<lambda>p match. let bitSet = drop_bit p target AND 1
        in (\<lambda>w. if w < words then if bitSet = 1 then match w AND planes p w else match w AND NOT (planes p w) else match w))
       [0..<n] match"

definition matchScalar :: "nat \<Rightarrow> word_array \<Rightarrow> plane_array \<Rightarrow> 'a::len word \<Rightarrow> nat \<Rightarrow> word_array" where
  "matchScalar n match planes target words =
     fold (\<lambda>p match. if drop_bit p target AND 1 = 1 then (\<lambda>w. if w < words then match w AND planes p w else match w)
        else (\<lambda>w. if w < words then match w AND NOT (planes p w) else match w))
       [0..<n] match"

definition exclude_slot :: "int \<Rightarrow> word_array \<Rightarrow> word_array" where
  "exclude_slot excludeSlot a =
     (if 0 \<le> excludeSlot \<and> excludeSlot < int MaxLeases
      then let exWord = nat excludeSlot div 64; exMask = NOT (push_bit (nat excludeSlot mod 64) 1)
           in a(exWord := a exWord AND exMask)
      else a)"

definition collect :: "lease_index \<Rightarrow> conflict_type \<Rightarrow> nat \<Rightarrow> u64 \<Rightarrow> conflict list" where
  "collect idx ty w b = map (\<lambda>trail. let slot = w * 64 + trail in Conflict ty (ix_LeaseIDs idx slot) slot) (scan_bits b)"

definition CheckConflicts :: "lease_index \<Rightarrow> u32 \<Rightarrow> u16 \<Rightarrow> u16 \<Rightarrow> u16 \<Rightarrow> bool \<Rightarrow> int \<Rightarrow> conflict list" where
  "CheckConflicts idx channelNum awgID tenantID awgPort proposedExclusive excludeSlot =
     (let words = (ix_Count idx + 63) div 64
      in if words = 0 then []
      else let
        channelMatch = match_planes 32 (ix_ChannelNum idx) channelNum words (ix_Active idx);
        awgMatch = match_planes 16 (ix_AwgID idx) awgID words (ix_Active idx);
        portMatch = match_planes 16 (ix_AwgPort idx) awgPort words (ix_Active idx);
        tenantMatch = match_planes 16 (ix_TenantID idx) tenantID words (ix_Active idx);
        differentTenant = (\<lambda>w. if w < words then ix_Active idx w AND NOT (tenantMatch w) else 0);
        proposedExclMask = (if proposedExclusive then NOT 0 else 0);
        lambdaConflicts = (\<lambda>w. if w < words
          then (channelMatch w AND awgMatch w) AND (ix_Exclusive idx w OR proposedExclMask) else 0);
        portConflicts = (\<lambda>w. if w < words then awgMatch w AND portMatch w else 0);
        tenantConflicts = (\<lambda>w. if w < words then (channelMatch w AND awgMatch w) AND differentTenant w else 0);
        lambdaConflicts = exclude_slot excludeSlot lambdaConflicts;
        portConflicts = exclude_slot excludeSlot portConflicts;
        tenantConflicts = exclude_slot excludeSlot tenantConflicts
      in concat (map (\<lambda>w. collect idx LambdaCollision w (lambdaConflicts w)
           @ collect idx AwgPortCollision w (portConflicts w)
           @ collect idx TenantIsolation w (tenantConflicts w)) [0..<words]))"

section \<open>CheckConflictsBuf\<close>

text \<open>The build without AVX-512.\<close>

definition computeConflictMasks ::
  "lease_index \<Rightarrow> u32 \<Rightarrow> u16 \<Rightarrow> u16 \<Rightarrow> u16 \<Rightarrow> bool \<Rightarrow> int \<Rightarrow> word_array \<times> word_array \<times> word_array" where
  "computeConflictMasks idx channelNum awgID tenantID awgPort proposedExclusive excludeSlot =
     (let words = (ix_Count idx + 63) div 64
      in if words = 0 then (\<lambda>_. 0, \<lambda>_. 0, \<lambda>_. 0)
      else let
        channelMatch = matchScalar 32 (ix_Active idx) (ix_ChannelNum idx) channelNum words;
        awgMatch = matchScalar 16 (ix_Active idx) (ix_AwgID idx) awgID words;
        portMatch = matchScalar 16 (ix_Active idx) (ix_AwgPort idx) awgPort words;
        tenantMatch = matchScalar 16 (ix_Active idx) (ix_TenantID idx) tenantID words;
        proposedExclMask = (if proposedExclusive then NOT 0 else 0);
        differentTenant = (\<lambda>w. if w < words then ix_Active idx w AND NOT (tenantMatch w) else 0);
        lambda = (\<lambda>w. if w < words
          then (channelMatch w AND awgMatch w) AND (ix_Exclusive idx w OR proposedExclMask) else 0);
        port = (\<lambda>w. if w < words then awgMatch w AND portMatch w else 0);
        tenant = (\<lambda>w. if w < words then (channelMatch w AND awgMatch w) AND differentTenant w else 0)
      in (exclude_slot excludeSlot lambda, exclude_slot excludeSlot port, exclude_slot excludeSlot tenant))"

definition extractConflicts ::
  "lease_index \<Rightarrow> word_array \<Rightarrow> word_array \<Rightarrow> word_array \<Rightarrow> conflict list \<Rightarrow> conflict list" where
  "extractConflicts idx lambda port tenant buf =
     (let words = (ix_Count idx + 63) div 64
      in fold (\<lambda>w results. results @ collect idx LambdaCollision w (lambda w)
           @ collect idx AwgPortCollision w (port w) @ collect idx TenantIsolation w (tenant w))
         [0..<words] (take 0 buf))"

definition CheckConflictsBuf ::
  "lease_index \<Rightarrow> u32 \<Rightarrow> u16 \<Rightarrow> u16 \<Rightarrow> u16 \<Rightarrow> bool \<Rightarrow> int \<Rightarrow> conflict list \<Rightarrow> conflict list" where
  "CheckConflictsBuf idx channelNum awgID tenantID awgPort proposedExclusive excludeSlot buf =
     (case computeConflictMasks idx channelNum awgID tenantID awgPort proposedExclusive excludeSlot of
        (lambda, port, tenant) \<Rightarrow> extractConflicts idx lambda port tenant buf)"

definition CheckConflictsAVX512 ::
  "lease_index \<Rightarrow> u32 \<Rightarrow> u16 \<Rightarrow> u16 \<Rightarrow> u16 \<Rightarrow> bool \<Rightarrow> int \<Rightarrow> conflict list \<Rightarrow> conflict list" where
  "CheckConflictsAVX512 = CheckConflictsBuf"

text \<open>\<open>Query\<close> of the pool: what the callback is given and the buffer that goes back. \<open>pooled\<close> is the
  buffer \<open>sync.Pool\<close> hands out, if it has one.\<close>

definition pool_Query ::
  "conflict list option \<Rightarrow> lease_index \<Rightarrow> u32 \<Rightarrow> u16 \<Rightarrow> u16 \<Rightarrow> u16 \<Rightarrow> bool \<Rightarrow> int \<Rightarrow> conflict list \<times> conflict list" where
  "pool_Query pooled idx channelNum awgID tenantID awgPort proposedExclusive excludeSlot =
     (let buf = (case pooled of None \<Rightarrow> [] | Some b \<Rightarrow> b);
          conflicts = CheckConflictsAVX512 idx channelNum awgID tenantID awgPort proposedExclusive excludeSlot buf
      in (conflicts, conflicts))"

section \<open>Lens\<close>

record lens_snapshot =
  ls_LeaseID :: ustring
  ls_Channel :: u32
  ls_AwgID :: u16
  ls_TenantID :: u16
  ls_AwgPort :: u16
  ls_Exclusive :: bool
  ls_Slot :: nat

definition lens_attr :: "nat \<Rightarrow> plane_array \<Rightarrow> nat \<Rightarrow> u64 \<Rightarrow> 'a::len word" where
  "lens_attr n planes w m = fold (\<lambda>p v. if planes p w AND m \<noteq> 0 then v OR push_bit p 1 else v) [0..<n] 0"

definition lens_at :: "lease_index \<Rightarrow> nat \<Rightarrow> nat \<Rightarrow> lens_snapshot" where
  "lens_at idx w trail =
     (let slot = w * 64 + trail; m = push_bit trail 1
      in \<lparr>ls_LeaseID = ix_LeaseIDs idx slot, ls_Channel = lens_attr 32 (ix_ChannelNum idx) w m,
          ls_AwgID = lens_attr 16 (ix_AwgID idx) w m, ls_TenantID = lens_attr 16 (ix_TenantID idx) w m,
          ls_AwgPort = lens_attr 16 (ix_AwgPort idx) w m, ls_Exclusive = (ix_Exclusive idx w AND m \<noteq> 0),
          ls_Slot = slot\<rparr>)"

definition Lens :: "lease_index \<Rightarrow> lens_snapshot list" where
  "Lens idx =
     (let words = (ix_Count idx + 63) div 64
      in concat (map (\<lambda>w. map (lens_at idx w) (scan_bits (ix_Active idx w))) [0..<words]))"

section \<open>Bits of words\<close>

lemma TrailingZeros64_props:
  assumes "b \<noteq> 0"
  shows "TrailingZeros64 b < 64" and "bit b (TrailingZeros64 b)" and "\<And>i. i < TrailingZeros64 b \<Longrightarrow> \<not> bit b i"
proof -
  let ?t = "takeWhile (\<lambda>i. \<not> bit b i) [0..<64]"
  from assms obtain n where n: "bit b n" by (auto simp: bit_eq_iff)
  then have "n < 64" using bit_imp_le_length [OF n] by simp
  have "length ?t \<noteq> 64"
  proof
    assume "length ?t = 64"
    then have "?t = [0..<64]" using takeWhile_eq_take [of "\<lambda>i. \<not> bit b i" "[0..<64]"] by (metis length_upt minus_nat.diff_0 take_all_iff order_refl)
    then show False using n \<open>n < 64\<close> by (metis atLeastLessThan_iff le0 set_takeWhileD set_upt)
  qed
  moreover have "length ?t \<le> 64" using length_takeWhile_le [of "\<lambda>i. \<not> bit b i" "[0..<64]"] by simp
  ultimately show l: "TrailingZeros64 b < 64" by (simp add: TrailingZeros64_def)
  then show "bit b (TrailingZeros64 b)"
    using nth_length_takeWhile [of "\<lambda>i. \<not> bit b i" "[0..<64]"] by (simp add: TrailingZeros64_def)
  show "\<not> bit b i" if "i < TrailingZeros64 b" for i
  proof -
    have "i < length ?t" using that by (simp add: TrailingZeros64_def)
    then have "?t ! i \<in> set ?t" by (rule nth_mem)
    moreover have "?t ! i = i" using \<open>i < length ?t\<close> l that by (simp add: takeWhile_nth)
    ultimately have "i \<in> set ?t" by simp
    from set_takeWhileD [OF this] show ?thesis by simp
  qed
qed

text \<open>Clearing the lowest set bit.\<close>

lemma div_block: "x < (m :: nat) \<Longrightarrow> (k * m + x) div (m * r) = k * m div (m * r)"
  by (simp add: div_mult2_eq)

lemma bit_clear_lowest:
  assumes "b \<noteq> 0"
  shows "bit (b AND (b - 1)) n \<longleftrightarrow> bit b n \<and> n \<noteq> TrailingZeros64 b"
proof -
  define t where "t = TrailingZeros64 b"
  note t = TrailingZeros64_props [OF assms, folded t_def]
  have "take_bit t (unat b) = 0"
    using t(3) by (intro bit_eqI) (auto simp: bit_take_bit_iff bit_unsigned_iff)
  moreover have "odd (unat b div 2 ^ t)" using t(2) by (simp add: bit_unsigned_iff flip: bit_iff_odd)
  ultimately obtain k where k: "unat b = (2 * k + 1) * 2 ^ t"
    by (metis add.right_neutral div_mult_mod_eq oddE take_bit_eq_mod)
  have u: "unat (b - 1) = unat b - 1" using assms by (rule unat_minus_one)
  have m: "unat (b - 1) = k * 2 ^ Suc t + (2 ^ t - 1)" unfolding u k by simp
  have b: "unat b = k * 2 ^ Suc t + 2 ^ t" unfolding k by simp
  have "bit (b - 1) n \<longleftrightarrow> bit b n" if "t < n"
  proof -
    have "(k * 2 ^ Suc t + x) div 2 ^ n = k * 2 ^ Suc t div 2 ^ n" if "x < 2 ^ Suc t" for x
    proof -
      have "2 ^ n = (2 :: nat) ^ Suc t * 2 ^ (n - Suc t)" using \<open>t < n\<close> by (simp flip: power_add del: power_Suc)
      then show ?thesis using that div_block [of x "2 ^ Suc t" k] by simp
    qed
    moreover have "(2 :: nat) ^ t - 1 < 2 ^ Suc t" "(2 :: nat) ^ t < 2 ^ Suc t"
      by (simp_all add: less_imp_diff_less)
    ultimately have "unat (b - 1) div 2 ^ n = unat b div 2 ^ n"
      unfolding m b by metis
    then have "bit (unat (b - 1)) n = bit (unat b) n" by (simp add: bit_iff_odd)
    then show ?thesis by (simp add: bit_unsigned_iff)
  qed
  moreover have "\<not> bit (b - 1) t"
  proof -
    have "(q * r + x) div r = q" if "x < r" for q r x :: nat using that by simp
    from this [of "2 ^ t - 1" "2 ^ t" "2 * k"] have "unat (b - 1) div 2 ^ t = 2 * k"
      unfolding m by (simp only: power_Suc mult.assoc mult.left_commute [of _ k] mult.commute [of k]) simp
    then have "\<not> bit (unat (b - 1)) t" by (simp add: bit_iff_odd)
    then show ?thesis by (simp add: bit_unsigned_iff)
  qed
  ultimately show ?thesis
    using t(2,3) unfolding t_def [symmetric] by (cases "n < t"; cases "n = t") (auto simp: bit_and_iff)
qed

lemma scan_bits_filter: "scan_bits b = filter (bit b) [0..<64]"
proof (induction b rule: scan_bits.induct)
  case (1 b)
  show ?case
  proof (cases "b = 0")
    case False
    let ?t = "TrailingZeros64 b"
    note t = TrailingZeros64_props [OF False]
    have s: "[0..<64] = [0..<?t] @ ?t # [Suc ?t..<64]" using t(1) by (metis less_imp_le_nat upt_add_eq_append upt_conv_Cons le_add_diff_inverse zero_le add_0)
    have "filter (bit b) [0..<?t] = []" "filter (bit (b AND (b - 1))) [0..<?t] = []"
      using t(3) by (auto simp: filter_empty_conv bit_clear_lowest [OF False])
    moreover have "filter (bit (b AND (b - 1))) [Suc ?t..<64] = filter (bit b) [Suc ?t..<64]"
      by (rule filter_cong) (auto simp: bit_clear_lowest [OF False])
    moreover have "\<not> bit (b AND (b - 1)) ?t" by (simp add: bit_clear_lowest [OF False])
    ultimately have "filter (bit b) [0..<64] = ?t # filter (bit (b AND (b - 1))) [0..<64]"
      using t(2) unfolding s by simp
    then show ?thesis using 1 [OF False] False by (subst scan_bits.simps) simp
  qed (simp add: scan_bits.simps)
qed

section \<open>Bits of planes\<close>

lemma bit_test: "drop_bit p (v :: 'a::len word) AND 1 = 1 \<longleftrightarrow> bit v p"
  by (simp add: and_one_eq bit_iff_odd_drop_bit odd_iff_mod_2_eq_one)

lemma mask_test: "(x :: u64) AND push_bit t 1 \<noteq> 0 \<longleftrightarrow> bit x t"
  by (simp add: push_bit_eq_mult and_exp_eq_0_iff_not_bit)

lemma plane_insert_eq:
  "plane_insert n v w b planes =
     (\<lambda>p. if p < n \<and> bit v p then (planes p)(w := planes p w OR push_bit b 1) else planes p)"
proof (induction n)
  case (Suc n)
  have "plane_insert (Suc n) v w b planes = (let q = plane_insert n v w b planes in
      if bit v n then q(n := (q n)(w := q n w OR push_bit b 1)) else q)"
    by (simp add: plane_insert_def bit_test Let_def)
  then show ?case by (auto simp: Suc Let_def fun_eq_iff less_Suc_eq)
qed (simp add: plane_insert_def)

lemma plane_remove_eq:
  "plane_remove n w m planes = (\<lambda>p. if p < n then (planes p)(w := planes p w AND m) else planes p)"
proof (induction n)
  case (Suc n)
  have "plane_remove (Suc n) w m planes = (let q = plane_remove n w m planes in q(n := (q n)(w := q n w AND m)))"
    by (simp add: plane_remove_def Let_def)
  then show ?case by (auto simp: Suc Let_def fun_eq_iff less_Suc_eq)
qed (simp add: plane_remove_def)

lemma bit_lens_attr:
  assumes "t < 64"
  shows "bit (lens_attr n planes w (push_bit t 1) :: 'a::len word) q \<longleftrightarrow> q < n \<and> q < LENGTH('a) \<and> bit (planes q w) t"
proof (induction n)
  case (Suc n)
  have "(lens_attr (Suc n) planes w (push_bit t 1) :: 'a word) = (let v = lens_attr n planes w (push_bit t 1) in
      if bit (planes n w) t then v OR push_bit n 1 else v)"
    by (simp add: lens_attr_def and_exp_eq_0_iff_not_bit Let_def)
  then show ?case using Suc by (auto simp: Let_def bit_simps less_Suc_eq)
qed (simp add: lens_attr_def)

lemma bit_match_planes:
  assumes "w < words"
  shows "bit (match_planes n planes target words act w) t
    \<longleftrightarrow> bit (act w) t \<and> (\<forall>p < n. t < 64 \<longrightarrow> bit (planes p w) t = bit target p)"
proof (induction n)
  case (Suc n)
  have "match_planes (Suc n) planes target words act w = (let m = match_planes n planes target words act w in
      if bit target n then m AND planes n w else m AND NOT (planes n w))"
    using assms by (simp add: match_planes_def bit_test Let_def)
  then show ?case using Suc by (auto simp: Let_def bit_simps less_Suc_eq dest: bit_imp_le_length)
qed (simp add: match_planes_def)

lemma matchScalar_eq: "matchScalar n act planes target words = match_planes n planes target words act"
  unfolding matchScalar_def match_planes_def by (rule arg_cong2 [where f = "\<lambda>f. fold f [0..<n]"]) (auto simp: fun_eq_iff)

text \<open>A slot matches when it is active and its attribute is the target.\<close>

lemma match_attr:
  assumes "w < words" and "t < 64"
  shows "bit (match_planes LENGTH('a) planes (target :: 'a::len word) words act w) t
    \<longleftrightarrow> bit (act w) t \<and> lens_attr LENGTH('a) planes w (push_bit t 1) = target"
proof -
  have "lens_attr LENGTH('a) planes w (push_bit t 1) = target \<longleftrightarrow> (\<forall>p < LENGTH('a). bit (planes p w) t = bit target p)"
    unfolding bit_eq_iff using assms(2) by (auto simp: bit_lens_attr simp del: push_bit_of_1 dest: bit_imp_le_length)
  then show ?thesis using assms by (simp add: bit_match_planes)
qed

section \<open>The index as a list of entries\<close>

definition slot_active :: "lease_index \<Rightarrow> nat \<Rightarrow> bool" where
  "slot_active idx i \<longleftrightarrow> bit (ix_Active idx (i div 64)) (i mod 64)"

definition index_entry :: "lease_index \<Rightarrow> nat \<Rightarrow> lens_snapshot option" where
  "index_entry idx i = (if slot_active idx i then Some (lens_at idx (i div 64) (i mod 64)) else None)"

definition index_abs :: "lease_index \<Rightarrow> lens_snapshot option list" where
  "index_abs idx = map (index_entry idx) [0..<ix_Count idx]"

text \<open>The invariant: slots that are not active, in particular those not used yet, have no bit set in
  any plane.\<close>

definition index_wf :: "lease_index \<Rightarrow> bool" where
  "index_wf idx \<longleftrightarrow> ix_Count idx \<le> MaxLeases
     \<and> (\<forall>w t. t < 64 \<longrightarrow> bit (ix_Active idx w) t \<longrightarrow> w * 64 + t < ix_Count idx)
     \<and> (\<forall>w t. t < 64 \<longrightarrow> \<not> bit (ix_Active idx w) t \<longrightarrow> \<not> bit (ix_Exclusive idx w) t
          \<and> (\<forall>p < 32. \<not> bit (ix_ChannelNum idx p w) t) \<and> (\<forall>p < 16. \<not> bit (ix_AwgID idx p w) t)
          \<and> (\<forall>p < 16. \<not> bit (ix_TenantID idx p w) t) \<and> (\<forall>p < 16. \<not> bit (ix_AwgPort idx p w) t))"

lemma index_wf_new: "index_wf NewLeaseIndex"
  by (simp add: index_wf_def NewLeaseIndex_def)

text \<open>Setting and clearing the bit of a slot.\<close>

lemma slot_word: "t < 64 \<Longrightarrow> w = (i :: nat) div 64 \<and> t = i mod 64 \<longleftrightarrow> w * 64 + t = i"
  by auto

lemma bit_set_slot:
  assumes "t < 64"
  shows "bit ((f(i div 64 := f (i div 64) OR push_bit (i mod 64) (1 :: u64))) w) t \<longleftrightarrow> bit (f w) t \<or> w * 64 + t = i"
  using assms by (auto simp: bit_simps slot_word [OF assms, symmetric])

lemma bit_clear_slot:
  assumes "t < 64"
  shows "bit ((f(i div 64 := f (i div 64) AND NOT (push_bit (i mod 64) (1 :: u64)))) w) t \<longleftrightarrow> bit (f w) t \<and> w * 64 + t \<noteq> i"
  using assms by (auto simp: bit_simps slot_word [OF assms, symmetric])

lemma bit_plane_insert:
  assumes "t < 64" and "p < n"
  shows "bit (plane_insert n v (i div 64) (i mod 64) planes p w) t \<longleftrightarrow> bit (planes p w) t \<or> bit v p \<and> w * 64 + t = i"
  using bit_set_slot [OF assms(1), of "planes p" i w] assms(2) by (simp add: plane_insert_eq)

lemma bit_plane_remove:
  assumes "t < 64" and "p < n"
  shows "bit (plane_remove n (i div 64) (NOT (push_bit (i mod 64) 1)) planes p w) t \<longleftrightarrow> bit (planes p w) t \<and> w * 64 + t \<noteq> i"
  using bit_clear_slot [OF assms(1), of "planes p" i w] assms(2) by (simp add: plane_remove_eq)

lemmas slot_bits = bit_set_slot bit_clear_slot bit_plane_insert bit_plane_remove

lemma index_insert_wf:
  assumes wf: "index_wf idx" and ins: "Insert idx l ch awg ten port ex = Inr (slot, idx')"
  shows "index_wf idx'" and "slot = ix_Count idx" and "slot < MaxLeases"
proof -
  from ins have c: "ix_Count idx < MaxLeases" and s: "slot = ix_Count idx"
    by (auto simp: Insert_def Let_def split: if_splits)
  then show "slot = ix_Count idx" "slot < MaxLeases" by simp_all
  from ins c have i: "idx' = snd (projr (Insert idx l ch awg ten port ex))" by simp
  show "index_wf idx'"
    using wf c unfolding i index_wf_def
    by (auto simp: Insert_def Let_def slot_bits simp del: push_bit_of_1 fun_upd_apply split: if_splits dest: less_SucI)
qed

text \<open>An entry depends on the bits of its own slot only.\<close>

lemma lens_attr_eqI:
  assumes "t < 64" and "\<And>p. p < n \<Longrightarrow> p < LENGTH('a) \<Longrightarrow> bit (planes p w) t = bit (planes' p w') t"
  shows "(lens_attr n planes w (push_bit t 1) :: 'a::len word) = lens_attr n planes' w' (push_bit t 1)"
  using assms by (intro bit_word_eqI) (auto simp: bit_lens_attr simp del: push_bit_of_1)

lemma lens_attr_value:
  assumes "t < 64" and "n = LENGTH('a)" and "\<And>p. p < n \<Longrightarrow> bit (planes p w) t = bit v p"
  shows "lens_attr n planes w (push_bit t 1) = (v :: 'a::len word)"
  using assms by (intro bit_word_eqI) (auto simp: bit_lens_attr simp del: push_bit_of_1)

lemma index_insert_abs:
  assumes wf: "index_wf idx" and ins: "Insert idx l ch awg ten port ex = Inr (slot, idx')"
  shows "index_abs idx' = index_abs idx @ [Some \<lparr>ls_LeaseID = l, ls_Channel = ch, ls_AwgID = awg, ls_TenantID = ten,
          ls_AwgPort = port, ls_Exclusive = ex, ls_Slot = slot\<rparr>]"
proof -
  note w = index_insert_wf [OF assms]
  from ins w(2,3) have i: "idx' = snd (projr (Insert idx l ch awg ten port ex))" by simp
  have n: "\<not> bit (ix_Active idx (slot div 64)) (slot mod 64)"
    using wf w(2) unfolding index_wf_def by (metis div_mult_mod_eq less_irrefl mod_less_divisor zero_less_numeral)
  with wf have z: "\<not> bit (ix_Exclusive idx (slot div 64)) (slot mod 64)"
    "p < 32 \<Longrightarrow> \<not> bit (ix_ChannelNum idx p (slot div 64)) (slot mod 64)"
    "p < 16 \<Longrightarrow> \<not> bit (ix_AwgID idx p (slot div 64)) (slot mod 64)"
    "p < 16 \<Longrightarrow> \<not> bit (ix_TenantID idx p (slot div 64)) (slot mod 64)"
    "p < 16 \<Longrightarrow> \<not> bit (ix_AwgPort idx p (slot div 64)) (slot mod 64)" for p
    by (simp_all add: index_wf_def)
  have same: "index_entry idx' j = index_entry idx j" if "j < ix_Count idx" for j
    using that w unfolding index_entry_def slot_active_def i lens_at_def mask_test
    by (auto simp: Insert_def Let_def slot_bits mask_test simp del: push_bit_of_1 fun_upd_apply intro!: lens_attr_eqI)
      (simp_all add: fun_upd_apply)
  have new: "index_entry idx' slot = Some \<lparr>ls_LeaseID = l, ls_Channel = ch, ls_AwgID = awg, ls_TenantID = ten,
          ls_AwgPort = port, ls_Exclusive = ex, ls_Slot = slot\<rparr>"
    using w z unfolding index_entry_def slot_active_def i lens_at_def mask_test
    by (auto simp: Insert_def Let_def slot_bits mask_test simp del: push_bit_of_1 fun_upd_apply intro!: lens_attr_value)
      (simp_all add: fun_upd_apply)
  have "ix_Count idx' = Suc (ix_Count idx)" using w unfolding i by (simp add: Insert_def Let_def)
  with new w(2) show ?thesis by (simp add: index_abs_def same)
qed

lemma index_remove_wf: "index_wf idx \<Longrightarrow> index_wf (Remove idx slot)"
  unfolding index_wf_def Remove_def Let_def
  by (auto simp: slot_bits simp del: push_bit_of_1 fun_upd_apply)

lemma index_remove_abs:
  assumes wf: "index_wf idx"
  shows "index_abs (Remove idx slot) = (if slot < 0 then index_abs idx else (index_abs idx)[nat slot := None])"
proof (cases "slot < 0 \<or> slot \<ge> int MaxLeases")
  case True
  have "length (index_abs idx) \<le> MaxLeases" using wf by (simp add: index_abs_def index_wf_def)
  with True show ?thesis by (auto simp: Remove_def list_update_beyond)
next
  case False
  have "index_entry (Remove idx slot) j = (if j = nat slot then None else index_entry idx j)" for j
    using False unfolding index_entry_def slot_active_def lens_at_def mask_test
    by (auto simp: Remove_def Let_def slot_bits mask_test simp del: push_bit_of_1 fun_upd_apply intro!: lens_attr_eqI)
      (simp_all add: fun_upd_apply)
  then show ?thesis using False by (auto simp: index_abs_def Remove_def Let_def intro!: nth_equalityI simp: nth_list_update)
qed

section \<open>Reference\<close>

text \<open>The plain list the planes stand for, its operations, and the conflicts found by looking at one
  entry after the other: three passes over each block of 64 entries.\<close>

datatype index_op = OpInsert ustring u32 u16 u16 u16 bool | OpRemove int

fun index_step :: "index_op \<Rightarrow> lease_index \<Rightarrow> lease_index" where
  "index_step (OpInsert l ch awg ten port ex) idx =
     (case Insert idx l ch awg ten port ex of Inl _ \<Rightarrow> idx | Inr (_, idx') \<Rightarrow> idx')"
| "index_step (OpRemove slot) idx = Remove idx slot"

fun ref_step :: "index_op \<Rightarrow> lens_snapshot option list \<Rightarrow> lens_snapshot option list" where
  "ref_step (OpInsert l ch awg ten port ex) es =
     (if length es \<ge> MaxLeases then es
      else es @ [Some \<lparr>ls_LeaseID = l, ls_Channel = ch, ls_AwgID = awg, ls_TenantID = ten, ls_AwgPort = port,
                  ls_Exclusive = ex, ls_Slot = length es\<rparr>])"
| "ref_step (OpRemove slot) es = (if slot < 0 then es else es[nat slot := None])"

definition ref_blocks :: "'a list \<Rightarrow> 'a list list" where
  "ref_blocks es = map (\<lambda>w. take 64 (drop (w * 64) es)) [0..<(length es + 63) div 64]"

definition ref_report :: "conflict_type \<Rightarrow> int \<Rightarrow> (lens_snapshot \<Rightarrow> bool) \<Rightarrow> lens_snapshot option list \<Rightarrow> conflict list" where
  "ref_report ty ex P es = concat (map (case_option [] (\<lambda>e.
     if P e \<and> int (ls_Slot e) \<noteq> ex then [Conflict ty (ls_LeaseID e) (ls_Slot e)] else [])) es)"

definition ref_conflicts ::
  "lens_snapshot option list \<Rightarrow> u32 \<Rightarrow> u16 \<Rightarrow> u16 \<Rightarrow> u16 \<Rightarrow> bool \<Rightarrow> int \<Rightarrow> conflict list" where
  "ref_conflicts es ch awg ten port pex ex = concat (map (\<lambda>b.
       ref_report LambdaCollision ex (\<lambda>e. ls_Channel e = ch \<and> ls_AwgID e = awg \<and> (ls_Exclusive e \<or> pex)) b
     @ ref_report AwgPortCollision ex (\<lambda>e. ls_AwgID e = awg \<and> ls_AwgPort e = port) b
     @ ref_report TenantIsolation ex (\<lambda>e. ls_Channel e = ch \<and> ls_AwgID e = awg \<and> ls_TenantID e \<noteq> ten) b)
     (ref_blocks es))"

lemma index_steps:
  "index_wf (fold index_step ops NewLeaseIndex) \<and> index_abs (fold index_step ops NewLeaseIndex) = fold ref_step ops []"
proof (induction ops rule: rev_induct)
  case Nil
  show ?case by (simp add: index_wf_new) (simp add: index_abs_def NewLeaseIndex_def)
next
  case (snoc op ops)
  define idx where "idx = fold index_step ops NewLeaseIndex"
  have wf: "index_wf idx" and a: "fold ref_step ops [] = index_abs idx" using snoc by (simp_all add: idx_def)
  have c: "length (index_abs idx) = ix_Count idx" by (simp add: index_abs_def)
  have "index_wf (index_step op idx) \<and> index_abs (index_step op idx) = ref_step op (index_abs idx)"
  proof (cases op)
    case (OpInsert l ch awg ten port ex)
    show ?thesis
    proof (cases "Insert idx l ch awg ten port ex")
      case (Inl e)
      then have "ix_Count idx \<ge> MaxLeases" by (auto simp: Insert_def Let_def split: if_splits)
      with Inl OpInsert wf c show ?thesis by simp
    next
      case (Inr r)
      then obtain slot idx' where i: "Insert idx l ch awg ten port ex = Inr (slot, idx')" by (cases r) auto
      note index_insert_wf [OF wf i] index_insert_abs [OF wf i]
      with i OpInsert c show ?thesis by simp
    qed
  qed (simp add: index_remove_wf [OF wf] index_remove_abs [OF wf])
  then show ?case using a by (simp flip: idx_def)
qed

lemma take_upt_min: "take m [i..<n] = [i..<min n (i + m)]"
  by (rule nth_equalityI) (auto simp: min_def)

text \<open>One word of a mask against one block of the list.\<close>

lemma word_block:
  assumes "index_wf idx" and "w < (ix_Count idx + 63) div 64"
  shows "concat (map (case_option [] g) (take 64 (drop (w * 64) (index_abs idx))))
    = concat (map (\<lambda>t. if bit (ix_Active idx w) t then g (lens_at idx w t) else []) [0..<64])"
proof -
  let ?n = "ix_Count idx" and ?f = "\<lambda>i. case_option [] g (index_entry idx i)"
  have "\<not> slot_active idx i" if "?n \<le> i" for i
  proof
    assume "slot_active idx i"
    with assms(1) have "i div 64 * 64 + i mod 64 < ?n"
      unfolding index_wf_def slot_active_def by (meson mod_less_divisor zero_less_numeral)
    with that show False by simp
  qed
  then have out: "?f i = []" if "?n \<le> i" for i using that by (simp add: index_entry_def)
  have b: "take 64 (drop (w * 64) (index_abs idx)) = map (index_entry idx) [w * 64..<min ?n (w * 64 + 64)]"
    by (simp add: index_abs_def take_map drop_map drop_upt take_upt_min)
  have "concat (map ?f [w * 64..<min ?n (w * 64 + 64)]) = concat (map ?f [w * 64..<w * 64 + 64])"
  proof (cases "?n \<le> w * 64 + 64")
    case True
    have "w * 64 \<le> ?n" using assms(2) by linarith
    then have "[w * 64..<w * 64 + 64] = [w * 64..<?n] @ [?n..<w * 64 + 64]"
      using True by (metis le_add_diff_inverse upt_add_eq_append)
    moreover have "concat (map ?f [?n..<w * 64 + 64]) = []" using out by simp
    ultimately show ?thesis using True by (simp add: min_def)
  qed (simp add: min_def)
  also have "[w * 64..<w * 64 + 64] = map ((+) (w * 64)) [0..<64]"
    by (rule nth_equalityI) (simp_all del: upt_conv_Cons_Cons)
  also have "map ?f (map ((+) (w * 64)) [0..<64])
      = map (\<lambda>t. if bit (ix_Active idx w) t then g (lens_at idx w t) else []) [0..<64]"
    unfolding map_map by (rule map_cong [OF refl]) (auto simp: index_entry_def slot_active_def)
  finally show ?thesis unfolding b map_map comp_def .
qed

lemma map_filter_concat: "map h (filter Q xs) = concat (map (\<lambda>x. if Q x then [h x] else []) xs)"
  by (induction xs) auto

lemma collect_report:
  assumes "index_wf idx" and "w < (ix_Count idx + 63) div 64"
    and "\<And>t. t < 64 \<Longrightarrow> bit b t \<longleftrightarrow> bit (ix_Active idx w) t \<and> P (lens_at idx w t) \<and> int (w * 64 + t) \<noteq> ex"
  shows "collect idx ty w b = ref_report ty ex P (take 64 (drop (w * 64) (index_abs idx)))"
  unfolding ref_report_def word_block [OF assms(1,2)] collect_def scan_bits_filter map_filter_concat Let_def
  by (rule arg_cong [where f = concat], rule map_cong [OF refl]) (auto simp: assms(3) lens_at_def Let_def)

lemma bit_exclude_slot:
  assumes "t < 64" and "w * 64 + t < MaxLeases"
  shows "bit (exclude_slot ex a w) t \<longleftrightarrow> bit (a w) t \<and> int (w * 64 + t) \<noteq> ex"
proof (cases "0 \<le> ex \<and> ex < int MaxLeases")
  case True
  then show ?thesis using bit_clear_slot [OF assms(1), of a "nat ex" w] by (auto simp: exclude_slot_def Let_def)
next
  case False
  with assms(2) show ?thesis by (auto simp: exclude_slot_def)
qed

lemma check_conflicts_ref:
  assumes wf: "index_wf idx"
  shows "CheckConflicts idx ch awg ten port pex ex = ref_conflicts (index_abs idx) ch awg ten port pex ex"
proof -
  have c: "length (index_abs idx) = ix_Count idx" "ix_Count idx \<le> 1024"
    using wf by (simp_all add: index_abs_def index_wf_def MaxLeases_def)
  have lt: "w * 64 + t < MaxLeases" if "w < (ix_Count idx + 63) div 64" "t < 64" for w t
    using that div_le_mono [of "ix_Count idx + 63" 1087 64] c(2) by (simp add: MaxLeases_def)
  have e: "(if words = 0 then [] else concat (map F [0..<words])) = concat (map F [0..<words])"
    for words :: nat and F :: "nat \<Rightarrow> conflict list" by simp
  have x: "bit (if b then NOT 0 else (0 :: u64)) t \<longleftrightarrow> b" if "t < 64" for b t using that by (simp add: bit_simps)
  have l: "LENGTH(32) = 32" "LENGTH(16) = 16" by simp_all
  note m = match_attr [where 'a = 32, unfolded l] match_attr [where 'a = 16, unfolded l]
  show ?thesis
    unfolding CheckConflicts_def ref_conflicts_def ref_blocks_def Let_def c(1) map_map comp_def e
  proof (rule arg_cong [where f = concat], rule map_cong [OF refl], goal_cases)
    case (1 w)
    then have w: "w < (ix_Count idx + 63) div 64" by simp
    have be: "bit (exclude_slot ex a w) t \<longleftrightarrow> bit (a w) t \<and> int (w * 64 + t) \<noteq> ex" if "t < 64" for a t
      using bit_exclude_slot [OF that lt [OF w that]] .
    note s = w be bit_and_iff bit_or_iff bit_not_iff m x lens_at_def mask_test Let_def
    show ?case
      by (intro arg_cong2 [where f = "(@)"] collect_report [OF wf w])
        (simp_all add: s conj_ac del: push_bit_of_1 of_nat_add of_nat_mult, blast+)
  qed
qed

lemma check_conflicts_buf:
  "CheckConflictsBuf idx ch awg ten port pex ex buf = CheckConflicts idx ch awg ten port pex ex"
proof -
  have f: "fold (\<lambda>w r. r @ f w @ g w @ h w) ws r = r @ concat (map (\<lambda>w. f w @ g w @ h w) ws)"
    for f g h :: "nat \<Rightarrow> conflict list" and ws r
    by (induction ws arbitrary: r) simp_all
  show ?thesis
    unfolding CheckConflictsBuf_def extractConflicts_def computeConflictMasks_def CheckConflicts_def matchScalar_eq Let_def
    by (simp add: f)
qed

lemma concat_map_concat: "concat (map (\<lambda>b. concat (map g b)) bs) = concat (map g (concat bs))"
  by (induction bs) simp_all

lemma concat_ref_blocks: "concat (ref_blocks es) = es"
proof -
  have "concat (map (\<lambda>w. take 64 (drop (w * 64) es)) [0..<n]) = take (n * 64) es" for n
    by (induction n) (simp_all add: take_add add.commute flip: take_add)
  moreover have "length es \<le> (length es + 63) div 64 * 64" by linarith
  ultimately show ?thesis by (simp add: ref_blocks_def)
qed

lemma lens_ref:
  assumes "index_wf idx"
  shows "Lens idx = concat (map (case_option [] (\<lambda>e. [e])) (index_abs idx))"
proof -
  let ?g = "case_option [] (\<lambda>e. [e])"
  have l: "length (index_abs idx) = ix_Count idx" by (simp add: index_abs_def)
  have "Lens idx = concat (map (\<lambda>b. concat (map ?g b)) (ref_blocks (index_abs idx)))"
    unfolding Lens_def ref_blocks_def Let_def scan_bits_filter map_filter_concat map_map comp_def l
    by (rule arg_cong [where f = concat], rule map_cong [OF refl]) (simp add: word_block [OF assms])
  also have "\<dots> = concat (map ?g (concat (ref_blocks (index_abs idx))))"
    by (rule concat_map_concat)
  also have "concat (ref_blocks (index_abs idx)) = index_abs idx" by (rule concat_ref_blocks)
  finally show ?thesis .
qed

text \<open>(C10) The bit-plane index implements the list of its leases: after any sequence of insertions and
  removals, the plain and the pooled conflict query (whatever an old buffer holds) return exactly what
  a linear scan of the list returns, in the same order, and \<open>Lens\<close> lists exactly the live leases with the attributes they
  were inserted with. Nothing else is needed: there are no hypotheses on the operations.\<close>

theorem bitweave_refinement:
  "CheckConflicts (fold index_step ops NewLeaseIndex) ch awg ten port pex ex = ref_conflicts (fold ref_step ops []) ch awg ten port pex ex
   \<and> fst (pool_Query pooled (fold index_step ops NewLeaseIndex) ch awg ten port pex ex)
       = ref_conflicts (fold ref_step ops []) ch awg ten port pex ex
   \<and> Lens (fold index_step ops NewLeaseIndex) = concat (map (case_option [] (\<lambda>e. [e])) (fold ref_step ops []))"
  using index_steps [of ops] 
  by (auto simp: pool_Query_def CheckConflictsAVX512_def Let_def check_conflicts_buf check_conflicts_ref lens_ref)

end
