(* ===== verification/GoTime.thy ===== *)
theory GoTime
  imports Strings
begin

text \<open>
  \<open>Format(time.RFC3339Nano)\<close> of a UTC instant, which the registry hashes, signs and uses as a key:
  proleptic Gregorian date, time of day, and the nanoseconds without trailing zeros. The format
  determines the instant from the year 0 on, but its byte order is not the order of time.
\<close>

type_synonym gotime = int
type_synonym duration = int

definition pad_zeros :: "nat \<Rightarrow> ustring \<Rightarrow> ustring" where
  "pad_zeros n s = replicate (n - length s) 48 @ s"

definition pad_nat :: "nat \<Rightarrow> int \<Rightarrow> ustring" where
  "pad_nat k i = (if i < 0 then 45 # pad_zeros k (show_nat (nat (- i))) else pad_zeros k (show_nat (nat i)))"

text \<open>Year, month and day of a day counted from 1970-01-01, with years that begin in March: cycles of
  400, 100, 4 years and single years, the last of each cycle longer.\<close>

definition civil :: "int \<Rightarrow> int \<times> int \<times> int" where
  "civil day =
     (let z = day + 719468; era = z div 146097; d0 = z mod 146097;
          c = min 3 (d0 div 36524); d1 = d0 - 36524 * c;
          q = d1 div 1461; d2 = d1 - 1461 * q;
          a = min 3 (d2 div 365); doy = d2 - 365 * a;
          mp = (5 * doy + 2) div 153;
          d = doy - (153 * mp + 2) div 5 + 1;
          m = (if mp < 10 then mp + 3 else mp - 9)
      in (400 * era + 100 * c + 4 * q + a + (if m \<le> 2 then 1 else 0), m, d))"

definition strip_zeros :: "ustring \<Rightarrow> ustring" where
  "strip_zeros s = rev (dropWhile (\<lambda>c. c = 48) (rev s))"

definition fmt_fraction :: "int \<Rightarrow> ustring" where
  "fmt_fraction ns = (let f = strip_zeros (pad_nat 9 ns) in if f = [] then [] else 46 # f)"

definition fmt_date :: "int \<Rightarrow> ustring" where
  "fmt_date day = (case civil day of (y, m, d) \<Rightarrow> pad_nat 4 y @ 45 # pad_nat 2 m @ 45 # pad_nat 2 d)"

definition RFC3339Nano :: "gotime \<Rightarrow> ustring" where
  "RFC3339Nano t =
     (let secs = t div 1000000000; ns = t mod 1000000000; day = secs div 86400; tod = secs mod 86400
      in fmt_date day @ 84 # pad_nat 2 (tod div 3600) @ 58 # pad_nat 2 (tod div 60 mod 60) @ 58 # pad_nat 2 (tod mod 60)
         @ fmt_fraction ns @ [90])"

section \<open>The format determines the instant\<close>

definition digits_value :: "ustring \<Rightarrow> nat" where
  "digits_value s = foldl (\<lambda>v c. v * 10 + (unat c - 48)) 0 s"

lemma digits_value_show: "digits_value (show_nat n) = n"
proof (induction n rule: show_nat.induct)
  case (1 n)
  have d: "unat (of_nat (48 + d) :: u32) - 48 = d" if "d < 10" for d using unat_digit [OF that] by simp
  show ?case
  proof (cases "n < 10")
    case True
    then show ?thesis by (subst show_nat.simps) (simp add: digits_value_def d del: of_nat_add)
  next
    case False
    then have "digits_value (show_nat n) = digits_value (show_nat (n div 10)) * 10 + n mod 10"
      by (subst show_nat.simps) (simp add: digits_value_def d del: of_nat_add)
    with 1 [OF False] show ?thesis by simp
  qed
qed

lemma digits_value_pad: "digits_value (pad_zeros k s) = digits_value s"
proof -
  have "foldl (\<lambda>v c. v * 10 + (unat c - 48)) 0 (replicate n 48 :: ustring) = 0" for n
    by (induction n) simp_all
  then show ?thesis by (simp add: digits_value_def pad_zeros_def)
qed

lemma pad_zeros_inj: "pad_zeros k (show_nat m) = pad_zeros k (show_nat n) \<longleftrightarrow> m = n"
  by (metis digits_value_pad digits_value_show)

lemma pad_zeros_digits: "list_all is_digit (pad_zeros k (show_nat n))"
  using show_nat_digits [of n] by (auto simp: pad_zeros_def list_all_iff is_digit_def)

lemma pad_nat_inj: "0 \<le> i \<Longrightarrow> 0 \<le> j \<Longrightarrow> pad_nat k i = pad_nat k j \<longleftrightarrow> i = j"
  by (auto simp: pad_nat_def pad_zeros_inj)

lemma pad_nat_digits: "0 \<le> i \<Longrightarrow> list_all is_digit (pad_nat k i)"
  by (simp add: pad_nat_def pad_zeros_digits)

text \<open>Two texts that begin with digits and go on with something else.\<close>

lemma digits_split:
  assumes "list_all is_digit x" and "list_all is_digit y" and "u \<noteq> [] \<and> \<not> is_digit (hd u)" and "v \<noteq> [] \<and> \<not> is_digit (hd v)"
    and "x @ u = y @ v"
  shows "x = y" and "u = v"
proof -
  have t: "takeWhile is_digit (z @ w) = z" if "list_all is_digit z" "w \<noteq> [] \<and> \<not> is_digit (hd w)" for z w
    using that by (cases w) (auto simp: list_all_iff takeWhile_tail)
  show "x = y" using assms t by metis
  with assms(5) show "u = v" by simp
qed

lemma digits_sep:
  assumes "list_all is_digit x" and "list_all is_digit y" and "\<not> is_digit c" and "x @ c # u = y @ c # v"
  shows "x = y" and "u = v"
  using digits_split [OF assms(1,2) _ _ assms(4)] assms(3) by simp_all

text \<open>The day of a date.\<close>

definition days_of :: "int \<times> int \<times> int \<Rightarrow> int" where
  "days_of ymd = (case ymd of (y, m, d) \<Rightarrow>
     let y' = (if m \<le> 2 then y - 1 else y); mp = (if m > 2 then m - 3 else m + 9);
         doy = (153 * mp + 2) div 5 + d - 1; yoe = y' mod 400
     in y' div 400 * 146097 + (yoe * 365 + yoe div 4 - yoe div 100 + doy) - 719468)"

lemma civil_parts:
  obtains era c q a doy mp where "0 \<le> c" "c \<le> 3" "0 \<le> q" "q \<le> 24" "0 \<le> a" "a \<le> 3" "0 \<le> doy" "doy \<le> 365" "0 \<le> mp" "mp \<le> 11"
    "(153 * mp + 2) div 5 \<le> doy" "day + 719468 = 146097 * era + 36524 * c + 1461 * q + 365 * a + doy"
    "era = (day + 719468) div 146097"
    "civil day = (400 * era + 100 * c + 4 * q + a + (if (if mp < 10 then mp + 3 else mp - 9) \<le> 2 then 1 else 0),
       if mp < 10 then mp + 3 else mp - 9, doy - (153 * mp + 2) div 5 + 1)"
proof -
  define z where "z = day + 719468"
  define era d0 where "era = z div 146097" and "d0 = z mod 146097"
  define c where "c = min 3 (d0 div 36524)"
  define d1 where "d1 = d0 - 36524 * c"
  define q where "q = d1 div 1461"
  define d2 where "d2 = d1 - 1461 * q"
  define a where "a = min 3 (d2 div 365)"
  define doy where "doy = d2 - 365 * a"
  define mp where "mp = (5 * doy + 2) div 153"
  have 0: "0 \<le> d0" "d0 < 146097" "z = 146097 * era + d0" by (simp_all add: d0_def era_def)
  have 1: "0 \<le> c" "c \<le> 3" "0 \<le> d1" "d1 \<le> 36524" using 0 unfolding d1_def c_def by (auto simp: min_def)
  have 2: "0 \<le> q" "q \<le> 24" "0 \<le> d2" "d2 \<le> 1460" using 1 unfolding d2_def q_def by auto
  have 3: "0 \<le> a" "a \<le> 3" "0 \<le> doy" "doy \<le> 365" using 2 unfolding doy_def a_def by (auto simp: min_def)
  have 4: "0 \<le> mp" "mp \<le> 11" "153 * mp \<le> 5 * doy + 2" using 3 unfolding mp_def by auto
  from 4(3) have 5: "(153 * mp + 2) div 5 \<le> doy" by linarith
  have 6: "day + 719468 = 146097 * era + 36524 * c + 1461 * q + 365 * a + doy"
    using 0(3) unfolding z_def doy_def d2_def d1_def by simp
  have "civil day = (400 * era + 100 * c + 4 * q + a + (if (if mp < 10 then mp + 3 else mp - 9) \<le> 2 then 1 else 0),
      if mp < 10 then mp + 3 else mp - 9, doy - (153 * mp + 2) div 5 + 1)"
    unfolding civil_def Let_def mp_def doy_def a_def d2_def q_def d1_def c_def d0_def era_def z_def ..
  then show thesis
    using that 1(1,2) 2(1,2) 3 4(1,2) 5 6 era_def z_def by metis
qed

lemma days_of_civil: "days_of (civil day) = day"
proof -
  obtain era c q a doy mp where b: "0 \<le> c" "c \<le> 3" "0 \<le> q" "q \<le> 24" "0 \<le> a" "a \<le> 3" "0 \<le> mp" "mp \<le> 11"
    and z: "day + 719468 = 146097 * era + 36524 * c + 1461 * q + 365 * a + doy"
    and cv: "civil day = (400 * era + 100 * c + 4 * q + a + (if (if mp < 10 then mp + 3 else mp - 9) \<le> 2 then 1 else 0),
       if mp < 10 then mp + 3 else mp - 9, doy - (153 * mp + 2) div 5 + 1)"
    by (rule civil_parts)
  define y where "y = 400 * era + 100 * c + 4 * q + a"
  have y1: "y div 400 = era" using b unfolding y_def by auto
  have "y mod 400 = y - 400 * (y div 400)" by (rule minus_mult_div_eq_mod [symmetric])
  then have y: "y div 400 = era" "y mod 400 = 100 * c + 4 * q + a" unfolding y1 by (simp_all add: y1 y_def)
  have yq: "(100 * c + 4 * q + a) div 4 = 25 * c + q" "(100 * c + 4 * q + a) div 100 = c" using b by auto
  have "days_of (civil day) = y div 400 * 146097 + (y mod 400 * 365 + y mod 400 div 4 - y mod 400 div 100 + doy) - 719468"
    using b(7,8) unfolding cv y_def [symmetric] by (auto simp: days_of_def Let_def)
  also have "\<dots> = day" unfolding y yq using z by simp
  finally show ?thesis .
qed

lemma civil_nonneg:
  assumes "0 \<le> day" and "civil day = (y, m, d)"
  shows "0 \<le> y \<and> 0 \<le> m \<and> 0 \<le> d"
proof -
  obtain era c q a doy mp where b: "0 \<le> c" "0 \<le> q" "0 \<le> a" "0 \<le> mp" "(153 * mp + 2) div 5 \<le> doy" "era = (day + 719468) div 146097"
    and cv: "civil day = (400 * era + 100 * c + 4 * q + a + (if (if mp < 10 then mp + 3 else mp - 9) \<le> 2 then 1 else 0),
       if mp < 10 then mp + 3 else mp - 9, doy - (153 * mp + 2) div 5 + 1)"
    by (rule civil_parts)
  have "0 \<le> era" using assms(1) b(6) by simp
  with b cv assms(2) show ?thesis by (auto split: if_splits)
qed

lemma fmt_date_inj:
  assumes "0 \<le> i" and "0 \<le> j" and "fmt_date i @ 84 # u = fmt_date j @ 84 # v"
  shows "i = j" and "u = v"
proof -
  obtain y m d where c: "civil i = (y, m, d)" by (cases "civil i")
  obtain y' m' d' where c': "civil j = (y', m', d')" by (cases "civil j")
  note n = civil_nonneg [OF assms(1) c] and n' = civil_nonneg [OF assms(2) c']
  have s: "\<not> is_digit 45" "\<not> is_digit 84" by (simp_all add: is_digit_def)
  have e: "pad_nat 4 y @ 45 # (pad_nat 2 m @ 45 # (pad_nat 2 d @ 84 # u)) = pad_nat 4 y' @ 45 # (pad_nat 2 m' @ 45 # (pad_nat 2 d' @ 84 # v))"
    using assms(3) by (simp add: fmt_date_def c c')
  note e1 = digits_sep [OF pad_nat_digits pad_nat_digits s(1) e]
  with n n' have e2: "pad_nat 4 y = pad_nat 4 y'" "pad_nat 2 m @ 45 # (pad_nat 2 d @ 84 # u) = pad_nat 2 m' @ 45 # (pad_nat 2 d' @ 84 # v)" by simp_all
  note e3 = digits_sep [OF pad_nat_digits pad_nat_digits s(1) e2(2)]
  with n n' have e4: "pad_nat 2 m = pad_nat 2 m'" "pad_nat 2 d @ 84 # u = pad_nat 2 d' @ 84 # v" by simp_all
  note e5 = digits_sep [OF pad_nat_digits pad_nat_digits s(2) e4(2)]
  with n n' have e6: "pad_nat 2 d = pad_nat 2 d'" "u = v" by simp_all
  have "civil i = civil j" using e2(1) e4(1) e6(1) n n' by (simp add: c c' pad_nat_inj)
  then show "i = j" by (metis days_of_civil)
  show "u = v" by (rule e6)
qed

lemma length_show_nat: "n < 10 ^ Suc k \<Longrightarrow> length (show_nat n) \<le> Suc k"
proof (induction k arbitrary: n)
  case 0
  then show ?case by (subst show_nat.simps) simp
next
  case (Suc k)
  then have "n div 10 < 10 ^ Suc k" by (simp add: div_less_iff_less_mult mult.commute)
  with Suc.IH [of "n div 10"] show ?case by (subst show_nat.simps) simp
qed

lemma length_pad: "n < 10 ^ Suc k \<Longrightarrow> length (pad_zeros (Suc k) (show_nat n)) = Suc k"
  using length_show_nat [of n k] by (simp add: pad_zeros_def)

lemma strip_zeros_pad: "strip_zeros s @ replicate (length s - length (strip_zeros s)) 48 = s"
proof -
  have t: "takeWhile (\<lambda>c. c = 48) xs = replicate (length (takeWhile (\<lambda>c. c = 48) xs)) 48" for xs :: ustring
    by (induction xs) auto
  have "rev s = takeWhile (\<lambda>c. c = 48) (rev s) @ dropWhile (\<lambda>c. c = 48) (rev s)" by simp
  then have "s = strip_zeros s @ rev (takeWhile (\<lambda>c. c = 48) (rev s))"
    unfolding strip_zeros_def by (metis rev_append rev_rev_ident)
  moreover have "rev (takeWhile (\<lambda>c. c = 48) (rev s)) = replicate (length (takeWhile (\<lambda>c. c = 48) (rev s))) 48"
    by (subst t) simp
  ultimately show ?thesis by (metis add_diff_cancel_left' length_append length_rev)
qed

lemma fmt_fraction_inj:
  assumes "0 \<le> i" and "i < 10 ^ 9" and "0 \<le> j" and "j < 10 ^ 9" and "fmt_fraction i = fmt_fraction j"
  shows "i = j"
proof -
  have "strip_zeros (pad_nat 9 i) = strip_zeros (pad_nat 9 j)"
    using assms(5) by (auto simp: fmt_fraction_def Let_def split: if_splits)
  moreover have "length (pad_nat 9 k) = 9" if "0 \<le> k" "k < 10 ^ 9" for k
    using that length_pad [of "nat k" 8] by (simp add: pad_nat_def nat_less_iff)
  ultimately have "pad_nat 9 i = pad_nat 9 j" using assms(1-4) by (metis strip_zeros_pad)
  then show ?thesis using assms(1,3) by (simp add: pad_nat_inj)
qed

lemma RFC3339Nano_inj:
  assumes "0 \<le> s" and "0 \<le> t" and "RFC3339Nano s = RFC3339Nano t"
  shows "s = t"
proof -
  have d: "\<not> is_digit 58" by (simp add: is_digit_def)
  have h: "fmt_fraction n @ [90] \<noteq> [] \<and> \<not> is_digit (hd (fmt_fraction n @ [90]))" for n
    by (auto simp: fmt_fraction_def Let_def is_digit_def)
  define ss st where "ss = s div 1000000000" and "st = t div 1000000000"
  have n: "0 \<le> ss" "0 \<le> st" using assms(1,2) by (simp_all add: ss_def st_def)
  from assms(3) have e: "fmt_date (ss div 86400) @ 84 # (pad_nat 2 (ss mod 86400 div 3600) @ 58 # (pad_nat 2 (ss mod 86400 div 60 mod 60)
        @ 58 # (pad_nat 2 (ss mod 86400 mod 60) @ fmt_fraction (s mod 1000000000) @ [90])))
     = fmt_date (st div 86400) @ 84 # (pad_nat 2 (st mod 86400 div 3600) @ 58 # (pad_nat 2 (st mod 86400 div 60 mod 60)
        @ 58 # (pad_nat 2 (st mod 86400 mod 60) @ fmt_fraction (t mod 1000000000) @ [90])))"
    by (simp only: RFC3339Nano_def Let_def ss_def st_def)
  have p: "0 \<le> x div 86400" "0 \<le> x mod 86400 div 3600" "0 \<le> x mod 86400 div 60 mod 60" "0 \<le> x mod 86400 mod 60" if "0 \<le> x" for x :: int
    using that by (simp_all add: pos_imp_zdiv_nonneg_iff)
  note ps = p [OF n(1)] and pt = p [OF n(2)]
  note e1 = fmt_date_inj [OF ps(1) pt(1) e]
  note e2 = digits_sep [OF pad_nat_digits [OF ps(2)] pad_nat_digits [OF pt(2)] d e1(2)]
  note e3 = digits_sep [OF pad_nat_digits [OF ps(3)] pad_nat_digits [OF pt(3)] d e2(2)]
  note e4 = digits_split [OF pad_nat_digits [OF ps(4)] pad_nat_digits [OF pt(4)] h h e3(2)]
  note day = e1(1) and hh = e2(1) [unfolded pad_nat_inj [OF ps(2) pt(2)]] and mm = e3(1) [unfolded pad_nat_inj [OF ps(3) pt(3)]]
    and sec = e4(1) [unfolded pad_nat_inj [OF ps(4) pt(4)]]
  have ns: "s mod 1000000000 = t mod 1000000000"
    using e4(2) by (intro fmt_fraction_inj) simp_all
  have x: "x = ((x div 3600) * 60 + x div 60 mod 60) * 60 + x mod 60" for x :: int
  proof -
    have "x div 3600 = x div 60 div 60" using zdiv_zmult2_eq [of 60 x 60] by simp
    then show ?thesis by (simp only: div_mult_mod_eq)
  qed
  have "ss mod 86400 = st mod 86400"
    by (subst (1 2) x) (simp only: hh mm sec)
  with day have "ss = st" by (metis div_mult_mod_eq)
  with ns show ?thesis unfolding ss_def st_def by (metis div_mult_mod_eq)
qed

end
