(* ===== verification/Lease.thy ===== *)
theory Lease
  imports IeeeFloat GoTime
begin

text \<open>
  The data types of the registry service, src/flr/internal/models/models.go. A \<open>time.Time\<close> is its
  instant in nanoseconds, a pointer that may be nil an option, an integer enumeration its
  integer. \<open>ToKey\<close> formats floats as Go's \<open>%.2f\<close> does: the exact binary value rounded to the
  nearest decimal, ties to even. Two wavelengths have the same key exactly when channel, band
  name and the two rounded floats agree.
\<close>

section \<open>Wavelength\<close>

record wavelength =
  wl_LambdaNm :: fp
  wl_ChannelNum :: i32
  wl_Band :: i32
  wl_GridGHz :: fp

definition BandUnspecified :: i32 where "BandUnspecified = 0"
definition BandCBand :: i32 where "BandCBand = 1"
definition BandLBand :: i32 where "BandLBand = 2"
definition BandSBand :: i32 where "BandSBand = 3"

definition Band_String :: "i32 \<Rightarrow> ustring" where
  "Band_String b =
     (if b = BandCBand then ulit ''C_BAND'' else if b = BandLBand then ulit ''L_BAND''
      else if b = BandSBand then ulit ''S_BAND'' else ulit ''UNSPECIFIED'')"

definition fixed_digits :: "nat \<Rightarrow> nat \<Rightarrow> ustring" where
  "fixed_digits p n = show_nat (n div 10 ^ p) @ 46 # pad_zeros p (show_nat (n mod 10 ^ p))"

definition fixed_round :: "nat \<Rightarrow> int \<Rightarrow> int \<Rightarrow> nat" where
  "fixed_round p m e = nat (rne (shl (m * 10 ^ p) e) (shl 1 (- e)))"

fun fmt_fixed :: "nat \<Rightarrow> fp \<Rightarrow> ustring" where
  "fmt_fixed p FNaN = ulit ''NaN''"
| "fmt_fixed p (FInf s) = (if s then ulit ''-Inf'' else ulit ''+Inf'')"
| "fmt_fixed p (FNum s m e) = (if s then [45] else []) @ fixed_digits p (fixed_round p m e)"

definition ToKey :: "wavelength \<Rightarrow> ustring" where
  "ToKey w = fmt_fixed 2 (wl_LambdaNm w) @ [58] @ show_i32 (wl_ChannelNum w) @ [58] @ Band_String (wl_Band w)
     @ [58] @ fmt_fixed 1 (wl_GridGHz w)"

section \<open>Leases, tokens and commitments\<close>

definition LeaseStatusUnspecified :: i32 where "LeaseStatusUnspecified = 0"
definition LeaseStatusActive :: i32 where "LeaseStatusActive = 1"
definition LeaseStatusExpired :: i32 where "LeaseStatusExpired = 2"
definition LeaseStatusRevoked :: i32 where "LeaseStatusRevoked = 3"
definition LeaseStatusPending :: i32 where "LeaseStatusPending = 4"

lemmas status_defs = LeaseStatusUnspecified_def LeaseStatusActive_def LeaseStatusExpired_def
  LeaseStatusRevoked_def LeaseStatusPending_def

record lease =
  l_ID :: ustring
  l_Wavelength :: "wavelength option"
  l_EndpointID :: ustring
  l_OperatorID :: ustring
  l_Status :: i32
  l_StartTime :: gotime
  l_EndTime :: gotime
  l_CreatedAt :: gotime
  l_UpdatedAt :: gotime
  l_TokenHash :: bytes
  l_ParentHash :: bytes

record lease_token =
  t_Version :: i32
  t_LeaseID :: ustring
  t_OperatorID :: ustring
  t_Wavelength :: "wavelength option"
  t_EndpointID :: ustring
  t_StartTime :: gotime
  t_EndTime :: gotime
  t_Nonce :: bytes
  t_Signature :: bytes
  t_IssuedAt :: gotime

record merkle_commitment =
  mc_OperatorID :: ustring
  mc_RootHash :: bytes
  mc_Timestamp :: gotime
  mc_Signature :: bytes
  mc_LeaseCount :: i32
  mc_BlockHeight :: i64

record operator =
  o_ID :: ustring
  o_Name :: ustring
  o_PublicKey :: bytes
  o_Endpoint :: ustring
  o_Status :: i32
  o_JoinedAt :: gotime
  o_LastSeen :: gotime

record audit_log_entry =
  a_Timestamp :: gotime
  a_Operation :: ustring
  a_OperatorID :: ustring
  a_LeaseID :: ustring
  a_Details :: bytes
  a_Hash :: bytes
  a_PrevHash :: bytes

section \<open>Keys\<close>

lemma ulit_eq [simp]: "ulit s = ulit t \<longleftrightarrow> s = t"
proof -
  have "inj (\<lambda>c :: char. of_nat (of_char c) :: u32)"
  proof (rule injI)
    fix c d :: char
    have l: "of_char c < (256 :: nat)" "of_char d < (256 :: nat)" by (rule nat_of_char_less_256)+
    assume "(of_nat (of_char c) :: u32) = of_nat (of_char d)"
    then have "unat (of_nat (of_char c) :: u32) = unat (of_nat (of_char d) :: u32)" by simp
    then show "c = d" using l by (simp add: unat_of_nat)
  qed
  then show ?thesis unfolding ulit_def by (simp add: inj_map_eq_map)
qed

lemma append_sep_eq:
  assumes "c \<notin> set x" and "c \<notin> set y" and "x @ c # u = y @ c # v"
  shows "x = y \<and> u = v"
  using assms
proof (induction x arbitrary: y)
  case (Cons a x)
  then show ?case by (cases y) auto
next
  case Nil
  then show ?case by (cases y) auto
qed

lemma no_colon_nat: "58 \<notin> set (show_nat n)"
  using show_nat_digits [of n] by (auto simp: list_all_iff is_digit_def)

lemma no_colon_int: "58 \<notin> set (show_int i)"
  using no_colon_nat by (simp add: show_int_def)

lemma no_colon_fixed: "58 \<notin> set (fmt_fixed p x)"
  by (cases x) (auto simp: fixed_digits_def pad_zeros_def no_colon_nat ulit_def)

lemma no_colon_band: "58 \<notin> set (Band_String b)"
  by (simp add: Band_String_def ulit_def)

theorem ToKey_eq_iff:
  "ToKey v = ToKey w \<longleftrightarrow> fmt_fixed 2 (wl_LambdaNm v) = fmt_fixed 2 (wl_LambdaNm w) \<and> wl_ChannelNum v = wl_ChannelNum w
     \<and> Band_String (wl_Band v) = Band_String (wl_Band w) \<and> fmt_fixed 1 (wl_GridGHz v) = fmt_fixed 1 (wl_GridGHz w)"
proof
  assume "ToKey v = ToKey w"
  then have "fmt_fixed 2 (wl_LambdaNm v) = fmt_fixed 2 (wl_LambdaNm w) \<and> show_i32 (wl_ChannelNum v) = show_i32 (wl_ChannelNum w)
     \<and> Band_String (wl_Band v) = Band_String (wl_Band w) \<and> fmt_fixed 1 (wl_GridGHz v) = fmt_fixed 1 (wl_GridGHz w)"
    unfolding ToKey_def show_i32_def append_Cons append_Nil
    by (metis append_sep_eq no_colon_fixed no_colon_int no_colon_band)
  then show "fmt_fixed 2 (wl_LambdaNm v) = fmt_fixed 2 (wl_LambdaNm w) \<and> wl_ChannelNum v = wl_ChannelNum w
     \<and> Band_String (wl_Band v) = Band_String (wl_Band w) \<and> fmt_fixed 1 (wl_GridGHz v) = fmt_fixed 1 (wl_GridGHz w)"
    by (auto simp: show_i32_def show_int_inj intro: signed_word_eqI)
qed (simp add: ToKey_def)

end
