(* ===== verification/ConflictEngine.thy ===== *)
theory ConflictEngine
  imports Bitweave Lease
begin

text \<open>
  The adapter between leases and the bit-plane index, src/flr/internal/bitweave/adapter.go. The
  reference is the list of what was put in each slot. A query reports a conflict exactly when some
  live lease has the same low 16 bits of channel and band; slots are never given back.
\<close>

record conflict_engine =
  ce_index :: lease_index
  ce_slots :: "ustring \<rightharpoonup> nat"

definition NewConflictEngine :: conflict_engine where
  "NewConflictEngine = \<lparr>ce_index = NewLeaseIndex, ce_slots = Map.empty\<rparr>"

definition leaseChannelNum :: "lease \<Rightarrow> u32" where
  "leaseChannelNum l = (case l_Wavelength l of None \<Rightarrow> 0 | Some w \<Rightarrow> wl_ChannelNum w)"

definition leaseAwgID :: "lease \<Rightarrow> u16" where
  "leaseAwgID l = (case l_Wavelength l of None \<Rightarrow> 0 | Some w \<Rightarrow> ucast (wl_Band w))"

definition leaseAwgPort :: "lease \<Rightarrow> u16" where
  "leaseAwgPort l = (case l_Wavelength l of None \<Rightarrow> 0 | Some w \<Rightarrow> ucast (wl_ChannelNum w))"

definition leaseTenantID :: "lease \<Rightarrow> u16" where
  "leaseTenantID l = (if l_OperatorID l = [] then 0 else fold (\<lambda>c h. h * 31 + ucast c) (l_OperatorID l) 0)"

definition leaseExclusive :: "lease \<Rightarrow> bool" where
  "leaseExclusive l = True"

text \<open>The call of \<open>Insert\<close> in \<open>IndexLease\<close> and \<open>RebuildFrom\<close>, and what follows it.\<close>

definition insert_lease :: "conflict_engine \<Rightarrow> lease \<Rightarrow> string + conflict_engine" where
  "insert_lease ce l =
     try_bind (Insert (ce_index ce) (l_ID l) (leaseChannelNum l) (leaseAwgID l) (leaseTenantID l) (leaseAwgPort l) (leaseExclusive l))
       (\<lambda>(slot, idx). Inr \<lparr>ce_index = idx, ce_slots = (ce_slots ce)(l_ID l \<mapsto> slot)\<rparr>)"

definition IndexLease :: "conflict_engine \<Rightarrow> lease \<Rightarrow> string + conflict_engine" where
  "IndexLease ce l = (case ce_slots ce (l_ID l) of Some _ \<Rightarrow> Inr ce | None \<Rightarrow> insert_lease ce l)"

definition RemoveLease :: "conflict_engine \<Rightarrow> ustring \<Rightarrow> conflict_engine" where
  "RemoveLease ce leaseID = (case ce_slots ce leaseID of None \<Rightarrow> ce
     | Some slot \<Rightarrow> \<lparr>ce_index = Remove (ce_index ce) (int slot), ce_slots = (ce_slots ce)(leaseID := None)\<rparr>)"

definition CheckLeaseConflicts :: "conflict_engine \<Rightarrow> lease \<Rightarrow> ustring \<Rightarrow> conflict list" where
  "CheckLeaseConflicts ce p renewLeaseID =
     (let excludeSlot = (if renewLeaseID \<noteq> [] then case ce_slots ce renewLeaseID of Some s \<Rightarrow> int s | None \<Rightarrow> -1 else -1)
      in CheckConflicts (ce_index ce) (leaseChannelNum p) (leaseAwgID p) (leaseTenantID p) (leaseAwgPort p) (leaseExclusive p) excludeSlot)"

fun rebuild_loop :: "conflict_engine \<Rightarrow> lease list \<Rightarrow> string option \<times> conflict_engine" where
  "rebuild_loop ce [] = (None, ce)"
| "rebuild_loop ce (l # ls) = (case insert_lease ce l of Inl e \<Rightarrow> (Some e, ce) | Inr ce' \<Rightarrow> rebuild_loop ce' ls)"

definition RebuildFrom :: "lease list \<Rightarrow> string option \<times> conflict_engine" where
  "RebuildFrom leases = rebuild_loop NewConflictEngine leases"

definition LeaseCount :: "conflict_engine \<Rightarrow> nat" where
  "LeaseCount ce = ix_Count (ce_index ce)"

section \<open>Reference\<close>

datatype engine_op = EIndex lease | ERemove ustring | ERebuild "lease list"

fun engine_step :: "engine_op \<Rightarrow> conflict_engine \<Rightarrow> conflict_engine" where
  "engine_step (EIndex l) ce = (case IndexLease ce l of Inl _ \<Rightarrow> ce | Inr ce' \<Rightarrow> ce')"
| "engine_step (ERemove i) ce = RemoveLease ce i"
| "engine_step (ERebuild ls) ce = snd (RebuildFrom ls)"

type_synonym slot_table = "lease option list \<times> (ustring \<rightharpoonup> nat)"

definition table_add :: "lease \<Rightarrow> slot_table \<Rightarrow> slot_table" where
  "table_add l t = (case t of (es, sl) \<Rightarrow>
     if length es \<ge> MaxLeases then t else (es @ [Some l], sl(l_ID l \<mapsto> length es)))"

fun table_step :: "engine_op \<Rightarrow> slot_table \<Rightarrow> slot_table" where
  "table_step (EIndex l) t = (case snd t (l_ID l) of Some _ \<Rightarrow> t | None \<Rightarrow> table_add l t)"
| "table_step (ERemove i) t = (case snd t i of None \<Rightarrow> t | Some s \<Rightarrow> ((fst t)[s := None], (snd t)(i := None)))"
| "table_step (ERebuild ls) t = fold table_add ls ([], Map.empty)"

definition lease_entry :: "lease \<Rightarrow> nat \<Rightarrow> lens_snapshot" where
  "lease_entry l i = \<lparr>ls_LeaseID = l_ID l, ls_Channel = leaseChannelNum l, ls_AwgID = leaseAwgID l,
     ls_TenantID = leaseTenantID l, ls_AwgPort = leaseAwgPort l, ls_Exclusive = leaseExclusive l, ls_Slot = i\<rparr>"

definition table_rel :: "conflict_engine \<Rightarrow> slot_table \<Rightarrow> bool" where
  "table_rel ce t \<longleftrightarrow> index_wf (ce_index ce) \<and> ce_slots ce = snd t
     \<and> index_abs (ce_index ce) = map (\<lambda>i. map_option (\<lambda>l. lease_entry l i) (fst t ! i)) [0..<length (fst t)]"

lemma table_rel_new: "table_rel NewConflictEngine ([], Map.empty)"
  using index_steps [of "[]"] by (simp add: table_rel_def NewConflictEngine_def)

lemma table_rel_count: "table_rel ce t \<Longrightarrow> ix_Count (ce_index ce) = length (fst t)"
proof -
  assume "table_rel ce t"
  then have "length (index_abs (ce_index ce)) = length (fst t)" unfolding table_rel_def by simp
  then show ?thesis by (simp add: index_abs_def)
qed

lemma insert_lease_rel:
  assumes "table_rel ce t"
  shows "insert_lease ce l = Inl ''lease index full (1024 max)'' \<and> length (fst t) \<ge> MaxLeases
    \<or> (\<exists>ce'. insert_lease ce l = Inr ce' \<and> length (fst t) < MaxLeases \<and> table_rel ce' (table_add l t))"
proof -
  obtain es sl where t: "t = (es, sl)" by (cases t)
  have wf: "index_wf (ce_index ce)" and sl: "ce_slots ce = sl"
    and a: "index_abs (ce_index ce) = map (\<lambda>i. map_option (\<lambda>l. lease_entry l i) (es ! i)) [0..<length es]"
    using assms by (simp_all add: table_rel_def t)
  have c: "ix_Count (ce_index ce) = length es" using table_rel_count [OF assms] by (simp add: t)
  show ?thesis
  proof (cases "length es \<ge> MaxLeases")
    case True
    then show ?thesis by (simp add: insert_lease_def Insert_def c t try_bind_def)
  next
    case False
    then obtain slot idx' where i: "Insert (ce_index ce) (l_ID l) (leaseChannelNum l) (leaseAwgID l) (leaseTenantID l)
        (leaseAwgPort l) (leaseExclusive l) = Inr (slot, idx')" using c by (simp add: Insert_def Let_def)
    note w = index_insert_wf [OF wf i] and x = index_insert_abs [OF wf i]
    have "map (\<lambda>i. map_option (\<lambda>l. lease_entry l i) ((es @ [Some l]) ! i)) [0..<length es]
        = map (\<lambda>i. map_option (\<lambda>l. lease_entry l i) (es ! i)) [0..<length es]"
      by (rule map_cong) (auto simp: nth_append)
    then have "table_rel \<lparr>ce_index = idx', ce_slots = sl(l_ID l \<mapsto> slot)\<rparr> (table_add l t)"
      using False w x a c by (simp add: table_rel_def table_add_def t lease_entry_def nth_append)
    with False show ?thesis by (simp add: insert_lease_def i sl t try_bind_def)
  qed
qed

lemma rebuild_rel:
  assumes "table_rel ce t"
  shows "table_rel (snd (rebuild_loop ce ls)) (fold table_add ls t)"
  using assms
proof (induction ls arbitrary: ce t)
  case (Cons l ls)
  have full: "fold table_add ls t = t" if "length (fst t) \<ge> MaxLeases" for ls
    using that by (induction ls) (auto simp: table_add_def split: prod.splits)
  from insert_lease_rel [OF Cons.prems, of l] show ?case
  proof
    assume f: "insert_lease ce l = Inl ''lease index full (1024 max)'' \<and> length (fst t) \<ge> MaxLeases"
    then have "fold table_add (l # ls) t = t" by (intro full) simp
    with f Cons.prems show ?thesis by simp
  qed (auto simp: Cons.IH)
qed simp

lemma slot_clear:
  "(map (\<lambda>i. map_option (\<lambda>l. f l i) (es ! i)) [0..<length es])[s := None]
    = map (\<lambda>i. map_option (\<lambda>l. f l i) (es[s := None] ! i)) [0..<length es]" (is "?l = ?r")
proof (rule nth_equalityI)
  fix i assume "i < length ?l"
  then show "?l ! i = ?r ! i" by (cases "i = s") simp_all
qed simp

lemma engine_steps: "table_rel (fold engine_step ops NewConflictEngine) (fold table_step ops ([], Map.empty))"
proof (induction ops rule: rev_induct)
  case Nil
  show ?case by (simp add: table_rel_new)
next
  case (snoc op ops)
  define ce t where "ce = fold engine_step ops NewConflictEngine" and "t = fold table_step ops ([], Map.empty)"
  have r: "table_rel ce t" using snoc by (simp add: ce_def t_def)
  have "table_rel (engine_step op ce) (table_step op t)"
  proof (cases op)
    case (EIndex l)
    then show ?thesis
      using r insert_lease_rel [OF r, of l]
      by (auto simp: IndexLease_def table_rel_def table_add_def split: option.splits prod.splits)
  next
    case (ERemove i)
    have "index_abs (ce_index ce) = map (\<lambda>i. map_option (\<lambda>l. lease_entry l i) (fst t ! i)) [0..<length (fst t)]"
      "index_wf (ce_index ce)" "ce_slots ce = snd t" using r by (simp_all add: table_rel_def)
    with ERemove show ?thesis
      by (cases "snd t i") (simp_all add: RemoveLease_def table_rel_def index_remove_wf index_remove_abs slot_clear)
  next
    case (ERebuild ls)
    then show ?thesis using rebuild_rel [OF table_rel_new, of ls] by (simp add: RebuildFrom_def)
  qed
  then show ?case by (simp flip: ce_def t_def)
qed

section \<open>What a query reports\<close>

lemma ref_conflicts_empty:
  "ref_conflicts es ch awg ten port True ex = [] \<longleftrightarrow> \<not> (\<exists>e. Some e \<in> set es \<and> int (ls_Slot e) \<noteq> ex \<and> ls_AwgID e = awg
      \<and> (ls_Channel e = ch \<or> ls_AwgPort e = port))"
proof -
  have "Some e \<in> set es \<longleftrightarrow> (\<exists>b \<in> set (ref_blocks es). Some e \<in> set b)" for e
    by (metis concat_ref_blocks in_set_conv_decomp set_concat UN_iff)
  moreover have "ref_report ty ex P b = [] \<longleftrightarrow> (\<forall>e. Some e \<in> set b \<longrightarrow> \<not> (P e \<and> int (ls_Slot e) \<noteq> ex))" for ty P b
    by (auto simp: ref_report_def concat_eq_Nil_conv split: option.splits)
  ultimately show ?thesis unfolding ref_conflicts_def by (simp add: concat_eq_Nil_conv) blast
qed

lemma port_of_channel: "leaseAwgPort l = ucast (leaseChannelNum l)"
  by (simp add: leaseAwgPort_def leaseChannelNum_def split: option.splits)

lemma engine_query:
  assumes "table_rel ce (es, sl)"
  shows "CheckLeaseConflicts ce p renew \<noteq> [] \<longleftrightarrow> (\<exists>i l. i < length es \<and> es ! i = Some l \<and> (renew = [] \<or> sl renew \<noteq> Some i)
           \<and> leaseAwgID l = leaseAwgID p \<and> leaseAwgPort l = leaseAwgPort p)"
proof -
  define ex where "ex = (if renew \<noteq> [] then case sl renew of Some s \<Rightarrow> int s | None \<Rightarrow> -1 else -1)"
  have wf: "index_wf (ce_index ce)" and s: "ce_slots ce = sl"
    and a: "index_abs (ce_index ce) = map (\<lambda>i. map_option (\<lambda>l. lease_entry l i) (es ! i)) [0..<length es]"
    using assms by (simp_all add: table_rel_def)
  have port: "leaseChannelNum l = leaseChannelNum p \<Longrightarrow> leaseAwgPort l = leaseAwgPort p" for l
    by (simp add: port_of_channel)
  have x: "int i \<noteq> ex \<longleftrightarrow> renew = [] \<or> sl renew \<noteq> Some i" for i
    by (auto simp: ex_def split: option.splits)
  have "CheckLeaseConflicts ce p renew
      = ref_conflicts (index_abs (ce_index ce)) (leaseChannelNum p) (leaseAwgID p) (leaseTenantID p) (leaseAwgPort p) True ex"
    by (simp add: CheckLeaseConflicts_def check_conflicts_ref [OF wf] leaseExclusive_def s ex_def)
  moreover have m: "Some e \<in> set (index_abs (ce_index ce)) \<longleftrightarrow> (\<exists>i l. i < length es \<and> es ! i = Some l \<and> e = lease_entry l i)" for e
    
    unfolding a set_map image_iff eq_commute [of "Some e"] map_option_eq_Some by auto
  ultimately have "CheckLeaseConflicts ce p renew \<noteq> [] \<longleftrightarrow> (\<exists>e. (\<exists>i l. i < length es \<and> es ! i = Some l \<and> e = lease_entry l i)
      \<and> int (ls_Slot e) \<noteq> ex \<and> ls_AwgID e = leaseAwgID p \<and> (ls_Channel e = leaseChannelNum p \<or> ls_AwgPort e = leaseAwgPort p))"
    by (simp only: ref_conflicts_empty not_not)
  also have "\<dots> \<longleftrightarrow> (\<exists>i l. i < length es \<and> es ! i = Some l \<and> int i \<noteq> ex \<and> leaseAwgID l = leaseAwgID p
      \<and> (leaseChannelNum l = leaseChannelNum p \<or> leaseAwgPort l = leaseAwgPort p))"
  proof -
    have "(\<exists>e. (\<exists>i l. i < length es \<and> es ! i = Some l \<and> e = lease_entry l i) \<and> P e)
        \<longleftrightarrow> (\<exists>i l. i < length es \<and> es ! i = Some l \<and> P (lease_entry l i))" for P by blast
    then show ?thesis by (simp add: lease_entry_def)
  qed
  also have "\<dots> \<longleftrightarrow> (\<exists>i l. i < length es \<and> es ! i = Some l \<and> int i \<noteq> ex \<and> leaseAwgID l = leaseAwgID p \<and> leaseAwgPort l = leaseAwgPort p)"
    using port by blast
  finally show ?thesis unfolding x by blast
qed

text \<open>(C23) The conflict engine over any history of indexing, removal and rebuilding: the number of slots
  in use and the slot of each lease are those of the slot table, and a query, for a new lease or
  for the renewal of one, reports a conflict exactly when some other live lease agrees with the
  proposed one in the low 16 bits of band and channel. The full channel number, the operator and
  exclusivity do not matter.\<close>

theorem engine_refinement:
  "case fold table_step ops ([], Map.empty) of (es, slots) \<Rightarrow>
     LeaseCount (fold engine_step ops NewConflictEngine) = length es
   \<and> ce_slots (fold engine_step ops NewConflictEngine) = slots
   \<and> (CheckLeaseConflicts (fold engine_step ops NewConflictEngine) p renew \<noteq> [] \<longleftrightarrow>
        (\<exists>i l. i < length es \<and> es ! i = Some l \<and> \<not> (renew \<noteq> [] \<and> slots renew = Some i)
           \<and> leaseAwgID l = leaseAwgID p \<and> leaseAwgPort l = leaseAwgPort p))"
proof -
  define ce t where "ce = fold engine_step ops NewConflictEngine" and "t = fold table_step ops ([], Map.empty)"
  obtain es sl where t: "t = (es, sl)" by (cases t)
  have r: "table_rel ce t" using engine_steps [of ops] by (simp add: ce_def t_def)
  have "LeaseCount ce = length es" "ce_slots ce = sl"
    using r table_rel_count [OF r] by (simp_all add: LeaseCount_def t table_rel_def)
  then show ?thesis using engine_query [of ce es sl p renew] r by (simp flip: ce_def t_def add: t)
qed

text \<open>Slots are never given back: index a lease and remove it again, 1024 times in a row (the same
  lease or different ones). The engine is then empty, no query reports anything, but every
  further lease is refused because the index is full; only a rebuild helps.\<close>

theorem slots_never_reclaimed:
  assumes "length ls = MaxLeases"
  shows "let ce = fold (\<lambda>l ce. engine_step (ERemove (l_ID l)) (engine_step (EIndex l) ce)) ls NewConflictEngine
    in ce_slots ce = Map.empty \<and> (\<forall>p renew. CheckLeaseConflicts ce p renew = []) \<and> IndexLease ce x = Inl ''lease index full (1024 max)''
     \<and> is_ok (IndexLease (snd (RebuildFrom [])) x)"
proof -
  define ops where "ops ls = concat (map (\<lambda>l. [EIndex l, ERemove (l_ID l)]) ls)" for ls
  have f: "fold (\<lambda>l ce. engine_step (ERemove (l_ID l)) (engine_step (EIndex l) ce)) ls ce = fold engine_step (ops ls) ce" for ls ce
    by (induction ls arbitrary: ce) (simp_all add: ops_def)
  have t: "length ls \<le> MaxLeases \<Longrightarrow> fold table_step (ops ls) ([], Map.empty) = (replicate (length ls) None, Map.empty)" for ls
  proof (induction ls rule: rev_induct)
    case (snoc l ls)
    have "(replicate n None @ [Some l])[n := None] = replicate (Suc n) None" for n
      by (simp add: list_update_append replicate_append_same)
    with snoc show ?case by (simp add: ops_def table_add_def)
  qed (simp add: ops_def)
  define ce where "ce = fold engine_step (ops ls) NewConflictEngine"
  have tb: "fold table_step (ops ls) ([], Map.empty) = (replicate MaxLeases None, Map.empty)" using t [of ls] assms by simp
  have r: "table_rel ce (replicate MaxLeases None, Map.empty)" using engine_steps [of "ops ls"] tb by (simp add: ce_def)
  have "ce_slots ce = Map.empty" using r by (simp add: table_rel_def)
  moreover have "CheckLeaseConflicts ce p renew = []" for p renew using engine_query [OF r, of p renew] by auto
  moreover have "insert_lease ce x = Inl ''lease index full (1024 max)''" using insert_lease_rel [OF r, of x] by simp
  ultimately have "ce_slots ce = Map.empty \<and> (\<forall>p renew. CheckLeaseConflicts ce p renew = []) \<and> IndexLease ce x = Inl ''lease index full (1024 max)''"
    by (simp add: IndexLease_def)
  moreover have "is_ok (IndexLease (snd (RebuildFrom [])) x)"
    using insert_lease_rel [OF table_rel_new, of x]
    by (auto simp: RebuildFrom_def IndexLease_def NewConflictEngine_def is_ok_def MaxLeases_def)
  ultimately show ?thesis unfolding f Let_def ce_def by blast
qed

definition sample_lease :: lease where
  "sample_lease = \<lparr>l_ID = ulit ''a'', l_Wavelength = Some \<lparr>wl_LambdaNm = fp_lit f64 155012 100, wl_ChannelNum = 34,
     wl_Band = BandCBand, wl_GridGHz = fp_lit f64 100 1\<rparr>, l_EndpointID = ulit ''e'', l_OperatorID = ulit ''op'',
     l_Status = LeaseStatusActive, l_StartTime = 0, l_EndTime = 100, l_CreatedAt = 0, l_UpdatedAt = 0,
     l_TokenHash = [], l_ParentHash = []\<rparr>"

theorem slots_never_reclaimed_witness:
  "let ls = replicate MaxLeases sample_lease;
       ce = fold (\<lambda>l ce. engine_step (ERemove (l_ID l)) (engine_step (EIndex l) ce)) ls NewConflictEngine
   in length ls = MaxLeases \<and> ce_slots ce = Map.empty \<and> CheckLeaseConflicts ce sample_lease [] = []
     \<and> IndexLease ce sample_lease = Inl ''lease index full (1024 max)''"
  using slots_never_reclaimed [of "replicate MaxLeases sample_lease" sample_lease] by (simp add: Let_def)

end
