(* ===== verification/FlrCrypto.thy ===== *)
theory FlrCrypto
  imports Lease
begin

text \<open>
  Tokens and commitments of the registry, src/flr/internal/crypto/engine.go. ECDSA, X.509, PEM,
  SHA3 and the JSON encoder are arguments, collected in \<open>flr_lib\<close>; a signature also depends on a
  draw of randomness. The time of a \<open>time.Now()\<close> call is an argument. Errors are their texts.
\<close>

section \<open>Libraries\<close>

record canonical_lease =
  cl_ID :: ustring
  cl_Wavelength :: ustring
  cl_EndpointID :: ustring
  cl_OperatorID :: ustring
  cl_StartTime :: ustring
  cl_EndTime :: ustring

record canonical_token =
  ct_Version :: i32
  ct_LeaseID :: ustring
  ct_OperatorID :: ustring
  ct_Wavelength :: "wavelength option"
  ct_EndpointID :: ustring
  ct_StartTime :: ustring
  ct_EndTime :: ustring
  ct_Nonce :: bytes

record canonical_commitment =
  cc_OperatorID :: ustring
  cc_RootHash :: bytes
  cc_Timestamp :: ustring
  cc_BlockHeight :: i64
  cc_LeaseCount :: i32

type_synonym private_key = nat
type_synonym public_key = nat

datatype pkix_key = EcdsaKey public_key | OtherKey

record flr_lib =
  sha3_256 :: "bytes \<Rightarrow> bytes"
  json_lease :: "canonical_lease \<Rightarrow> ustring + bytes"
  json_token :: "canonical_token \<Rightarrow> ustring + bytes"
  json_commitment :: "canonical_commitment \<Rightarrow> ustring + bytes"
  ecdsa_public :: "private_key \<Rightarrow> public_key"
  ecdsa_sign :: "private_key \<Rightarrow> bytes \<Rightarrow> nat \<Rightarrow> ustring + nat \<times> nat"
  ecdsa_verify :: "public_key \<Rightarrow> bytes \<Rightarrow> nat \<Rightarrow> nat \<Rightarrow> bool"
  marshal_pkix :: "public_key \<Rightarrow> ustring + bytes"
  parse_pkix :: "bytes \<Rightarrow> ustring + pkix_key"
  pem_encode :: "bytes \<Rightarrow> bytes"
  pem_decode :: "bytes \<Rightarrow> bytes option"

record crypto_engine =
  cr_operatorID :: ustring
  cr_privateKey :: "private_key option"

section \<open>Signatures and keys\<close>

definition marshalSignature :: "nat \<Rightarrow> nat \<Rightarrow> ustring + bytes" where
  "marshalSignature r s =
     (if r < 2 ^ 256 \<and> s < 2 ^ 256 then Inr (be_of_nat 32 r @ be_of_nat 32 s)
      else Inl (ulit ''panic: slice bounds out of range''))"

definition unmarshalSignature :: "bytes \<Rightarrow> ustring + nat \<times> nat" where
  "unmarshalSignature sig =
     (if length sig \<noteq> 64 then Inl (ulit ''invalid signature length: expected 64, got '' @ show_nat (length sig))
      else Inr (nat_of_be (take 32 sig), nat_of_be (drop 32 sig)))"

definition parsePublicKey :: "flr_lib \<Rightarrow> bytes \<Rightarrow> ustring + public_key" where
  "parsePublicKey lib pubKey =
     (if pubKey = [] then Inl (ulit ''empty public key'')
      else case pem_decode lib pubKey of
        Some block \<Rightarrow> try_bind (map_err (\<lambda>e. ulit ''failed to parse PEM public key: '' @ e) (parse_pkix lib block))
          (\<lambda>key. case key of EcdsaKey k \<Rightarrow> Inr k | OtherKey \<Rightarrow> Inl (ulit ''public key is not ECDSA''))
      | None \<Rightarrow> try_bind (map_err (\<lambda>e. ulit ''failed to parse public key: '' @ e) (parse_pkix lib pubKey))
          (\<lambda>key. case key of EcdsaKey k \<Rightarrow> Inr k | OtherKey \<Rightarrow> Inl (ulit ''public key is not ECDSA'')))"

definition GetPublicKey :: "flr_lib \<Rightarrow> crypto_engine \<Rightarrow> ustring + bytes" where
  "GetPublicKey lib e = (case cr_privateKey e of None \<Rightarrow> Inl (ulit ''no private key available'')
     | Some k \<Rightarrow> map_err (\<lambda>err. ulit ''failed to marshal public key: '' @ err)
         (try_bind (marshal_pkix lib (ecdsa_public lib k)) (\<lambda>der. Inr (pem_encode lib der))))"

text \<open>\<open>ecdsa.Sign\<close> of the SHA3 digest, as \<open>signToken\<close> and \<open>Sign\<close> have it; a nil key is a panic.\<close>

definition sign_digest :: "flr_lib \<Rightarrow> crypto_engine \<Rightarrow> bytes \<Rightarrow> nat \<Rightarrow> ustring + bytes" where
  "sign_digest lib e data draw = (case cr_privateKey e of None \<Rightarrow> Inl (ulit ''panic: nil pointer'')
     | Some k \<Rightarrow> try_bind (map_err (\<lambda>err. ulit ''ECDSA sign failed: '' @ err) (ecdsa_sign lib k (sha3_256 lib data) draw))
         (\<lambda>(r, s). marshalSignature r s))"

definition Sign :: "flr_lib \<Rightarrow> crypto_engine \<Rightarrow> bytes \<Rightarrow> nat \<Rightarrow> ustring + bytes" where
  "Sign lib e data draw =
     (if data = [] then Inl (ulit ''data to sign cannot be empty'') else sign_digest lib e data draw)"

definition Verify :: "flr_lib \<Rightarrow> bytes \<Rightarrow> bytes \<Rightarrow> bytes \<Rightarrow> ustring + unit" where
  "Verify lib pubKey data sig =
     (if pubKey = [] then Inl (ulit ''public key cannot be empty'')
      else if data = [] then Inl (ulit ''data cannot be empty'')
      else if sig = [] then Inl (ulit ''signature cannot be empty'')
      else try_bind (map_err (\<lambda>e. ulit ''failed to parse public key: '' @ e) (parsePublicKey lib pubKey)) (\<lambda>key.
        try_bind (map_err (\<lambda>e. ulit ''invalid signature format: '' @ e) (unmarshalSignature sig)) (\<lambda>(r, s).
          if \<not> ecdsa_verify lib key (sha3_256 lib data) r s then Inl (ulit ''signature verification failed'') else Inr ())))"

section \<open>Lease tokens\<close>

definition canonicalTokenFields :: "lease_token \<Rightarrow> canonical_token" where
  "canonicalTokenFields token = \<lparr>ct_Version = t_Version token, ct_LeaseID = t_LeaseID token, ct_OperatorID = t_OperatorID token,
     ct_Wavelength = t_Wavelength token, ct_EndpointID = t_EndpointID token, ct_StartTime = RFC3339Nano (t_StartTime token),
     ct_EndTime = RFC3339Nano (t_EndTime token), ct_Nonce = t_Nonce token\<rparr>"

definition signToken :: "flr_lib \<Rightarrow> crypto_engine \<Rightarrow> lease_token \<Rightarrow> nat \<Rightarrow> ustring + bytes" where
  "signToken lib e token draw =
     try_bind (map_err (\<lambda>err. ulit ''failed to marshal token fields: '' @ err) (json_token lib (canonicalTokenFields token)))
       (\<lambda>data. sign_digest lib e data draw)"

text \<open>\<open>nonce\<close> is what \<open>rand.Read\<close> gives, or its error.\<close>

definition GenerateLeaseToken ::
  "flr_lib \<Rightarrow> crypto_engine \<Rightarrow> lease \<Rightarrow> ustring + bytes \<Rightarrow> gotime \<Rightarrow> nat \<Rightarrow> ustring + lease_token" where
  "GenerateLeaseToken lib e l nonce now draw =
     try_bind (map_err (\<lambda>err. ulit ''failed to generate nonce: '' @ err) nonce) (\<lambda>nonce.
       let token = \<lparr>t_Version = 1, t_LeaseID = l_ID l, t_OperatorID = cr_operatorID e, t_Wavelength = l_Wavelength l,
             t_EndpointID = l_EndpointID l, t_StartTime = l_StartTime l, t_EndTime = l_EndTime l, t_Nonce = nonce,
             t_Signature = [], t_IssuedAt = now\<rparr>
       in try_bind (map_err (\<lambda>err. ulit ''failed to sign token: '' @ err) (signToken lib e token draw))
            (\<lambda>sig. Inr (token\<lparr>t_Signature := sig\<rparr>)))"

definition ValidateLeaseToken :: "flr_lib \<Rightarrow> gotime \<Rightarrow> lease_token option \<Rightarrow> bytes \<Rightarrow> ustring + unit" where
  "ValidateLeaseToken lib now token operatorPubKey =
     (case token of None \<Rightarrow> Inl (ulit ''token cannot be nil'')
      | Some token \<Rightarrow>
        if operatorPubKey = [] then Inl (ulit ''operator public key cannot be empty'')
        else if now > t_EndTime token then Inl (ulit ''token has expired'')
        else try_bind (map_err (\<lambda>e. ulit ''invalid public key: '' @ e) (parsePublicKey lib operatorPubKey)) (\<lambda>pubKey.
          try_bind (map_err (\<lambda>e. ulit ''failed to marshal token fields: '' @ e) (json_token lib (canonicalTokenFields token))) (\<lambda>data.
            try_bind (map_err (\<lambda>e. ulit ''invalid signature format: '' @ e) (unmarshalSignature (t_Signature token))) (\<lambda>(r, s).
              if \<not> ecdsa_verify lib pubKey (sha3_256 lib data) r s then Inl (ulit ''signature verification failed'') else Inr ()))))"

section \<open>Merkle commitments\<close>

definition commitment_fields :: "merkle_commitment \<Rightarrow> canonical_commitment" where
  "commitment_fields c = \<lparr>cc_OperatorID = mc_OperatorID c, cc_RootHash = mc_RootHash c,
     cc_Timestamp = RFC3339Nano (mc_Timestamp c), cc_BlockHeight = mc_BlockHeight c, cc_LeaseCount = mc_LeaseCount c\<rparr>"

definition SignMerkleCommitment ::
  "flr_lib \<Rightarrow> crypto_engine \<Rightarrow> bytes \<Rightarrow> i64 \<Rightarrow> gotime \<Rightarrow> nat \<Rightarrow> ustring + merkle_commitment" where
  "SignMerkleCommitment lib e rootHash blockHeight now draw =
     (if rootHash = [] then Inl (ulit ''root hash cannot be empty'')
      else let c = \<lparr>mc_OperatorID = cr_operatorID e, mc_RootHash = rootHash, mc_Timestamp = now, mc_Signature = [],
                    mc_LeaseCount = 0, mc_BlockHeight = blockHeight\<rparr>
      in try_bind (map_err (\<lambda>err. ulit ''failed to marshal commitment: '' @ err) (json_commitment lib (commitment_fields c))) (\<lambda>data.
           try_bind (map_err (\<lambda>err. ulit ''failed to sign commitment: '' @ err) (Sign lib e data draw)) (\<lambda>sig.
             Inr (c\<lparr>mc_Signature := sig\<rparr>))))"

definition VerifyMerkleCommitment :: "flr_lib \<Rightarrow> merkle_commitment option \<Rightarrow> bytes \<Rightarrow> ustring + unit" where
  "VerifyMerkleCommitment lib commitment pubKey =
     (case commitment of None \<Rightarrow> Inl (ulit ''commitment cannot be nil'')
      | Some c \<Rightarrow>
        if pubKey = [] then Inl (ulit ''public key cannot be empty'')
        else if mc_RootHash c = [] then Inl (ulit ''root hash cannot be empty'')
        else try_bind (map_err (\<lambda>e. ulit ''failed to marshal commitment: '' @ e) (json_commitment lib (commitment_fields c)))
          (\<lambda>data. Verify lib pubKey data (mc_Signature c)))"

section \<open>What is relied on\<close>

text \<open>A signature made with a key verifies under its public key; the encodings of public keys can be
  read back; the encoder writes at least the braces, and commitments that differ in the count
  only differ in their encoding.\<close>

definition ecdsa_correct :: "flr_lib \<Rightarrow> bool" where
  "ecdsa_correct lib \<longleftrightarrow> (\<forall>k d n r s. ecdsa_sign lib k d n = Inr (r, s)
     \<longrightarrow> r < 2 ^ 256 \<and> s < 2 ^ 256 \<and> ecdsa_verify lib (ecdsa_public lib k) d r s)"

definition keys_correct :: "flr_lib \<Rightarrow> bool" where
  "keys_correct lib \<longleftrightarrow> (\<forall>k. \<exists>der. marshal_pkix lib k = Inr der \<and> parse_pkix lib der = Inr (EcdsaKey k))
     \<and> (\<forall>der. pem_decode lib (pem_encode lib der) = Some der \<and> pem_encode lib der \<noteq> [])"

definition json_correct :: "flr_lib \<Rightarrow> bool" where
  "json_correct lib \<longleftrightarrow> (\<forall>c d. json_commitment lib c = Inr d \<longrightarrow> d \<noteq> [])
     \<and> (\<forall>c n d. json_commitment lib c = Inr d \<longrightarrow> json_commitment lib (c\<lparr>cc_LeaseCount := n\<rparr>) = Inr d \<longrightarrow> n = cc_LeaseCount c)"

lemma unmarshal_marshal:
  assumes "marshalSignature r s = Inr sig"
  shows "unmarshalSignature sig = Inr (r, s)" and "sig \<noteq> []"
proof -
  have b: "r < 256 ^ 32" "s < 256 ^ 32" and sig: "sig = be_of_nat 32 r @ be_of_nat 32 s"
    using assms by (auto simp: marshalSignature_def split: if_splits)
  have l: "length (be_of_nat 32 r) = 32" "length (be_of_nat 32 s) = 32" by (rule length_be_of_nat)+
  show "unmarshalSignature sig = Inr (r, s)"
    using b by (simp add: unmarshalSignature_def sig l nat_of_be_of_nat del: be_of_nat.simps)
  show "sig \<noteq> []" using l sig by (metis append_is_Nil_conv list.size(3) zero_neq_numeral)
qed

lemma parse_own_key:
  assumes "keys_correct lib" and "GetPublicKey lib e = Inr pk" and "cr_privateKey e = Some k"
  shows "parsePublicKey lib pk = Inr (ecdsa_public lib k)" and "pk \<noteq> []"
proof -
  obtain der where d: "marshal_pkix lib (ecdsa_public lib k) = Inr der" "parse_pkix lib der = Inr (EcdsaKey (ecdsa_public lib k))"
    and p: "pem_decode lib (pem_encode lib der) = Some der" "pem_encode lib der \<noteq> []"
    using assms(1) unfolding keys_correct_def by blast
  have "pk = pem_encode lib der" using assms(2,3) by (simp add: GetPublicKey_def d)
  with d p show "parsePublicKey lib pk = Inr (ecdsa_public lib k)" "pk \<noteq> []" by (simp_all add: parsePublicKey_def)
qed

lemma sign_digest_verify:
  assumes "ecdsa_correct lib" and "sign_digest lib e data draw = Inr sig"
  obtains k r s where "cr_privateKey e = Some k" "unmarshalSignature sig = Inr (r, s)" "sig \<noteq> []"
    "ecdsa_sign lib k (sha3_256 lib data) draw = Inr (r, s)" "ecdsa_verify lib (ecdsa_public lib k) (sha3_256 lib data) r s"
proof -
  from assms(2) obtain k r s where k: "cr_privateKey e = Some k" and s: "ecdsa_sign lib k (sha3_256 lib data) draw = Inr (r, s)"
    and m: "marshalSignature r s = Inr sig"
    unfolding sign_digest_def by (auto simp: res split: option.splits)
  show thesis
    using that [OF k unmarshal_marshal(1) [OF m] unmarshal_marshal(2) [OF m] s] assms(1) s by (auto simp: ecdsa_correct_def)
qed

lemma token_validates:
  assumes "ecdsa_correct lib" and "keys_correct lib" and "GenerateLeaseToken lib e l nonce now draw = Inr token"
    and "GetPublicKey lib e = Inr pk"
  shows "ValidateLeaseToken lib t (Some token) pk = (if t > l_EndTime l then Inl (ulit ''token has expired'') else Inr ())"
proof -
  from assms(3) obtain nc sig where nc: "nonce = Inr nc"
    and tk: "token = \<lparr>t_Version = 1, t_LeaseID = l_ID l, t_OperatorID = cr_operatorID e, t_Wavelength = l_Wavelength l,
             t_EndpointID = l_EndpointID l, t_StartTime = l_StartTime l, t_EndTime = l_EndTime l, t_Nonce = nc,
             t_Signature = sig, t_IssuedAt = now\<rparr>"
    and s: "signToken lib e (token\<lparr>t_Signature := []\<rparr>) draw = Inr sig"
    unfolding GenerateLeaseToken_def by (auto simp: res Let_def)
  have c: "canonicalTokenFields (token\<lparr>t_Signature := []\<rparr>) = canonicalTokenFields token"
    by (simp add: canonicalTokenFields_def)
  from s obtain data where d: "json_token lib (canonicalTokenFields token) = Inr data" and g: "sign_digest lib e data draw = Inr sig"
    unfolding signToken_def c by (auto simp: res)
  obtain k r q where k: "cr_privateKey e = Some k" "unmarshalSignature sig = Inr (r, q)"
    "ecdsa_verify lib (ecdsa_public lib k) (sha3_256 lib data) r q"
    by (rule sign_digest_verify [OF assms(1) g]) blast
  show ?thesis
    using parse_own_key [OF assms(2,4) k(1)] k(2,3) d by (simp add: ValidateLeaseToken_def tk)
qed

text \<open>A commitment is signed with a lease count of 0. With the count set to \<open>n\<close> afterwards, the verification
  asks whether that one signature is also one for the encoding with count \<open>n\<close>, which is the signed
  encoding only for \<open>n = 0\<close>.\<close>

lemma commitment_verifies:
  assumes "ecdsa_correct lib" and "keys_correct lib" and "json_correct lib"
    and "SignMerkleCommitment lib e rootHash h now draw = Inr c" and "GetPublicKey lib e = Inr pk"
    and "json_commitment lib (commitment_fields (c\<lparr>mc_LeaseCount := n\<rparr>)) = Inr data"
  obtains k data0 r q where "cr_privateKey e = Some k" and "json_commitment lib (commitment_fields c) = Inr data0"
    and "ecdsa_sign lib k (sha3_256 lib data0) draw = Inr (r, q)"
    and "is_ok (VerifyMerkleCommitment lib (Some (c\<lparr>mc_LeaseCount := n\<rparr>)) pk)
      \<longleftrightarrow> ecdsa_verify lib (ecdsa_public lib k) (sha3_256 lib data) r q"
    and "data = data0 \<longleftrightarrow> n = 0"
    and "ecdsa_verify lib (ecdsa_public lib k) (sha3_256 lib data0) r q"
proof -
  from assms(4) obtain data0 sig where r: "rootHash \<noteq> []" and c0: "mc_LeaseCount c = 0" "mc_RootHash c = rootHash" "mc_Signature c = sig"
    and d: "json_commitment lib (commitment_fields c) = Inr data0" and g: "sign_digest lib e data0 draw = Inr sig"
    unfolding SignMerkleCommitment_def Sign_def
    by (auto simp: res Let_def commitment_fields_def split: if_splits)
  obtain k r' q where k: "cr_privateKey e = Some k" "unmarshalSignature sig = Inr (r', q)" "sig \<noteq> []"
    "ecdsa_sign lib k (sha3_256 lib data0) draw = Inr (r', q)" "ecdsa_verify lib (ecdsa_public lib k) (sha3_256 lib data0) r' q"
    by (rule sign_digest_verify [OF assms(1) g])
  have e: "data \<noteq> []" using assms(3,6) by (auto simp: json_correct_def)
  have v: "is_ok (VerifyMerkleCommitment lib (Some (c\<lparr>mc_LeaseCount := n\<rparr>)) pk)
      \<longleftrightarrow> ecdsa_verify lib (ecdsa_public lib k) (sha3_256 lib data) r' q"
    using parse_own_key [OF assms(2,5) k(1)] k(2,3) e r by (simp add: VerifyMerkleCommitment_def Verify_def c0 assms(6))
  have "data = data0 \<longleftrightarrow> n = 0"
  proof
    have f: "commitment_fields (c\<lparr>mc_LeaseCount := n\<rparr>) = (commitment_fields c)\<lparr>cc_LeaseCount := n\<rparr>" "cc_LeaseCount (commitment_fields c) = 0"
      by (simp_all add: commitment_fields_def c0)
    show "n = 0" if "data = data0" using assms(3,6) d that f unfolding json_correct_def by metis
    assume "n = 0"
    then have "c\<lparr>mc_LeaseCount := n\<rparr> = c" using c0(1) by simp
    with assms(6) d show "data = data0" by simp
  qed
  from that [OF k(1) d k(4) v this k(5)] show thesis .
qed

end
