(* ===== verification/Merkle.thy ===== *)
theory Merkle
  imports FlrCrypto "HOL-Library.List_Lexorder"
begin

text \<open>
  The Merkle tree over leases of src/flr/internal/crypto/engine.go: construction, sibling paths and
  their verification, proofs of invalidity. A pair is hashed in the order of its bytes. Every
  lease of the tree has a path that verifies; conversely a path of full length that verifies
  starts at a leaf of the tree, unless it exhibits a collision of the hash function.
\<close>

section \<open>Construction\<close>

datatype merkle_node = MNode (mn_Hash: bytes) (mn_Left: "merkle_node option") (mn_Right: "merkle_node option")
  (mn_LeaseID: ustring) (mn_IsLeaf: bool)

definition GetLeaseHash :: "flr_lib \<Rightarrow> lease option \<Rightarrow> bytes" where
  "GetLeaseHash lib ol = (case ol of None \<Rightarrow> replicate 32 0
     | Some l \<Rightarrow> let wlKey = (case l_Wavelength l of None \<Rightarrow> [] | Some w \<Rightarrow> ToKey w)
         in case json_lease lib \<lparr>cl_ID = l_ID l, cl_Wavelength = wlKey, cl_EndpointID = l_EndpointID l,
                cl_OperatorID = l_OperatorID l, cl_StartTime = RFC3339Nano (l_StartTime l), cl_EndTime = RFC3339Nano (l_EndTime l)\<rparr> of
              Inl _ \<Rightarrow> sha3_256 lib [] | Inr data \<Rightarrow> sha3_256 lib data)"

text \<open>One level of the recursion; \<open>nodes[i+1]\<close> out of range is a panic, \<open>None\<close>.\<close>

fun merkle_parents :: "flr_lib \<Rightarrow> merkle_node list \<Rightarrow> merkle_node list option" where
  "merkle_parents lib [] = Some []"
| "merkle_parents lib [x] = None"
| "merkle_parents lib (left # right # rest) =
     (let combined = (if mn_Hash left \<le> mn_Hash right then mn_Hash left @ mn_Hash right else mn_Hash right @ mn_Hash left)
      in map_option (Cons (MNode (sha3_256 lib combined) (Some left) (Some right) [] False)) (merkle_parents lib rest))"

lemma merkle_parents_length: "merkle_parents lib ns = Some ps \<Longrightarrow> length ns = 2 * length ps"
  by (induction lib ns arbitrary: ps rule: merkle_parents.induct) (auto simp: Let_def)

text \<open>On no nodes the recursion of the source does not end; \<open>BuildMerkleTree\<close> never calls it so.\<close>

function buildMerkleTreeFromLeaves :: "flr_lib \<Rightarrow> merkle_node list \<Rightarrow> merkle_node option" where
  "buildMerkleTreeFromLeaves lib nodes =
     (if nodes = [] then None
      else if length nodes = 1 then Some (hd nodes)
      else case merkle_parents lib nodes of None \<Rightarrow> None | Some parents \<Rightarrow> buildMerkleTreeFromLeaves lib parents)"
  by pat_completeness auto

termination
proof (relation "measure (\<lambda>(lib, ns). length ns)")
  fix lib nodes ps
  assume "nodes \<noteq> []" "merkle_parents lib nodes = Some ps"
  then have "length nodes = 2 * length ps" "nodes \<noteq> []" by (simp_all add: merkle_parents_length)
  then show "((lib, ps), lib, nodes) \<in> measure (\<lambda>(lib, ns). length ns)" by (cases ps) simp_all
qed simp

declare buildMerkleTreeFromLeaves.simps [simp del]

definition lease_leaf :: "flr_lib \<Rightarrow> lease \<Rightarrow> merkle_node" where
  "lease_leaf lib l = MNode (GetLeaseHash lib (Some l)) None None (l_ID l) True"

definition zero_leaf :: merkle_node where
  "zero_leaf = MNode (replicate 32 0) None None [] True"

text \<open>\<open>targetCount\<close>: doubled from 1 until it is at least the number of leaves.\<close>

function target_count :: "nat \<Rightarrow> nat \<Rightarrow> nat" where
  "target_count n t = (if 0 < t \<and> t < n then target_count n (2 * t) else t)"
  by pat_completeness auto

termination
  by (relation "measure (\<lambda>(n, t). n - t)") auto

declare target_count.simps [simp del]

definition BuildMerkleTree :: "flr_lib \<Rightarrow> lease list \<Rightarrow> merkle_node option" where
  "BuildMerkleTree lib leases =
     (if leases = [] then Some zero_leaf
      else let leaves = map (lease_leaf lib) (sort_key l_ID leases);
               targetCount = target_count (length leaves) 1
      in buildMerkleTreeFromLeaves lib (leaves @ replicate (targetCount - length leaves) zero_leaf))"

section \<open>Paths\<close>

fun merkle_climb :: "flr_lib \<Rightarrow> bytes \<Rightarrow> bytes list \<Rightarrow> bytes option" where
  "merkle_climb lib hash [] = Some hash"
| "merkle_climb lib hash (sibling # proof) =
     (if sibling = [] then None
      else if hash < sibling then merkle_climb lib (sha3_256 lib (hash @ sibling)) proof
      else merkle_climb lib (sha3_256 lib (sibling @ hash)) proof)"

definition VerifyMerkleProof :: "flr_lib \<Rightarrow> bytes \<Rightarrow> bytes \<Rightarrow> bytes list \<Rightarrow> bool" where
  "VerifyMerkleProof lib leafHash rootHash proof =
     (if leafHash = [] \<or> rootHash = [] then False else merkle_climb lib leafHash proof = Some rootHash)"

fun findMerkleProof :: "merkle_node \<Rightarrow> bytes \<Rightarrow> bytes list option" where
  "findMerkleProof (MNode h l r i leaf) leafHash =
     (if leaf then if h = leafHash then Some [] else None
      else case (case l of None \<Rightarrow> None | Some n \<Rightarrow> findMerkleProof n leafHash) of
        Some p \<Rightarrow> Some (p @ [case r of Some n \<Rightarrow> mn_Hash n | None \<Rightarrow> replicate 32 0])
      | None \<Rightarrow> (case (case r of None \<Rightarrow> None | Some n \<Rightarrow> findMerkleProof n leafHash) of
          Some p \<Rightarrow> Some (p @ [case l of Some n \<Rightarrow> mn_Hash n | None \<Rightarrow> replicate 32 0])
        | None \<Rightarrow> None))"

section \<open>Proofs of invalidity\<close>

definition InvalidityUnspecified :: i32 where "InvalidityUnspecified = 0"
definition InvalidityDoubleAllocation :: i32 where "InvalidityDoubleAllocation = 1"

record proof_of_invalidity =
  poi_Type :: i32
  poi_LeaseA :: "lease option"
  poi_LeaseB :: "lease option"
  poi_Commitment :: "merkle_commitment option"
  poi_MerkleProof :: "bytes list"
  poi_Timestamp :: gotime

text \<open>The times are those of \<open>SignMerkleCommitment\<close> and of the proof itself.\<close>

definition GenerateProofOfInvalidity :: "flr_lib \<Rightarrow> crypto_engine \<Rightarrow> i32 \<Rightarrow> lease option \<Rightarrow> lease option \<Rightarrow> merkle_node option
    \<Rightarrow> gotime \<Rightarrow> nat \<Rightarrow> gotime \<Rightarrow> ustring + proof_of_invalidity" where
  "GenerateProofOfInvalidity lib e invType leaseA leaseB tree t1 draw t2 =
     (if invType = InvalidityUnspecified then Inl (ulit ''invalidity type cannot be unspecified'')
      else if leaseA = None then Inl (ulit ''lease A cannot be nil'')
      else case tree of None \<Rightarrow> Inl (ulit ''merkle tree cannot be nil'')
      | Some tree \<Rightarrow>
        let leafHash = GetLeaseHash lib leaseA; proof = findMerkleProof tree leafHash
        in try_bind (map_err (\<lambda>err. ulit ''failed to sign commitment for proof: '' @ err)
             (SignMerkleCommitment lib e (mn_Hash tree) 0 t1 draw)) (\<lambda>commitment.
           Inr \<lparr>poi_Type = invType, poi_LeaseA = leaseA, poi_LeaseB = leaseB, poi_Commitment = Some commitment,
                poi_MerkleProof = (case proof of None \<Rightarrow> [] | Some p \<Rightarrow> p), poi_Timestamp = t2\<rparr>))"

definition VerifyProofOfInvalidity :: "flr_lib \<Rightarrow> proof_of_invalidity option \<Rightarrow> bytes \<Rightarrow> bool" where
  "VerifyProofOfInvalidity lib poi rootHash =
     (case poi of None \<Rightarrow> False
      | Some poi \<Rightarrow>
        if poi_Commitment poi = None then False
        else let leafHash = GetLeaseHash lib (poi_LeaseA poi)
        in if leafHash = [] then False
           else if \<not> VerifyMerkleProof lib leafHash rootHash (poi_MerkleProof poi) then False else True)"

section \<open>Shape of the tree\<close>

definition sorted_pair :: "bytes \<Rightarrow> bytes \<Rightarrow> bytes" where
  "sorted_pair a b = (if a \<le> b then a @ b else b @ a)"

fun merkle_ok :: "flr_lib \<Rightarrow> nat \<Rightarrow> merkle_node \<Rightarrow> bool" where
  "merkle_ok lib 0 n = (mn_IsLeaf n \<and> mn_Left n = None \<and> mn_Right n = None \<and> length (mn_Hash n) = 32)"
| "merkle_ok lib (Suc d) n = (\<not> mn_IsLeaf n \<and> (case (mn_Left n, mn_Right n) of
      (Some a, Some b) \<Rightarrow> mn_Hash n = sha3_256 lib (sorted_pair (mn_Hash a) (mn_Hash b)) \<and> merkle_ok lib d a \<and> merkle_ok lib d b
    | _ \<Rightarrow> False))"

fun merkle_leaves :: "merkle_node \<Rightarrow> merkle_node list" where
  "merkle_leaves (MNode h l r i leaf) = (if leaf then [MNode h l r i leaf]
     else (case l of None \<Rightarrow> [] | Some n \<Rightarrow> merkle_leaves n) @ (case r of None \<Rightarrow> [] | Some n \<Rightarrow> merkle_leaves n))"

text \<open>What is hashed in a tree, and on the way up a path.\<close>

fun tree_inputs :: "merkle_node \<Rightarrow> bytes list" where
  "tree_inputs (MNode h (Some a) (Some b) i leaf) = sorted_pair (mn_Hash a) (mn_Hash b) # tree_inputs a @ tree_inputs b"
| "tree_inputs _ = []"

fun path_inputs :: "flr_lib \<Rightarrow> bytes \<Rightarrow> bytes list \<Rightarrow> bytes list" where
  "path_inputs lib h [] = []"
| "path_inputs lib h (s # p) = sorted_pair h s # path_inputs lib (sha3_256 lib (sorted_pair h s)) p"

lemma merkle_ok_Suc:
  "merkle_ok lib (Suc d) n \<longleftrightarrow> (\<exists>a b i. n = MNode (sha3_256 lib (sorted_pair (mn_Hash a) (mn_Hash b))) (Some a) (Some b) i False
     \<and> merkle_ok lib d a \<and> merkle_ok lib d b)"
  by (cases n) (auto split: option.splits)

declare merkle_ok.simps(2) [simp del]

lemma merkle_parents_ok:
  assumes "length ns = 2 * m" and "list_all (merkle_ok lib d) ns"
  shows "\<exists>ps. merkle_parents lib ns = Some ps \<and> length ps = m \<and> list_all (merkle_ok lib (Suc d)) ps
    \<and> concat (map merkle_leaves ps) = concat (map merkle_leaves ns)"
  using assms
proof (induction lib ns arbitrary: m rule: merkle_parents.induct)
  case (3 lib x y rest)
  then obtain m' where m: "m = Suc m'" "length rest = 2 * m'" by (cases m) auto
  then obtain ps where "merkle_parents lib rest = Some ps" "length ps = m'" "list_all (merkle_ok lib (Suc d)) ps"
    "concat (map merkle_leaves ps) = concat (map merkle_leaves rest)" using 3 by fastforce
  with 3 m show ?case by (simp add: Let_def sorted_pair_def merkle_ok.simps(2))
qed auto

lemma build_ok:
  assumes "length ns = 2 ^ k" and "list_all (merkle_ok lib d) ns"
  shows "\<exists>t. buildMerkleTreeFromLeaves lib ns = Some t \<and> merkle_ok lib (d + k) t \<and> merkle_leaves t = concat (map merkle_leaves ns)"
  using assms
proof (induction k arbitrary: ns d)
  case 0
  then obtain x where "ns = [x]" by (auto simp: length_Suc_conv)
  with 0 show ?case by (simp add: buildMerkleTreeFromLeaves.simps)
next
  case (Suc k)
  then obtain ps where p: "merkle_parents lib ns = Some ps" "length ps = 2 ^ k" "list_all (merkle_ok lib (Suc d)) ps"
    "concat (map merkle_leaves ps) = concat (map merkle_leaves ns)"
    using merkle_parents_ok [of ns "2 ^ k" lib d] by auto
  have "length ns \<noteq> 1" "ns \<noteq> []" using Suc.prems(1) by auto
  with Suc.IH [OF p(2,3)] p(1,4) show ?case by (subst buildMerkleTreeFromLeaves.simps) simp
qed

lemma target_count_power: "\<exists>k. target_count n (2 ^ j) = 2 ^ k \<and> n \<le> 2 ^ k"
proof (induction "n - 2 ^ j" arbitrary: j rule: less_induct)
  case less
  show ?case
  proof (cases "2 ^ j < n")
    case True
    then have "n - 2 ^ Suc j < n - 2 ^ j" by (simp add: diff_less_mono2)
    from less [OF this] True show ?thesis by (subst target_count.simps) simp
  next
    case False
    then show ?thesis by (subst target_count.simps) (auto intro: exI [of _ j])
  qed
qed

definition sha3_sized :: "flr_lib \<Rightarrow> bool" where
  "sha3_sized lib \<longleftrightarrow> (\<forall>x. length (sha3_256 lib x) = 32)"

lemma lease_hash_length: "sha3_sized lib \<Longrightarrow> length (GetLeaseHash lib ol) = 32"
  by (auto simp: GetLeaseHash_def sha3_sized_def Let_def split: option.splits sum.splits)

lemma merkle_tree_shape:
  assumes "sha3_sized lib"
  obtains t d where "BuildMerkleTree lib leases = Some t" "merkle_ok lib d t" "2 ^ d = target_count (length leases) 1"
    "set (merkle_leaves t) \<subseteq> insert zero_leaf (lease_leaf lib ` set leases)" "lease_leaf lib ` set leases \<subseteq> set (merkle_leaves t)"
    "length leases < target_count (length leases) 1 \<longrightarrow> zero_leaf \<in> set (merkle_leaves t)"
proof (cases "leases = []")
  case True
  then show ?thesis by (intro that [of zero_leaf 0]) (simp_all add: BuildMerkleTree_def zero_leaf_def target_count.simps)
next
  case False
  define leaves where "leaves = map (lease_leaf lib) (sort_key l_ID leases)"
  define ns where "ns = leaves @ replicate (target_count (length leaves) 1 - length leaves) zero_leaf"
  obtain k where k: "target_count (length leaves) 1 = 2 ^ k" "length leaves \<le> 2 ^ k"
    using target_count_power [of "length leaves" 0] by auto
  have l: "length ns = 2 ^ k" using k by (simp add: ns_def)
  have z: "merkle_ok lib 0 zero_leaf" "merkle_leaves zero_leaf = [zero_leaf]" by (simp_all add: zero_leaf_def)
  have s: "merkle_ok lib 0 (lease_leaf lib x)" "merkle_leaves (lease_leaf lib x) = [lease_leaf lib x]" for x
    using lease_hash_length [OF assms] by (simp_all add: lease_leaf_def)
  have "list_all (merkle_ok lib 0) ns" using z s by (auto simp: ns_def leaves_def list_all_iff)
  from build_ok [OF l this] obtain t where t: "buildMerkleTreeFromLeaves lib ns = Some t" "merkle_ok lib k t"
    "merkle_leaves t = concat (map merkle_leaves ns)" by auto
  have "set (merkle_leaves t) = set ns" using z s unfolding t(3) by (auto simp: ns_def leaves_def)
  moreover have "set ns \<subseteq> insert zero_leaf (lease_leaf lib ` set leases)" "lease_leaf lib ` set leases \<subseteq> set ns"
    "length leases < target_count (length leases) 1 \<longrightarrow> zero_leaf \<in> set ns"
    by (auto simp: ns_def leaves_def)
  moreover have "2 ^ k = target_count (length leases) 1" using k by (simp add: leaves_def)
  moreover have "BuildMerkleTree lib leases = Some t"
    using False t(1) by (simp add: BuildMerkleTree_def ns_def leaves_def Let_def)
  ultimately show ?thesis using that t(2) by metis
qed

section \<open>Paths verify\<close>

lemma sorted_pair_commute: "sorted_pair a b = sorted_pair b a"
  by (auto simp: sorted_pair_def)

lemma climb_step: "s \<noteq> [] \<Longrightarrow> merkle_climb lib h (s # p) = merkle_climb lib (sha3_256 lib (sorted_pair h s)) p"
  by (auto simp: sorted_pair_def not_less)

lemma climb_append: "merkle_climb lib h (p @ [s]) = (case merkle_climb lib h p of None \<Rightarrow> None
    | Some h' \<Rightarrow> if s = [] then None else Some (sha3_256 lib (sorted_pair h' s)))"
  by (induction lib h p rule: merkle_climb.induct) (auto simp: sorted_pair_def not_less)

lemma merkle_ok_hash: "sha3_sized lib \<Longrightarrow> merkle_ok lib d n \<Longrightarrow> length (mn_Hash n) = 32"
  by (cases d) (auto simp: merkle_ok_Suc sha3_sized_def)

lemma find_leaf: "findMerkleProof n h = Some p \<Longrightarrow> h \<in> mn_Hash ` set (merkle_leaves n)"
  by (induction n h arbitrary: p rule: findMerkleProof.induct) (fastforce split: if_splits option.splits)

lemma find_path:
  assumes "sha3_sized lib" and "merkle_ok lib d n" and "h \<in> mn_Hash ` set (merkle_leaves n)"
  shows "\<exists>p. findMerkleProof n h = Some p \<and> length p = d \<and> merkle_climb lib h p = Some (mn_Hash n)"
  using assms(2,3)
proof (induction d arbitrary: n)
  case 0
  then show ?case by (cases n) auto
next
  case (Suc d)
  then obtain a b i where n: "n = MNode (sha3_256 lib (sorted_pair (mn_Hash a) (mn_Hash b))) (Some a) (Some b) i False"
    and ok: "merkle_ok lib d a" "merkle_ok lib d b" by (auto simp: merkle_ok_Suc)
  have ne: "mn_Hash a \<noteq> []" "mn_Hash b \<noteq> []" using merkle_ok_hash [OF assms(1)] ok by fastforce+
  show ?case
  proof (cases "h \<in> mn_Hash ` set (merkle_leaves a)")
    case True
    from Suc.IH [OF ok(1) this] ne show ?thesis by (auto simp: n climb_append)
  next
    case False
    with Suc.prems(2) have "h \<in> mn_Hash ` set (merkle_leaves b)" by (auto simp: n)
    from Suc.IH [OF ok(2) this] obtain q where q: "findMerkleProof b h = Some q" "length q = d" "merkle_climb lib h q = Some (mn_Hash b)" by blast
    have "findMerkleProof a h = None" using False find_leaf by (metis not_None_eq)
    with q ne show ?thesis by (auto simp: n climb_append sorted_pair_commute)
  qed
qed

section \<open>Only leaves have paths\<close>

lemma climb_length:
  assumes "sha3_sized lib" and "length h = 32" and "merkle_climb lib h p = Some h'"
  shows "length h' = 32"
proof (cases p rule: rev_cases)
  case Nil
  with assms show ?thesis by simp
next
  case (snoc q s)
  with assms show ?thesis by (auto simp: climb_append sha3_sized_def split: option.splits if_splits)
qed

lemma path_inputs_append:
  "merkle_climb lib h p = Some h' \<Longrightarrow> path_inputs lib h (p @ [s]) = path_inputs lib h p @ [sorted_pair h' s]"
proof (induction p arbitrary: h)
  case (Cons x p)
  then have "x \<noteq> []" by auto
  with Cons show ?case by (simp add: climb_step del: merkle_climb.simps)
qed simp

lemma sorted_pair_parts:
  assumes "sorted_pair h s = sorted_pair a b" and "length h = 32" and "length a = 32" and "length b = 32"
  shows "h = a \<or> h = b"
proof -
  have l: "length s = 32" using arg_cong [OF assms(1), of length] assms(2-4) by (simp add: sorted_pair_def split: if_splits)
  show ?thesis using assms l by (auto simp: sorted_pair_def split: if_splits)
qed

lemma path_sound:
  assumes sz: "sha3_sized lib" and "merkle_ok lib d n" and "merkle_climb lib h p = Some (mn_Hash n)" and "length p = d" and h: "length h = 32"
  shows "h \<in> mn_Hash ` set (merkle_leaves n)
    \<or> (\<exists>x \<in> set (path_inputs lib h p). \<exists>y \<in> set (tree_inputs n). x \<noteq> y \<and> sha3_256 lib x = sha3_256 lib y)"
  using assms(2-4)
proof (induction d arbitrary: n p)
  case 0
  then show ?case by (cases n) auto
next
  case (Suc d)
  then obtain a b i where n: "n = MNode (sha3_256 lib (sorted_pair (mn_Hash a) (mn_Hash b))) (Some a) (Some b) i False"
    and ok: "merkle_ok lib d a" "merkle_ok lib d b" by (auto simp: merkle_ok_Suc)
  obtain q s where p: "p = q @ [s]" "length q = d" using Suc.prems(3) by (cases p rule: rev_cases) auto
  then obtain h' where q: "merkle_climb lib h q = Some h'" and e: "sha3_256 lib (sorted_pair h' s) = sha3_256 lib (sorted_pair (mn_Hash a) (mn_Hash b))"
    using Suc.prems(2) by (auto simp: climb_append n split: option.splits if_splits)
  note i = path_inputs_append [OF q, of s]
  show ?case
  proof (cases "sorted_pair h' s = sorted_pair (mn_Hash a) (mn_Hash b)")
    case True
    with sorted_pair_parts climb_length [OF sz h q] merkle_ok_hash [OF sz] ok have "h' = mn_Hash a \<or> h' = mn_Hash b" by metis
    with Suc.IH [OF ok(1) _ p(2)] Suc.IH [OF ok(2) _ p(2)] q show ?thesis unfolding p(1) i by (fastforce simp: n)
  next
    case False
    with e show ?thesis unfolding p(1) i by (auto simp: n)
  qed
qed

text \<open>(C13) Merkle proofs of the registry. The tree over any set of leases is built without a panic; each
  of its leases has a path that verifies against the root, and the proof of invalidity generated for
  it is accepted. Conversely, when a path as long as the tree is high verifies for a lease, then the
  hash of that lease is the hash of a lease of the tree, or the zero padding, or two different
  inputs with the same SHA3 value appear among those hashed on the path and in the tree.\<close>

theorem merkle_membership:
  assumes "sha3_sized lib"
  shows "\<exists>t. BuildMerkleTree lib leases = Some t
    \<and> (\<forall>l \<in> set leases. (\<exists>p. findMerkleProof t (GetLeaseHash lib (Some l)) = Some p
          \<and> VerifyMerkleProof lib (GetLeaseHash lib (Some l)) (mn_Hash t) p)
        \<and> (\<forall>e ty lb t1 dr t2 poi. GenerateProofOfInvalidity lib e ty (Some l) lb (Some t) t1 dr t2 = Inr poi
             \<longrightarrow> VerifyProofOfInvalidity lib (Some poi) (mn_Hash t)))
    \<and> (\<forall>ol p. VerifyMerkleProof lib (GetLeaseHash lib ol) (mn_Hash t) p \<longrightarrow> 2 ^ length p = target_count (length leases) 1 \<longrightarrow>
          GetLeaseHash lib ol \<in> insert (replicate 32 0) (GetLeaseHash lib ` Some ` set leases)
        \<or> (\<exists>x \<in> set (path_inputs lib (GetLeaseHash lib ol) p). \<exists>y \<in> set (tree_inputs t). x \<noteq> y \<and> sha3_256 lib x = sha3_256 lib y))"
proof -
  obtain t d where t: "BuildMerkleTree lib leases = Some t" and ok: "merkle_ok lib d t" and d: "2 ^ d = target_count (length leases) 1"
    and lv: "set (merkle_leaves t) \<subseteq> insert zero_leaf (lease_leaf lib ` set leases)" "lease_leaf lib ` set leases \<subseteq> set (merkle_leaves t)"
    by (rule merkle_tree_shape [OF assms])
  have ne: "GetLeaseHash lib ol \<noteq> []" "mn_Hash t \<noteq> []" for ol
    using lease_hash_length [OF assms, of ol] merkle_ok_hash [OF assms ok] by fastforce+
  have path: "\<exists>p. findMerkleProof t (GetLeaseHash lib (Some l)) = Some p \<and> VerifyMerkleProof lib (GetLeaseHash lib (Some l)) (mn_Hash t) p"
    if "l \<in> set leases" for l
  proof -
    have "lease_leaf lib l \<in> set (merkle_leaves t)" using lv(2) that by blast
    then have "GetLeaseHash lib (Some l) \<in> mn_Hash ` set (merkle_leaves t)" by (force simp: lease_leaf_def)
    from find_path [OF assms ok this] ne show ?thesis by (auto simp: VerifyMerkleProof_def)
  qed
  have poi: "VerifyProofOfInvalidity lib (Some poi) (mn_Hash t)"
    if "l \<in> set leases" "GenerateProofOfInvalidity lib e ty (Some l) lb (Some t) t1 dr t2 = Inr poi" for l e ty lb t1 dr t2 poi
    using path [OF that(1)] that(2) ne
    by (auto simp: GenerateProofOfInvalidity_def VerifyProofOfInvalidity_def Let_def res split: if_splits)
  have sound: "GetLeaseHash lib ol \<in> insert (replicate 32 0) (GetLeaseHash lib ` Some ` set leases)
        \<or> (\<exists>x \<in> set (path_inputs lib (GetLeaseHash lib ol) p). \<exists>y \<in> set (tree_inputs t). x \<noteq> y \<and> sha3_256 lib x = sha3_256 lib y)"
    if "VerifyMerkleProof lib (GetLeaseHash lib ol) (mn_Hash t) p" "2 ^ length p = target_count (length leases) 1" for ol p
  proof -
    have "length p = d" using that(2) d by (metis one_less_numeral_iff power_inject_exp semiring_norm(76))
    moreover have "merkle_climb lib (GetLeaseHash lib ol) p = Some (mn_Hash t)"
      using that(1) by (simp add: VerifyMerkleProof_def split: if_splits)
    moreover have "mn_Hash ` set (merkle_leaves t) \<subseteq> insert (replicate 32 0) (GetLeaseHash lib ` Some ` set leases)"
      using lv(1) by (force simp: zero_leaf_def lease_leaf_def)
    ultimately show ?thesis using path_sound [OF assms ok] lease_hash_length [OF assms] by blast
  qed
  show ?thesis using t path poi sound by blast
qed

text \<open>(C40) A proof of invalidity that accuses no lease at all is accepted against every tree whose number
  of leases is not a power of two: the missing lease hashes to the 32 zero bytes of the padding.\<close>

theorem nil_lease_proof_accepted:
  assumes "sha3_sized lib" and "length leases < target_count (length leases) 1"
  shows "\<exists>t p. BuildMerkleTree lib leases = Some t \<and> VerifyProofOfInvalidity lib
    (Some \<lparr>poi_Type = ty, poi_LeaseA = None, poi_LeaseB = None, poi_Commitment = Some c, poi_MerkleProof = p, poi_Timestamp = now\<rparr>)
    (mn_Hash t)"
proof -
  obtain t d where t: "BuildMerkleTree lib leases = Some t" and ok: "merkle_ok lib d t" and z: "zero_leaf \<in> set (merkle_leaves t)"
    by (rule merkle_tree_shape [OF assms(1), of leases]) (use assms(2) in blast)
  then have "replicate 32 0 \<in> mn_Hash ` set (merkle_leaves t)" by (force simp: zero_leaf_def)
  from find_path [OF assms(1) ok this] obtain p where "merkle_climb lib (replicate 32 0) p = Some (mn_Hash t)" by blast
  moreover have "mn_Hash t \<noteq> []" using merkle_ok_hash [OF assms(1) ok] by fastforce
  ultimately show ?thesis using t
    by (intro exI [of _ t] exI [of _ p]) (simp add: VerifyProofOfInvalidity_def VerifyMerkleProof_def GetLeaseHash_def)
qed

end
