(* ===== verification/LeaseStore.thy ===== *)
theory LeaseStore
  imports Merkle
begin

text \<open>
  The persistence of the registry, src/flr/internal/registry/store.go and badger_store.go. The
  key-value database is an argument, \<open>badger\<close>: lookup, update and iteration in byte order of the
  keys, with what its documentation promises in \<open>badger_ok\<close>. Values are kept decoded; encoding
  fails exactly on floats that are not finite and years outside 0 to 9999. A transaction can
  fail, as \<open>rg_io\<close> says; \<open>time.Now()\<close> reads the next value of a clock.
\<close>

section \<open>State, effects and parameters\<close>

record endpoint =
  ep_ID :: ustring
  ep_NodeID :: ustring
  ep_OperatorID :: ustring
  ep_Address :: ustring
  ep_AWGPort :: i32
  ep_Coordinates :: "(fp \<times> fp) option"
  ep_Status :: i32
  ep_CreatedAt :: gotime

datatype db_value = VLease lease | VEndpoint endpoint | VOperator operator | VCommitment merkle_commitment | VAudit audit_log_entry

record 'db badger =
  kv_get :: "'db \<Rightarrow> ustring \<Rightarrow> db_value option"
  kv_set :: "'db \<Rightarrow> ustring \<Rightarrow> db_value \<Rightarrow> 'db"
  kv_delete :: "'db \<Rightarrow> ustring \<Rightarrow> 'db"
  kv_seek :: "'db \<Rightarrow> ustring \<Rightarrow> (ustring \<times> db_value) list"

definition badger_ok :: "'db badger \<Rightarrow> bool" where
  "badger_ok bd \<longleftrightarrow>
     (\<forall>db k v. kv_get bd (kv_set bd db k v) = (kv_get bd db)(k \<mapsto> v))
   \<and> (\<forall>db k. kv_get bd (kv_delete bd db k) = (kv_get bd db)(k := None))
   \<and> (\<forall>db k. sorted_wrt (<) (map fst (kv_seek bd db k)))
   \<and> (\<forall>db k. set (kv_seek bd db k) = {(k', v). k \<le> k' \<and> kv_get bd db k' = Some v})"

record 'db registry =
  rg_db :: 'db
  rg_blockHeight :: i64
  rg_ticks :: nat
  rg_draws :: nat
  rg_io :: "bool list"

record 'db reg_env =
  re_bd :: "'db badger"
  re_lib :: flr_lib
  re_json_audit :: "audit_log_entry \<Rightarrow> ustring + bytes"
  re_crypto :: crypto_engine
  re_operatorID :: ustring
  re_clock :: "nat \<Rightarrow> gotime"
  re_uuid :: "nat \<Rightarrow> ustring"
  re_nonce :: "nat \<Rightarrow> ustring + bytes"

type_synonym ('db, 'a) act = "'db registry \<Rightarrow> (ustring + 'a) \<times> 'db registry"

definition act_ok :: "'a \<Rightarrow> ('db, 'a) act" where
  "act_ok v = (\<lambda>s. (Inr v, s))"

definition act_fail :: "ustring \<Rightarrow> ('db, 'a) act" where
  "act_fail e = (\<lambda>s. (Inl e, s))"

definition act_bind :: "('db, 'a) act \<Rightarrow> ('a \<Rightarrow> ('db, 'b) act) \<Rightarrow> ('db, 'b) act" where
  "act_bind m f = (\<lambda>s. case m s of (Inl e, s') \<Rightarrow> (Inl e, s') | (Inr v, s') \<Rightarrow> f v s')"

definition act_err :: "(ustring \<Rightarrow> ustring) \<Rightarrow> ('db, 'a) act \<Rightarrow> ('db, 'a) act" where
  "act_err f m = (\<lambda>s. case m s of (r, s') \<Rightarrow> (map_err f r, s'))"

text \<open>An error that is dropped, \<open>_ = err\<close>, and a result computed without effects.\<close>

definition act_ignore :: "('db, 'a) act \<Rightarrow> ('db, unit) act" where
  "act_ignore m = (\<lambda>s. (Inr (), snd (m s)))"

definition act_lift :: "ustring + 'a \<Rightarrow> ('db, 'a) act" where
  "act_lift r = (\<lambda>s. (r, s))"

definition act_now :: "'db reg_env \<Rightarrow> ('db, gotime) act" where
  "act_now env = (\<lambda>s. (Inr (re_clock env (rg_ticks s)), s\<lparr>rg_ticks := Suc (rg_ticks s)\<rparr>))"

definition act_draw :: "('db, nat) act" where
  "act_draw = (\<lambda>s. (Inr (rg_draws s), s\<lparr>rg_draws := Suc (rg_draws s)\<rparr>))"

text \<open>The start of \<open>db.View\<close> and \<open>db.Update\<close>: the transaction may fail; and access to the data.\<close>

definition act_txn :: "('db, unit) act" where
  "act_txn = (\<lambda>s. case rg_io s of [] \<Rightarrow> (Inr (), s)
     | bad # io \<Rightarrow> (if bad then Inl (ulit ''transaction failed'') else Inr (), s\<lparr>rg_io := io\<rparr>))"

definition act_get :: "'db reg_env \<Rightarrow> ustring \<Rightarrow> ('db, db_value option) act" where
  "act_get env k = (\<lambda>s. (Inr (kv_get (re_bd env) (rg_db s) k), s))"

definition act_set :: "'db reg_env \<Rightarrow> ustring \<Rightarrow> db_value \<Rightarrow> ('db, unit) act" where
  "act_set env k v = (\<lambda>s. (Inr (), s\<lparr>rg_db := kv_set (re_bd env) (rg_db s) k v\<rparr>))"

definition act_delete :: "'db reg_env \<Rightarrow> ustring \<Rightarrow> ('db, unit) act" where
  "act_delete env k = (\<lambda>s. (Inr (), s\<lparr>rg_db := kv_delete (re_bd env) (rg_db s) k\<rparr>))"

definition act_seek :: "'db reg_env \<Rightarrow> ustring \<Rightarrow> ('db, (ustring \<times> db_value) list) act" where
  "act_seek env k = (\<lambda>s. (Inr (kv_seek (re_bd env) (rg_db s) k), s))"

section \<open>Encoding\<close>

definition year_ok :: "gotime \<Rightarrow> bool" where
  "year_ok t = (case civil (t div 86400000000000) of (y, _, _) \<Rightarrow> 0 \<le> y \<and> y \<le> 9999)"

definition wavelength_json_ok :: "wavelength option \<Rightarrow> bool" where
  "wavelength_json_ok ow = (case ow of None \<Rightarrow> True
     | Some w \<Rightarrow> (case wl_LambdaNm w of FNum _ _ _ \<Rightarrow> True | _ \<Rightarrow> False) \<and> (case wl_GridGHz w of FNum _ _ _ \<Rightarrow> True | _ \<Rightarrow> False))"

definition lease_json_ok :: "lease \<Rightarrow> bool" where
  "lease_json_ok l \<longleftrightarrow> wavelength_json_ok (l_Wavelength l) \<and> year_ok (l_StartTime l) \<and> year_ok (l_EndTime l)
     \<and> year_ok (l_CreatedAt l) \<and> year_ok (l_UpdatedAt l)"

definition marshal :: "ustring \<Rightarrow> bool \<Rightarrow> ('db, unit) act" where
  "marshal what ok = (if ok then act_ok () else act_fail (ulit ''failed to marshal '' @ what))"

section \<open>Leases\<close>

definition prefixLease :: ustring where "prefixLease = ulit ''lease:''"
definition prefixEndpoint :: ustring where "prefixEndpoint = ulit ''endpoint:''"
definition prefixOperator :: ustring where "prefixOperator = ulit ''operator:''"
definition prefixCommitment :: ustring where "prefixCommitment = ulit ''commitment:''"
definition prefixAudit :: ustring where "prefixAudit = ulit ''audit:''"

definition CreateLease :: "'db reg_env \<Rightarrow> lease \<Rightarrow> ('db, unit) act" where
  "CreateLease env l =
     (if l_ID l = [] then act_fail (ulit ''lease ID cannot be empty'')
      else let key = prefixLease @ l_ID l
      in act_bind act_txn (\<lambda>_. act_bind (act_get env key) (\<lambda>r. case r of
           Some _ \<Rightarrow> act_fail (ulit ''lease already exists: '' @ l_ID l)
         | None \<Rightarrow> act_bind (marshal (ulit ''lease'') (lease_json_ok l)) (\<lambda>_. act_set env key (VLease l)))))"

definition GetLease :: "'db reg_env \<Rightarrow> ustring \<Rightarrow> ('db, lease) act" where
  "GetLease env i =
     (if i = [] then act_fail (ulit ''lease ID cannot be empty'')
      else let key = prefixLease @ i
      in act_bind act_txn (\<lambda>_. act_bind (act_get env key) (\<lambda>r. case r of
           None \<Rightarrow> act_fail (ulit ''lease not found: '' @ i)
         | Some (VLease l) \<Rightarrow> act_ok l
         | Some _ \<Rightarrow> act_fail (ulit ''unmarshal''))))"

text \<open>\<open>UpdateLease\<close> also sets \<open>UpdatedAt\<close> of the caller's lease, which it therefore returns.\<close>

definition UpdateLease :: "'db reg_env \<Rightarrow> lease \<Rightarrow> ('db, lease) act" where
  "UpdateLease env l =
     (if l_ID l = [] then act_fail (ulit ''lease ID cannot be empty'')
      else let key = prefixLease @ l_ID l
      in act_bind act_txn (\<lambda>_. act_bind (act_get env key) (\<lambda>r. case r of
           None \<Rightarrow> act_fail (ulit ''lease not found: '' @ l_ID l)
         | Some _ \<Rightarrow> act_bind (act_now env) (\<lambda>now.
             let l = l\<lparr>l_UpdatedAt := now\<rparr>
             in act_bind (marshal (ulit ''lease'') (lease_json_ok l)) (\<lambda>_. act_bind (act_set env key (VLease l)) (\<lambda>_. act_ok l))))))"

definition DeleteLease :: "'db reg_env \<Rightarrow> ustring \<Rightarrow> ('db, unit) act" where
  "DeleteLease env i =
     (if i = [] then act_fail (ulit ''lease ID cannot be empty'')
      else act_bind act_txn (\<lambda>_. act_delete env (prefixLease @ i)))"

record lease_filter =
  lf_OperatorID :: ustring
  lf_EndpointID :: ustring
  lf_Status :: i32

definition has_prefix :: "ustring \<Rightarrow> ustring \<Rightarrow> bool" where
  "has_prefix s p = (take (length p) s = p)"

definition filter_skips :: "lease_filter \<Rightarrow> lease \<Rightarrow> bool" where
  "filter_skips f l \<longleftrightarrow> (lf_OperatorID f \<noteq> [] \<and> l_OperatorID l \<noteq> lf_OperatorID f)
     \<or> (lf_EndpointID f \<noteq> [] \<and> l_EndpointID l \<noteq> lf_EndpointID f)
     \<or> (lf_Status f \<noteq> LeaseStatusUnspecified \<and> l_Status l \<noteq> lf_Status f)"

fun collect_leases :: "lease_filter \<Rightarrow> (ustring \<times> db_value) list \<Rightarrow> ustring + lease list" where
  "collect_leases f [] = Inr []"
| "collect_leases f ((k, v) # items) =
     (if \<not> has_prefix k prefixLease then Inr []
      else case v of VLease l \<Rightarrow> (if filter_skips f l then collect_leases f items
                                else try_bind (collect_leases f items) (\<lambda>ls. Inr (l # ls)))
         | _ \<Rightarrow> Inl (ulit ''failed to unmarshal lease''))"

definition ListLeases :: "'db reg_env \<Rightarrow> lease_filter \<Rightarrow> ('db, lease list) act" where
  "ListLeases env f = act_bind act_txn (\<lambda>_. act_bind (act_seek env prefixLease) (\<lambda>items. act_lift (collect_leases f items)))"

section \<open>Endpoints and operators\<close>

definition endpoint_json_ok :: "endpoint \<Rightarrow> bool" where
  "endpoint_json_ok ep \<longleftrightarrow> year_ok (ep_CreatedAt ep) \<and> (case ep_Coordinates ep of None \<Rightarrow> True
     | Some (lat, long) \<Rightarrow> (case lat of FNum _ _ _ \<Rightarrow> True | _ \<Rightarrow> False) \<and> (case long of FNum _ _ _ \<Rightarrow> True | _ \<Rightarrow> False))"

definition operator_json_ok :: "operator \<Rightarrow> bool" where
  "operator_json_ok p \<longleftrightarrow> year_ok (o_JoinedAt p) \<and> year_ok (o_LastSeen p)"

definition CreateEndpoint :: "'db reg_env \<Rightarrow> endpoint \<Rightarrow> ('db, unit) act" where
  "CreateEndpoint env ep =
     (if ep_ID ep = [] then act_fail (ulit ''endpoint ID cannot be empty'')
      else let key = prefixEndpoint @ ep_ID ep
      in act_bind act_txn (\<lambda>_. act_bind (act_get env key) (\<lambda>r. case r of
           Some _ \<Rightarrow> act_fail (ulit ''endpoint already exists: '' @ ep_ID ep)
         | None \<Rightarrow> act_bind (marshal (ulit ''endpoint'') (endpoint_json_ok ep)) (\<lambda>_. act_set env key (VEndpoint ep)))))"

definition GetEndpoint :: "'db reg_env \<Rightarrow> ustring \<Rightarrow> ('db, endpoint) act" where
  "GetEndpoint env i =
     (if i = [] then act_fail (ulit ''endpoint ID cannot be empty'')
      else act_bind act_txn (\<lambda>_. act_bind (act_get env (prefixEndpoint @ i)) (\<lambda>r. case r of
           None \<Rightarrow> act_fail (ulit ''endpoint not found: '' @ i)
         | Some (VEndpoint ep) \<Rightarrow> act_ok ep
         | Some _ \<Rightarrow> act_fail (ulit ''unmarshal''))))"

record endpoint_filter =
  ef_OperatorID :: ustring
  ef_Status :: i32

fun collect_endpoints :: "endpoint_filter \<Rightarrow> (ustring \<times> db_value) list \<Rightarrow> ustring + endpoint list" where
  "collect_endpoints f [] = Inr []"
| "collect_endpoints f ((k, v) # items) =
     (if \<not> has_prefix k prefixEndpoint then Inr []
      else case v of VEndpoint ep \<Rightarrow>
           (if (ef_OperatorID f \<noteq> [] \<and> ep_OperatorID ep \<noteq> ef_OperatorID f) \<or> (ef_Status f \<noteq> 0 \<and> ep_Status ep \<noteq> ef_Status f)
            then collect_endpoints f items else try_bind (collect_endpoints f items) (\<lambda>eps. Inr (ep # eps)))
         | _ \<Rightarrow> Inl (ulit ''failed to unmarshal endpoint''))"

definition ListEndpoints :: "'db reg_env \<Rightarrow> endpoint_filter \<Rightarrow> ('db, endpoint list) act" where
  "ListEndpoints env f = act_bind act_txn (\<lambda>_. act_bind (act_seek env prefixEndpoint) (\<lambda>items. act_lift (collect_endpoints f items)))"

definition CreateOperator :: "'db reg_env \<Rightarrow> operator \<Rightarrow> ('db, unit) act" where
  "CreateOperator env p =
     (if o_ID p = [] then act_fail (ulit ''operator ID cannot be empty'')
      else let key = prefixOperator @ o_ID p
      in act_bind act_txn (\<lambda>_. act_bind (act_get env key) (\<lambda>r. case r of
           Some _ \<Rightarrow> act_fail (ulit ''operator already exists: '' @ o_ID p)
         | None \<Rightarrow> act_bind (marshal (ulit ''operator'') (operator_json_ok p)) (\<lambda>_. act_set env key (VOperator p)))))"

definition GetOperator :: "'db reg_env \<Rightarrow> ustring \<Rightarrow> ('db, operator) act" where
  "GetOperator env i =
     (if i = [] then act_fail (ulit ''operator ID cannot be empty'')
      else act_bind act_txn (\<lambda>_. act_bind (act_get env (prefixOperator @ i)) (\<lambda>r. case r of
           None \<Rightarrow> act_fail (ulit ''operator not found: '' @ i)
         | Some (VOperator p) \<Rightarrow> act_ok p
         | Some _ \<Rightarrow> act_fail (ulit ''unmarshal''))))"

fun collect_operators :: "(ustring \<times> db_value) list \<Rightarrow> ustring + operator list" where
  "collect_operators [] = Inr []"
| "collect_operators ((k, v) # items) =
     (if \<not> has_prefix k prefixOperator then Inr []
      else case v of VOperator p \<Rightarrow> try_bind (collect_operators items) (\<lambda>ps. Inr (p # ps))
         | _ \<Rightarrow> Inl (ulit ''failed to unmarshal operator''))"

definition ListOperators :: "'db reg_env \<Rightarrow> ('db, operator list) act" where
  "ListOperators env = act_bind act_txn (\<lambda>_. act_bind (act_seek env prefixOperator) (\<lambda>items. act_lift (collect_operators items)))"

section \<open>Commitments and audit log\<close>

definition height_key :: "ustring \<Rightarrow> i64 \<Rightarrow> ustring" where
  "height_key operatorID h = prefixCommitment @ operatorID @ [58] @ show_int (sint h)"

definition latest_key :: "ustring \<Rightarrow> ustring" where
  "latest_key operatorID = prefixCommitment @ operatorID @ ulit '':latest''"

definition SaveCommitment :: "'db reg_env \<Rightarrow> merkle_commitment \<Rightarrow> ('db, unit) act" where
  "SaveCommitment env c =
     (if mc_OperatorID c = [] then act_fail (ulit ''operator ID cannot be empty'')
      else act_bind (marshal (ulit ''commitment'') (year_ok (mc_Timestamp c))) (\<lambda>_. act_bind act_txn (\<lambda>_.
        act_bind (act_set env (height_key (mc_OperatorID c) (mc_BlockHeight c)) (VCommitment c)) (\<lambda>_.
          act_set env (latest_key (mc_OperatorID c)) (VCommitment c)))))"

definition read_commitment :: "'db reg_env \<Rightarrow> ustring \<Rightarrow> ustring \<Rightarrow> ustring \<Rightarrow> ('db, merkle_commitment) act" where
  "read_commitment env operatorID key missing =
     (if operatorID = [] then act_fail (ulit ''operator ID cannot be empty'')
      else act_bind act_txn (\<lambda>_. act_bind (act_get env key) (\<lambda>r. case r of
           None \<Rightarrow> act_fail missing
         | Some (VCommitment c) \<Rightarrow> act_ok c
         | Some _ \<Rightarrow> act_fail (ulit ''unmarshal''))))"

definition GetCommitment :: "'db reg_env \<Rightarrow> ustring \<Rightarrow> i64 \<Rightarrow> ('db, merkle_commitment) act" where
  "GetCommitment env operatorID h = read_commitment env operatorID (height_key operatorID h)
     (ulit ''commitment not found for operator '' @ operatorID @ ulit '' at height '' @ show_int (sint h))"

definition GetLatestCommitment :: "'db reg_env \<Rightarrow> ustring \<Rightarrow> ('db, merkle_commitment) act" where
  "GetLatestCommitment env operatorID = read_commitment env operatorID (latest_key operatorID)
     (ulit ''no commitment found for operator '' @ operatorID)"

definition audit_key :: "gotime \<Rightarrow> ustring" where
  "audit_key t = prefixAudit @ RFC3339Nano t"

definition AppendAuditLog :: "'db reg_env \<Rightarrow> audit_log_entry \<Rightarrow> ('db, unit) act" where
  "AppendAuditLog env entry =
     act_bind (act_lift (map_err (\<lambda>e. ulit ''failed to marshal audit log entry: '' @ e) (re_json_audit env entry))) (\<lambda>data.
       let entry = entry\<lparr>a_Hash := sha3_256 (re_lib env) data\<rparr>
       in act_bind act_txn (\<lambda>_.
            act_bind (act_lift (map_err (\<lambda>e. ulit ''failed to marshal audit log entry: '' @ e) (re_json_audit env entry))) (\<lambda>_.
              act_set env (audit_key (a_Timestamp entry)) (VAudit entry))))"

fun collect_audit :: "ustring \<Rightarrow> (ustring \<times> db_value) list \<Rightarrow> ustring + audit_log_entry list" where
  "collect_audit toKey [] = Inr []"
| "collect_audit toKey ((k, v) # items) =
     (if \<not> has_prefix k prefixAudit then Inr []
      else if k > toKey then Inr []
      else case v of VAudit e \<Rightarrow> try_bind (collect_audit toKey items) (\<lambda>es. Inr (e # es))
         | _ \<Rightarrow> Inl (ulit ''failed to unmarshal audit log entry''))"

definition GetAuditLog :: "'db reg_env \<Rightarrow> gotime \<Rightarrow> gotime \<Rightarrow> ('db, audit_log_entry list) act" where
  "GetAuditLog env from_t to_t =
     act_bind act_txn (\<lambda>_. act_bind (act_seek env (audit_key from_t)) (\<lambda>items. act_lift (collect_audit (audit_key to_t) items)))"

section \<open>Running actions\<close>

lemma act_simps [simp]:
  "act_ok x s = (Inr x, s)" "act_fail e s = (Inl e, s)" "act_lift r s = (r, s)"
  "act_now env s = (Inr (re_clock env (rg_ticks s)), s\<lparr>rg_ticks := Suc (rg_ticks s)\<rparr>)"
  "act_draw s = (Inr (rg_draws s), s\<lparr>rg_draws := Suc (rg_draws s)\<rparr>)"
  "act_get env k s = (Inr (kv_get (re_bd env) (rg_db s) k), s)"
  "act_set env k v s = (Inr (), s\<lparr>rg_db := kv_set (re_bd env) (rg_db s) k v\<rparr>)"
  "act_seek env k s = (Inr (kv_seek (re_bd env) (rg_db s) k), s)"
  "act_ignore m s = (Inr (), snd (m s))"
  by (simp_all add: act_ok_def act_fail_def act_lift_def act_now_def act_draw_def act_get_def act_set_def act_seek_def act_ignore_def)

text \<open>\<open>frames env s s'\<close>: on the way from \<open>s\<close> to \<open>s'\<close> no lease changed, the clock went on, and no
  failure was added to the schedule.\<close>

definition frames :: "'db reg_env \<Rightarrow> 'db registry \<Rightarrow> 'db registry \<Rightarrow> bool" where
  "frames env s s' \<longleftrightarrow> (\<forall>k. has_prefix k prefixLease \<longrightarrow> kv_get (re_bd env) (rg_db s') k = kv_get (re_bd env) (rg_db s) k)
     \<and> rg_ticks s \<le> rg_ticks s' \<and> set (rg_io s') \<subseteq> set (rg_io s)"

named_theorems frame

definition act_frame :: "'db reg_env \<Rightarrow> ('db, 'a) act \<Rightarrow> bool" where
  "act_frame env m \<longleftrightarrow> (\<forall>s. frames env s (snd (m s)))"

lemma frames_refl [simp]: "frames env s s"
  by (simp add: frames_def)

lemma frames_trans: "frames env s t \<Longrightarrow> frames env t u \<Longrightarrow> frames env s u"
  by (auto simp: frames_def)

lemma frame_bind [frame]: "act_frame env m \<Longrightarrow> (\<And>v. act_frame env (f v)) \<Longrightarrow> act_frame env (act_bind m f)"
  unfolding act_frame_def act_bind_def by (auto split: prod.splits sum.splits) (metis frames_trans snd_conv)+

lemma frame_err [frame]: "act_frame env m \<Longrightarrow> act_frame env (act_err f m)"
  unfolding act_frame_def act_err_def by (auto split: prod.splits) (metis snd_conv)

lemma frame_ignore [frame]: "act_frame env m \<Longrightarrow> act_frame env (act_ignore m)"
  by (simp add: act_frame_def)

lemma frame_base [frame]:
  "act_frame env (act_ok v)" "act_frame env (act_fail e)" "act_frame env (act_lift r)" "act_frame env (act_now env')"
  "act_frame env act_draw" "act_frame env (act_get env' k)" "act_frame env (act_seek env' k)" "act_frame env act_txn"
  by (auto simp: act_frame_def frames_def act_txn_def split: list.splits)

lemma frame_if [frame]: "(c \<Longrightarrow> act_frame env m) \<Longrightarrow> (\<not> c \<Longrightarrow> act_frame env n) \<Longrightarrow> act_frame env (if c then m else n)"
  by simp

lemma frame_let [frame]: "(\<And>v. act_frame env (f v)) \<Longrightarrow> act_frame env (Let v f)"
  by simp

lemma frame_option [frame]: "act_frame env m \<Longrightarrow> (\<And>v. act_frame env (f v)) \<Longrightarrow> act_frame env (case_option m f r)"
  by (cases r) simp_all

lemma frame_value [frame]:
  "(\<And>v. act_frame env (f1 v)) \<Longrightarrow> (\<And>v. act_frame env (f2 v)) \<Longrightarrow> (\<And>v. act_frame env (f3 v)) \<Longrightarrow> (\<And>v. act_frame env (f4 v))
    \<Longrightarrow> (\<And>v. act_frame env (f5 v)) \<Longrightarrow> act_frame env (case_db_value f1 f2 f3 f4 f5 r)"
  by (cases r) simp_all

lemma frame_set:
  assumes "badger_ok (re_bd env)" and "\<not> has_prefix k prefixLease"
  shows "act_frame env (act_set env k v)"
  using assms by (auto simp: act_frame_def frames_def badger_ok_def)

lemma other_prefix:
  "\<not> has_prefix (prefixAudit @ r) prefixLease" "\<not> has_prefix (prefixCommitment @ r) prefixLease"
  "\<not> has_prefix (prefixOperator @ r) prefixLease" "\<not> has_prefix (prefixEndpoint @ r) prefixLease"
  by (simp_all add: has_prefix_def prefixAudit_def prefixCommitment_def prefixOperator_def prefixEndpoint_def prefixLease_def ulit_def)

lemma frame_AppendAuditLog:
  assumes "badger_ok (re_bd env)"
  shows "act_frame env (AppendAuditLog env entry)"
  unfolding AppendAuditLog_def audit_key_def by (intro frame frame_set assms other_prefix)

lemma frame_SaveCommitment:
  assumes "badger_ok (re_bd env)"
  shows "act_frame env (SaveCommitment env c)"
  unfolding SaveCommitment_def height_key_def latest_key_def marshal_def by (intro frame frame_set assms other_prefix)

lemma frame_reads: "act_frame env (GetLease env i)" "act_frame env (ListLeases env f)"
  unfolding GetLease_def ListLeases_def by (intro frame)+

section \<open>Types of the stored values\<close>

text \<open>Under each prefix there are values of one type, and a lease is under its own ID.\<close>

definition value_ok :: "ustring \<Rightarrow> db_value \<Rightarrow> bool" where
  "value_ok k v \<longleftrightarrow>
     (has_prefix k prefixLease \<longrightarrow> (\<exists>l. v = VLease l \<and> k = prefixLease @ l_ID l \<and> l_ID l \<noteq> []))
   \<and> (has_prefix k prefixEndpoint \<longrightarrow> (\<exists>ep. v = VEndpoint ep \<and> k = prefixEndpoint @ ep_ID ep))
   \<and> (has_prefix k prefixOperator \<longrightarrow> (\<exists>p. v = VOperator p \<and> k = prefixOperator @ o_ID p))
   \<and> (has_prefix k prefixCommitment \<longrightarrow> (\<exists>c. v = VCommitment c))
   \<and> (has_prefix k prefixAudit \<longrightarrow> (\<exists>e. v = VAudit e \<and> k = audit_key (a_Timestamp e)))"

definition db_typed :: "'db reg_env \<Rightarrow> 'db registry \<Rightarrow> bool" where
  "db_typed env s \<longleftrightarrow> (\<forall>k v. kv_get (re_bd env) (rg_db s) k = Some v \<longrightarrow> value_ok k v)"

definition act_typed :: "'db reg_env \<Rightarrow> ('db, 'a) act \<Rightarrow> bool" where
  "act_typed env m \<longleftrightarrow> (\<forall>s. db_typed env s \<longrightarrow> db_typed env (snd (m s)))"

named_theorems typed

lemma typed_bind [typed]: "act_typed env m \<Longrightarrow> (\<And>v. act_typed env (f v)) \<Longrightarrow> act_typed env (act_bind m f)"
  unfolding act_typed_def act_bind_def by (fastforce split: prod.splits sum.splits)

lemma typed_err [typed]: "act_typed env m \<Longrightarrow> act_typed env (act_err f m)"
  unfolding act_typed_def act_err_def by (fastforce split: prod.splits)

lemma typed_ignore [typed]: "act_typed env m \<Longrightarrow> act_typed env (act_ignore m)"
  by (simp add: act_typed_def)

lemma typed_base [typed]:
  "act_typed env (act_ok v)" "act_typed env (act_fail e)" "act_typed env (act_lift r)" "act_typed env (act_now env')"
  "act_typed env act_draw" "act_typed env (act_get env' k)" "act_typed env (act_seek env' k)" "act_typed env act_txn"
  by (auto simp: act_typed_def db_typed_def act_txn_def split: list.splits)

lemma typed_if [typed]: "(c \<Longrightarrow> act_typed env m) \<Longrightarrow> (\<not> c \<Longrightarrow> act_typed env n) \<Longrightarrow> act_typed env (if c then m else n)"
  by simp

lemma typed_let [typed]: "(\<And>v. act_typed env (f v)) \<Longrightarrow> act_typed env (Let v f)"
  by simp

lemma typed_option [typed]: "act_typed env m \<Longrightarrow> (\<And>v. act_typed env (f v)) \<Longrightarrow> act_typed env (case_option m f r)"
  by (cases r) simp_all

lemma typed_value [typed]:
  "(\<And>v. act_typed env (f1 v)) \<Longrightarrow> (\<And>v. act_typed env (f2 v)) \<Longrightarrow> (\<And>v. act_typed env (f3 v)) \<Longrightarrow> (\<And>v. act_typed env (f4 v))
    \<Longrightarrow> (\<And>v. act_typed env (f5 v)) \<Longrightarrow> act_typed env (case_db_value f1 f2 f3 f4 f5 r)"
  by (cases r) simp_all

lemma typed_set:
  assumes "badger_ok (re_bd env)" and "value_ok k v"
  shows "act_typed env (act_set env k v)"
  using assms by (auto simp: act_typed_def db_typed_def badger_ok_def)

lemma typed_delete:
  assumes "badger_ok (re_bd env)"
  shows "act_typed env (act_delete env k)"
  using assms by (auto simp: act_typed_def db_typed_def badger_ok_def act_delete_def split: if_splits)

lemmas prefix_defs = prefixAudit_def prefixCommitment_def prefixOperator_def prefixEndpoint_def prefixLease_def

lemma value_ok_simps [simp]:
  "value_ok (prefixLease @ i) (VLease l) \<longleftrightarrow> i = l_ID l \<and> i \<noteq> []"
  "value_ok (prefixEndpoint @ j) (VEndpoint ep) \<longleftrightarrow> j = ep_ID ep"
  "value_ok (prefixOperator @ j) (VOperator p) \<longleftrightarrow> j = o_ID p"
  "value_ok (prefixCommitment @ j) (VCommitment c)"
  "value_ok (prefixAudit @ j) (VAudit e) \<longleftrightarrow> prefixAudit @ j = audit_key (a_Timestamp e)"
  by (auto simp: value_ok_def has_prefix_def prefix_defs ulit_def)

lemma typed_store:
  assumes "badger_ok (re_bd env)"
  shows "act_typed env (CreateLease env l)" and "act_typed env (UpdateLease env l)" and "act_typed env (DeleteLease env i)"
    and "act_typed env (CreateEndpoint env ep)" and "act_typed env (CreateOperator env p)" and "act_typed env (SaveCommitment env c)"
    and "act_typed env (AppendAuditLog env e)" and "act_typed env (GetLease env i)" and "act_typed env (ListLeases env f)"
proof -
  note s = typed_set [OF assms] typed_delete [OF assms]
  show "act_typed env (CreateLease env l)" unfolding CreateLease_def marshal_def Let_def by (intro typed s) simp
  show "act_typed env (UpdateLease env l)" unfolding UpdateLease_def marshal_def Let_def by (intro typed s) simp
  show "act_typed env (DeleteLease env i)" unfolding DeleteLease_def by (intro typed s)
  show "act_typed env (CreateEndpoint env ep)" unfolding CreateEndpoint_def marshal_def Let_def by (intro typed s) simp
  show "act_typed env (CreateOperator env p)" unfolding CreateOperator_def marshal_def Let_def by (intro typed s) simp
  show "act_typed env (SaveCommitment env c)"
    unfolding SaveCommitment_def marshal_def height_key_def latest_key_def by (intro typed s) simp_all
  show "act_typed env (AppendAuditLog env e)"
    unfolding AppendAuditLog_def Let_def audit_key_def by (intro typed s) (simp add: audit_key_def)
  show "act_typed env (GetLease env i)" "act_typed env (ListLeases env f)" unfolding GetLease_def ListLeases_def Let_def by (intro typed)+
qed

section \<open>The table of leases\<close>

definition lease_view :: "'db reg_env \<Rightarrow> 'db registry \<Rightarrow> ustring \<rightharpoonup> lease" where
  "lease_view env s i = (case kv_get (re_bd env) (rg_db s) (prefixLease @ i) of Some (VLease l) \<Rightarrow> Some l | _ \<Rightarrow> None)"

lemma has_prefix_append [simp]: "has_prefix (p @ r) p"
  by (simp add: has_prefix_def)

lemma has_prefix_iff: "has_prefix k p \<longleftrightarrow> (\<exists>r. k = p @ r)"
  unfolding has_prefix_def by (metis append_take_drop_id append_eq_conv_conj)

lemma frames_view: "frames env s s' \<Longrightarrow> lease_view env s' = lease_view env s"
  by (auto simp: frames_def lease_view_def fun_eq_iff)

text \<open>The part of \<open>db_typed\<close> that is about leases.\<close>

definition lease_typed :: "'db reg_env \<Rightarrow> 'db registry \<Rightarrow> bool" where
  "lease_typed env s \<longleftrightarrow> (\<forall>k v. has_prefix k prefixLease \<longrightarrow> kv_get (re_bd env) (rg_db s) k = Some v \<longrightarrow> value_ok k v)"

lemma db_typed_leases: "db_typed env s \<Longrightarrow> lease_typed env s"
  by (simp add: db_typed_def lease_typed_def)

lemma frames_typed: "frames env s s' \<Longrightarrow> lease_typed env s \<Longrightarrow> lease_typed env s'"
  by (simp add: frames_def lease_typed_def)

lemma lease_view_typed:
  assumes "lease_typed env s" and "lease_view env s i = Some l"
  shows "kv_get (re_bd env) (rg_db s) (prefixLease @ i) = Some (VLease l)" and "l_ID l = i" and "i \<noteq> []"
proof -
  show g: "kv_get (re_bd env) (rg_db s) (prefixLease @ i) = Some (VLease l)"
    using assms(2) by (auto simp: lease_view_def split: option.splits db_value.splits)
  with assms(1) have "value_ok (prefixLease @ i) (VLease l)" unfolding lease_typed_def by (metis has_prefix_append)
  then have "i = l_ID l \<and> i \<noteq> []" unfolding value_ok_simps .
  then show "l_ID l = i" "i \<noteq> []" by blast+
qed

text \<open>The keys with a given prefix are an interval.\<close>

lemma prefix_interval: "p \<le> a \<Longrightarrow> a < b \<Longrightarrow> has_prefix b p \<Longrightarrow> has_prefix (a :: ustring) p"
proof (induction p arbitrary: a b)
  case (Cons c p)
  from Cons.prems(3) obtain b' where b: "b = c # b'" "has_prefix b' p" by (cases b) (auto simp: has_prefix_def)
  from Cons.prems(1,2) b(1) obtain a' where a: "a = c # a'" "p \<le> a'" "a' < b'"
    by (cases a) (auto simp: less_le)
  with Cons.IH [OF a(2,3) b(2)] show ?case by (simp add: has_prefix_def)
qed (simp add: has_prefix_def)

lemma prefix_le_append: "p \<le> p @ (r :: ustring)"
  by (induction p) simp_all

lemma collect_leases_typed:
  assumes "sorted_wrt (<) (map fst items)" and "\<And>k v. (k, v) \<in> set items \<Longrightarrow> prefixLease \<le> k \<and> (has_prefix k prefixLease \<longrightarrow> value_ok k v)"
  shows "\<exists>ls. collect_leases f items = Inr ls \<and> set ls = {l. \<exists>k. (k, VLease l) \<in> set items \<and> has_prefix k prefixLease \<and> \<not> filter_skips f l}"
  using assms
proof (induction items)
  case (Cons kv items)
  obtain k v where kv: "kv = (k, v)" by (cases kv)
  show ?case
  proof (cases "has_prefix k prefixLease")
    case True
    with Cons.prems(2) [of k v] obtain l where "v = VLease l" by (auto simp: kv value_ok_def)
    moreover obtain ls where "collect_leases f items = Inr ls"
      "set ls = {l. \<exists>k. (k, VLease l) \<in> set items \<and> has_prefix k prefixLease \<and> \<not> filter_skips f l}"
      using Cons by (auto simp: kv)
    ultimately show ?thesis using True by (auto simp: kv)
  next
    case False
    have "\<not> has_prefix k' prefixLease" if "(k', v') \<in> set items" for k' v'
      using Cons.prems that False prefix_interval [of prefixLease k k'] by (force simp: kv)
    with False show ?thesis by (auto simp: kv)
  qed
qed simp

lemma act_txn_ok: "True \<notin> set (rg_io s) \<Longrightarrow> act_txn s = (Inr (), s\<lparr>rg_io := tl (rg_io s)\<rparr>)"
  by (cases "rg_io s") (auto simp: act_txn_def)

lemma ListLeases_typed:
  assumes "badger_ok (re_bd env)" and "lease_typed env s" and "True \<notin> set (rg_io s)"
  shows "\<exists>ls. ListLeases env f s = (Inr ls, s\<lparr>rg_io := tl (rg_io s)\<rparr>)
    \<and> set ls = {l. lease_view env s (l_ID l) = Some l \<and> \<not> filter_skips f l}"
proof -
  let ?items = "kv_seek (re_bd env) (rg_db s) prefixLease"
  have st: "set ?items = {(k', v). prefixLease \<le> k' \<and> kv_get (re_bd env) (rg_db s) k' = Some v}"
    and so: "sorted_wrt (<) (map fst ?items)" using assms(1) by (auto simp: badger_ok_def)
  have ok: "prefixLease \<le> k \<and> (has_prefix k prefixLease \<longrightarrow> value_ok k v)" if "(k, v) \<in> set ?items" for k v
    using that assms(2) unfolding st lease_typed_def by blast
  from collect_leases_typed [OF so ok] obtain ls where ls: "collect_leases f ?items = Inr ls"
    "set ls = {l. \<exists>k. (k, VLease l) \<in> set ?items \<and> has_prefix k prefixLease \<and> \<not> filter_skips f l}" by blast
  have "(\<exists>k. (k, VLease l) \<in> set ?items \<and> has_prefix k prefixLease) \<longleftrightarrow> lease_view env s (l_ID l) = Some l" (is "?a \<longleftrightarrow> ?b") for l
  proof
    assume ?a
    then obtain k where "kv_get (re_bd env) (rg_db s) k = Some (VLease l)" "has_prefix k prefixLease" unfolding st by blast
    moreover from this assms(2) have "k = prefixLease @ l_ID l" unfolding lease_typed_def value_ok_def by blast
    ultimately show ?b by (simp add: lease_view_def)
  next
    assume ?b
    from lease_view_typed(1) [OF assms(2) this] show ?a unfolding st
      by (intro exI [of _ "prefixLease @ l_ID l"]) (auto simp: prefix_le_append)
  qed
  then have "set ls = {l. lease_view env s (l_ID l) = Some l \<and> \<not> filter_skips f l}" unfolding ls(2) by blast
  with ls(1) show ?thesis by (auto simp: ListLeases_def act_bind_def act_txn_ok [OF assms(3)])
qed

section \<open>Weakest preconditions\<close>

definition wp :: "('db, 'a) act \<Rightarrow> (ustring + 'a \<Rightarrow> 'db registry \<Rightarrow> bool) \<Rightarrow> 'db registry \<Rightarrow> bool" where
  "wp m Q s = Q (fst (m s)) (snd (m s))"

lemma wp_bind: "wp (act_bind m f) Q s \<longleftrightarrow> wp m (\<lambda>r s1. case r of Inl e \<Rightarrow> Q (Inl e) s1 | Inr v \<Rightarrow> wp (f v) Q s1) s"
  by (simp add: wp_def act_bind_def split: prod.split sum.split)

lemma wp_err: "wp (act_err f m) Q s \<longleftrightarrow> wp m (\<lambda>r. Q (map_err f r)) s"
  by (simp add: wp_def act_err_def split: prod.split)

lemma wp_ignore: "wp (act_ignore m) Q s \<longleftrightarrow> wp m (\<lambda>r. Q (Inr ())) s"
  by (simp add: wp_def)

lemma wp_base:
  "wp (act_ok x) Q s \<longleftrightarrow> Q (Inr x) s" "wp (act_fail e) Q s \<longleftrightarrow> Q (Inl e) s" "wp (act_lift r) Q s \<longleftrightarrow> Q r s"
  by (simp_all add: wp_def)

lemma wp_now: "wp (act_now env) Q s \<longleftrightarrow> Q (Inr (re_clock env (rg_ticks s))) (s\<lparr>rg_ticks := Suc (rg_ticks s)\<rparr>)"
  by (simp add: wp_def)

lemma wp_draw: "wp act_draw Q s \<longleftrightarrow> Q (Inr (rg_draws s)) (s\<lparr>rg_draws := Suc (rg_draws s)\<rparr>)"
  by (simp add: wp_def)

lemma wp_db:
  "wp (act_get env k) Q s \<longleftrightarrow> Q (Inr (kv_get (re_bd env) (rg_db s) k)) s"
  "wp (act_set env k v) R s \<longleftrightarrow> R (Inr ()) (s\<lparr>rg_db := kv_set (re_bd env) (rg_db s) k v\<rparr>)"
  by (simp_all add: wp_def)

lemma wp_if: "wp (if c then m else n) Q s \<longleftrightarrow> (if c then wp m Q s else wp n Q s)"
  by simp

lemma wp_frame: "act_frame env m \<Longrightarrow> (\<And>r s1. frames env s s1 \<Longrightarrow> Q r s1) \<Longrightarrow> wp m Q s"
  by (simp add: wp_def act_frame_def)

lemma wp_mono: "wp m Q s \<Longrightarrow> (\<And>r s1. Q r s1 \<Longrightarrow> Q' r s1) \<Longrightarrow> wp m Q' s"
  by (simp add: wp_def)

lemmas wp = wp_bind wp_err wp_ignore wp_base wp_now wp_draw wp_db wp_if

lemma kv_get_set: "badger_ok bd \<Longrightarrow> kv_get bd (kv_set bd db k v) = (kv_get bd db)(k \<mapsto> v)"
  by (simp add: badger_ok_def)

lemma frames_ticks: "frames env s (s\<lparr>rg_ticks := Suc (rg_ticks s)\<rparr>)" "frames env s (s\<lparr>rg_draws := n\<rparr>)"
  by (simp_all add: frames_def)

lemma wp_txn: "wp act_txn Q s \<longleftrightarrow> (\<forall>r s1. act_txn s = (r, s1) \<longrightarrow> Q r s1)"
  by (cases "act_txn s") (simp add: wp_def)

lemma act_txn_state: "act_txn s = (r, s1) \<Longrightarrow> \<exists>io. s1 = s\<lparr>rg_io := io\<rparr> \<and> set io \<subseteq> set (rg_io s)"
  by (cases "rg_io s") (auto simp: act_txn_def intro: exI [of _ "[]"])

text \<open>The two operations that change the table.\<close>

lemma wp_CreateLease:
  assumes "badger_ok (re_bd env)" and ty: "lease_typed env s"
    and "\<And>e s1. frames env s s1 \<Longrightarrow> Q (Inl e) s1"
    and "\<And>s1. l_ID l \<noteq> [] \<Longrightarrow> lease_view env s (l_ID l) = None \<Longrightarrow> lease_view env s1 = (lease_view env s)(l_ID l \<mapsto> l) \<Longrightarrow>
      rg_ticks s1 = rg_ticks s \<Longrightarrow> set (rg_io s1) \<subseteq> set (rg_io s) \<Longrightarrow> lease_typed env s1 \<Longrightarrow> Q (Inr ()) s1"
  shows "wp (CreateLease env l) Q s"
proof (cases "l_ID l = []")
  case True
  then show ?thesis using assms(3) by (simp add: CreateLease_def wp)
next
  case False
  have "case r of Inl e \<Rightarrow> Q (Inl e) s1 | Inr _ \<Rightarrow> wp (act_bind (act_get env (prefixLease @ l_ID l)) (\<lambda>r. case r of
           Some _ \<Rightarrow> act_fail (ulit ''lease already exists: '' @ l_ID l)
         | None \<Rightarrow> act_bind (marshal (ulit ''lease'') (lease_json_ok l)) (\<lambda>_. act_set env (prefixLease @ l_ID l) (VLease l)))) Q s1"
    if "act_txn s = (r, s1)" for r s1
  proof -
    from act_txn_state [OF that] obtain io where s1: "s1 = s\<lparr>rg_io := io\<rparr>" "set io \<subseteq> set (rg_io s)" by blast
    have f: "Q (Inl e) s1" for e by (rule assms(3)) (simp add: s1 frames_def)
    have v: "lease_view env (s\<lparr>rg_io := io, rg_db := kv_set (re_bd env) (rg_db s) (prefixLease @ l_ID l) (VLease l)\<rparr>)
        = (lease_view env s)(l_ID l \<mapsto> l)"
      by (rule ext) (simp add: lease_view_def kv_get_set [OF assms(1)])
    have o: "Q (Inr ()) (s\<lparr>rg_io := io, rg_db := kv_set (re_bd env) (rg_db s) (prefixLease @ l_ID l) (VLease l)\<rparr>)"
      if "kv_get (re_bd env) (rg_db s) (prefixLease @ l_ID l) = None"
      by (rule assms(4) [OF False _ v]) (use that s1 False ty in \<open>auto simp: lease_view_def lease_typed_def kv_get_set [OF assms(1)]\<close>)
    show ?thesis using f o by (auto simp: wp marshal_def s1 split: sum.split option.split)
  qed
  with False show ?thesis by (simp add: CreateLease_def Let_def wp_bind wp_txn)
qed

lemma wp_UpdateLease:
  assumes "badger_ok (re_bd env)" and "lease_typed env s"
    and "\<And>e s1. frames env s s1 \<Longrightarrow> Q (Inl e) s1"
    and "\<And>s1 now l0. lease_view env s (l_ID l) = Some l0 \<Longrightarrow> lease_view env s1 = (lease_view env s)(l_ID l \<mapsto> l\<lparr>l_UpdatedAt := now\<rparr>) \<Longrightarrow>
      rg_ticks s1 = Suc (rg_ticks s) \<Longrightarrow> set (rg_io s1) \<subseteq> set (rg_io s) \<Longrightarrow> lease_typed env s1 \<Longrightarrow> Q (Inr (l\<lparr>l_UpdatedAt := now\<rparr>)) s1"
  shows "wp (UpdateLease env l) Q s"
proof (cases "l_ID l = []")
  case True
  then show ?thesis using assms(3) by (simp add: UpdateLease_def wp)
next
  case False
  define now where "now = re_clock env (rg_ticks s)"
  have "case r of Inl e \<Rightarrow> Q (Inl e) s1 | Inr _ \<Rightarrow> wp (act_bind (act_get env (prefixLease @ l_ID l)) (\<lambda>r. case r of
           None \<Rightarrow> act_fail (ulit ''lease not found: '' @ l_ID l)
         | Some _ \<Rightarrow> act_bind (act_now env) (\<lambda>now. act_bind (marshal (ulit ''lease'') (lease_json_ok (l\<lparr>l_UpdatedAt := now\<rparr>))) (\<lambda>_.
             act_bind (act_set env (prefixLease @ l_ID l) (VLease (l\<lparr>l_UpdatedAt := now\<rparr>))) (\<lambda>_. act_ok (l\<lparr>l_UpdatedAt := now\<rparr>)))))) Q s1"
    if "act_txn s = (r, s1)" for r s1
  proof -
    from act_txn_state [OF that] obtain io where s1: "s1 = s\<lparr>rg_io := io\<rparr>" "set io \<subseteq> set (rg_io s)" by blast
    let ?s2 = "s\<lparr>rg_io := io, rg_ticks := Suc (rg_ticks s),
      rg_db := kv_set (re_bd env) (rg_db s) (prefixLease @ l_ID l) (VLease (l\<lparr>l_UpdatedAt := now\<rparr>))\<rparr>"
    have f: "Q (Inl e) s1" "Q (Inl e) (s1\<lparr>rg_ticks := Suc (rg_ticks s)\<rparr>)" for e
      by (rule assms(3), simp add: s1 frames_def)+
    have v: "lease_view env ?s2 = (lease_view env s)(l_ID l \<mapsto> l\<lparr>l_UpdatedAt := now\<rparr>)"
      by (rule ext) (simp add: lease_view_def kv_get_set [OF assms(1)])
    have t: "lease_typed env ?s2"
      using assms(2) False by (auto simp: lease_typed_def kv_get_set [OF assms(1)])
    have o: "Q (Inr (l\<lparr>l_UpdatedAt := now\<rparr>)) ?s2" if g: "kv_get (re_bd env) (rg_db s) (prefixLease @ l_ID l) = Some v" for v
    proof -
      obtain l0 where "v = VLease l0" using assms(2) g unfolding lease_typed_def value_ok_def by (metis has_prefix_append)
      then show ?thesis by (intro assms(4) [OF _ v]) (use g s1 t in \<open>simp_all add: lease_view_def\<close>)
    qed
    show ?thesis using f o by (auto simp: wp marshal_def s1 now_def split: sum.split option.split)
  qed
  with False show ?thesis by (simp add: UpdateLease_def Let_def wp_bind wp_txn)
qed

end
