(* ===== verification/Registry.thy ===== *)
theory Registry
  imports LeaseStore
begin

text \<open>
  The registry engine, src/flr/internal/registry/engine.go: allocation, renewal, revocation and
  expiry of leases, commitments over the active ones, verification of tokens. The write lock
  makes each operation one step. The theorems are on sequences of operations: when a wavelength is
  held by one lease only and when it is not, which tokens are honoured, what a stored commitment
  proves.
\<close>

section \<open>Operations\<close>

definition active_filter :: "'db reg_env \<Rightarrow> lease_filter" where
  "active_filter env = \<lparr>lf_OperatorID = re_operatorID env, lf_EndpointID = [], lf_Status = LeaseStatusActive\<rparr>"

definition token_text :: "lease_token \<Rightarrow> wavelength \<Rightarrow> ustring" where
  "token_text token w = t_LeaseID token @ [58] @ t_OperatorID token @ [58] @ t_EndpointID token @ [58] @ ToKey w @ [58]
     @ show_i32 (t_Version token) @ [58] @ RFC3339Nano (t_StartTime token) @ [58] @ RFC3339Nano (t_EndTime token)"

definition hashToken :: "flr_lib \<Rightarrow> lease_token \<Rightarrow> ustring + bytes" where
  "hashToken lib token = (case t_Wavelength token of None \<Rightarrow> Inl (ulit ''panic: nil pointer'')
     | Some w \<Rightarrow> Inr (sha3_256 lib (utf8 (token_text token w))))"

definition appendAuditLog :: "'db reg_env \<Rightarrow> string \<Rightarrow> ustring \<Rightarrow> ('db, unit) act" where
  "appendAuditLog env operation leaseID =
     act_bind (act_now env) (\<lambda>now s. AppendAuditLog env \<lparr>a_Timestamp = now, a_Operation = ulit operation,
       a_OperatorID = re_operatorID env, a_LeaseID = leaseID,
       a_Details = utf8 (ulit ''{\"block_height\":'' @ show_int (sint (rg_blockHeight s)) @ ulit ''}''), a_Hash = [], a_PrevHash = []\<rparr> s)"

fun find_conflict :: "gotime \<Rightarrow> ustring \<Rightarrow> ustring \<Rightarrow> lease list \<Rightarrow> lease option" where
  "find_conflict now wlKey excludeLeaseID [] = None"
| "find_conflict now wlKey excludeLeaseID (l # ls) =
     (if l_ID l = excludeLeaseID then find_conflict now wlKey excludeLeaseID ls
      else if (case l_Wavelength l of None \<Rightarrow> False | Some w \<Rightarrow> ToKey w = wlKey) \<and> now < l_EndTime l then Some l
      else find_conflict now wlKey excludeLeaseID ls)"

text \<open>A failed listing counts as no conflict.\<close>

definition checkConflictLocked :: "'db reg_env \<Rightarrow> wavelength option \<Rightarrow> ustring \<Rightarrow> ('db, lease option) act" where
  "checkConflictLocked env ow excludeLeaseID = (case ow of None \<Rightarrow> act_ok None
     | Some w \<Rightarrow> (\<lambda>s. case ListLeases env (active_filter env) s of
         (Inl _, s') \<Rightarrow> (Inr None, s')
       | (Inr leases, s') \<Rightarrow> act_bind (act_now env) (\<lambda>now. act_ok (find_conflict now (ToKey w) excludeLeaseID leases)) s'))"

definition CheckConflict :: "'db reg_env \<Rightarrow> wavelength option \<Rightarrow> ustring \<Rightarrow> ('db, lease option) act" where
  "CheckConflict = checkConflictLocked"

text \<open>The calls of \<open>rand\<close> and \<open>time.Now\<close> in \<open>GenerateLeaseToken\<close>.\<close>

definition issue_token :: "'db reg_env \<Rightarrow> lease \<Rightarrow> ('db, lease_token) act" where
  "issue_token env l =
     act_bind act_draw (\<lambda>d1. act_bind (act_now env) (\<lambda>now. act_bind act_draw (\<lambda>d2.
       act_err (\<lambda>e. ulit ''failed to generate lease token: '' @ e)
         (act_lift (GenerateLeaseToken (re_lib env) (re_crypto env) l (re_nonce env d1) now d2)))))"

text \<open>\<open>AllocateLease\<close> after the check for conflicts.\<close>

definition new_lease :: "'db reg_env \<Rightarrow> gotime \<Rightarrow> wavelength option \<Rightarrow> ustring \<Rightarrow> duration \<Rightarrow> ('db, lease \<times> lease_token) act" where
  "new_lease env now ow endpointID duration =
     act_bind act_draw (\<lambda>d.
       let l = \<lparr>l_ID = re_uuid env d, l_Wavelength = ow, l_EndpointID = endpointID, l_OperatorID = re_operatorID env,
                l_Status = LeaseStatusActive, l_StartTime = now, l_EndTime = now + duration, l_CreatedAt = now, l_UpdatedAt = now,
                l_TokenHash = [], l_ParentHash = []\<rparr>
       in act_bind (issue_token env l) (\<lambda>token. act_bind (act_lift (hashToken (re_lib env) token)) (\<lambda>h.
          let l = l\<lparr>l_TokenHash := h\<rparr>
          in act_bind (act_err (\<lambda>e. ulit ''failed to store lease: '' @ e) (CreateLease env l)) (\<lambda>_.
             act_bind (act_ignore (appendAuditLog env ''CREATE_LEASE'' (l_ID l))) (\<lambda>_. act_ok (l, token))))))"

definition AllocateLease :: "'db reg_env \<Rightarrow> wavelength option \<Rightarrow> ustring \<Rightarrow> duration \<Rightarrow> ('db, lease \<times> lease_token) act" where
  "AllocateLease env ow endpointID duration =
     (if ow = None then act_fail (ulit ''wavelength cannot be nil'')
      else if endpointID = [] then act_fail (ulit ''endpoint ID cannot be empty'')
      else if duration \<le> 0 then act_fail (ulit ''duration must be positive'')
      else act_bind (act_now env) (\<lambda>now. act_bind (checkConflictLocked env ow []) (\<lambda>found. case found of
        Some c \<Rightarrow> act_fail (ulit ''wavelength conflict detected with lease '' @ l_ID c)
      | None \<Rightarrow> new_lease env now ow endpointID duration)))"

definition LeaseStatus_String :: "i32 \<Rightarrow> ustring" where
  "LeaseStatus_String st =
     (if st = LeaseStatusActive then ulit ''ACTIVE'' else if st = LeaseStatusExpired then ulit ''EXPIRED''
      else if st = LeaseStatusRevoked then ulit ''REVOKED'' else if st = LeaseStatusPending then ulit ''PENDING'' else ulit ''UNSPECIFIED'')"

definition RenewLease :: "'db reg_env \<Rightarrow> ustring \<Rightarrow> duration \<Rightarrow> ('db, lease \<times> lease_token) act" where
  "RenewLease env leaseID extension =
     (if leaseID = [] then act_fail (ulit ''lease ID cannot be empty'')
      else if extension \<le> 0 then act_fail (ulit ''extension must be positive'')
      else act_bind (act_err (\<lambda>e. ulit ''failed to get lease: '' @ e) (GetLease env leaseID)) (\<lambda>l.
        if l_Status l \<noteq> LeaseStatusActive then act_fail (ulit ''cannot renew lease with status '' @ LeaseStatus_String (l_Status l))
        else act_bind (act_now env) (\<lambda>now.
          let l = l\<lparr>l_EndTime := l_EndTime l + extension, l_UpdatedAt := now\<rparr>
          in act_bind (issue_token env l) (\<lambda>token. act_bind (act_lift (hashToken (re_lib env) token)) (\<lambda>h.
             act_bind (act_err (\<lambda>e. ulit ''failed to update lease: '' @ e) (UpdateLease env (l\<lparr>l_TokenHash := h\<rparr>))) (\<lambda>l.
             act_bind (act_ignore (appendAuditLog env ''RENEW_LEASE'' (l_ID l))) (\<lambda>_. act_ok (l, token))))))))"

definition RevokeLease :: "'db reg_env \<Rightarrow> ustring \<Rightarrow> ('db, unit) act" where
  "RevokeLease env leaseID =
     (if leaseID = [] then act_fail (ulit ''lease ID cannot be empty'')
      else act_bind (act_err (\<lambda>e. ulit ''failed to get lease: '' @ e) (GetLease env leaseID)) (\<lambda>l.
        if l_Status l = LeaseStatusRevoked then act_fail (ulit ''lease is already revoked'')
        else act_bind (act_now env) (\<lambda>now.
          act_bind (act_err (\<lambda>e. ulit ''failed to update lease: '' @ e)
            (UpdateLease env (l\<lparr>l_Status := LeaseStatusRevoked, l_UpdatedAt := now\<rparr>))) (\<lambda>l.
          act_bind (act_ignore (appendAuditLog env ''REVOKE_LEASE'' (l_ID l))) (\<lambda>_. act_ok ())))))"

definition VerifyLease :: "'db reg_env \<Rightarrow> lease_token option \<Rightarrow> ('db, unit) act" where
  "VerifyLease env otoken = (case otoken of None \<Rightarrow> act_fail (ulit ''token cannot be nil'')
     | Some token \<Rightarrow>
       act_bind (act_err (\<lambda>e. ulit ''lease not found in registry: '' @ e) (GetLease env (t_LeaseID token))) (\<lambda>l.
         if l_Status l \<noteq> LeaseStatusActive then act_fail (ulit ''lease is not active, status: '' @ LeaseStatus_String (l_Status l))
         else act_bind (act_now env) (\<lambda>now.
           if now > l_EndTime l then act_fail (ulit ''lease has expired'')
           else act_bind (act_err (\<lambda>e. ulit ''failed to get public key: '' @ e) (act_lift (GetPublicKey (re_lib env) (re_crypto env)))) (\<lambda>pk.
             act_bind (act_now env) (\<lambda>now.
             act_bind (act_err (\<lambda>e. ulit ''token validation failed: '' @ e) (act_lift (ValidateLeaseToken (re_lib env) now (Some token) pk))) (\<lambda>_.
             act_bind (act_lift (hashToken (re_lib env) token)) (\<lambda>h.
               if h \<noteq> l_TokenHash l then act_fail (ulit ''token hash mismatch'') else act_ok ())))))))"

fun expire_loop :: "'db reg_env \<Rightarrow> gotime \<Rightarrow> nat \<Rightarrow> lease list \<Rightarrow> ('db, nat) act" where
  "expire_loop env now n [] = act_ok n"
| "expire_loop env now n (l # ls) =
     (if now > l_EndTime l then
        act_bind (act_err (\<lambda>e. ulit ''failed to mark lease '' @ l_ID l @ ulit '' as expired: '' @ e)
          (UpdateLease env (l\<lparr>l_Status := LeaseStatusExpired, l_UpdatedAt := now\<rparr>))) (\<lambda>l.
        act_bind (act_ignore (appendAuditLog env ''EXPIRE_LEASE'' (l_ID l))) (\<lambda>_. expire_loop env now (Suc n) ls))
      else expire_loop env now n ls)"

definition ExpireLeases :: "'db reg_env \<Rightarrow> ('db, nat) act" where
  "ExpireLeases env =
     act_bind (act_err (\<lambda>e. ulit ''failed to list active leases: '' @ e) (ListLeases env (active_filter env))) (\<lambda>leases.
       act_bind (act_now env) (\<lambda>now. expire_loop env now 0 leases))"

text \<open>\<open>engine_BuildMerkleTree\<close> is the engine's method of that name.\<close>

definition build_tree :: "'db reg_env \<Rightarrow> lease list \<Rightarrow> ('db, merkle_node) act" where
  "build_tree env leases = act_lift (case BuildMerkleTree (re_lib env) leases of
     None \<Rightarrow> Inl (ulit ''panic: index out of range'') | Some t \<Rightarrow> Inr t)"

definition engine_BuildMerkleTree :: "'db reg_env \<Rightarrow> ('db, merkle_node) act" where
  "engine_BuildMerkleTree env =
     act_bind (act_err (\<lambda>e. ulit ''failed to list active leases: '' @ e) (ListLeases env (active_filter env))) (build_tree env)"

definition CommitMerkleTree :: "'db reg_env \<Rightarrow> ('db, merkle_commitment) act" where
  "CommitMerkleTree env =
     act_bind (act_err (\<lambda>e. ulit ''failed to list active leases: '' @ e) (ListLeases env (active_filter env))) (\<lambda>leases.
     act_bind (build_tree env leases) (\<lambda>tree.
     act_bind (\<lambda>s. (Inr (), s\<lparr>rg_blockHeight := rg_blockHeight s + 1\<rparr>)) (\<lambda>_.
     act_bind (act_now env) (\<lambda>now. act_bind act_draw (\<lambda>d.
     act_bind (act_err (\<lambda>e. ulit ''failed to sign commitment: '' @ e) (\<lambda>s. act_lift
         (SignMerkleCommitment (re_lib env) (re_crypto env) (mn_Hash tree) (rg_blockHeight s) now d) s)) (\<lambda>c.
     let c = c\<lparr>mc_LeaseCount := of_nat (length leases)\<rparr>
     in act_bind (act_err (\<lambda>e. ulit ''failed to save commitment: '' @ e) (SaveCommitment env c)) (\<lambda>_.
        act_bind (act_ignore (appendAuditLog env ''COMMIT_MERKLE'' [])) (\<lambda>_. act_ok c))))))))"

definition engine_GetLatestCommitment :: "'db reg_env \<Rightarrow> ('db, merkle_commitment) act" where
  "engine_GetLatestCommitment env = GetLatestCommitment env (re_operatorID env)"

definition GetBlockHeight :: "'db registry \<Rightarrow> i64" where
  "GetBlockHeight s = rg_blockHeight s"

text \<open>\<open>NewEngine\<close> over a database that may have been used before.\<close>

definition NewEngine :: "'db registry \<Rightarrow> 'db registry" where
  "NewEngine s = s\<lparr>rg_blockHeight := 0\<rparr>"

section \<open>The table of leases as a transition system\<close>

text \<open>A lease holds a wavelength at an instant.\<close>

definition holds :: "ustring \<Rightarrow> gotime \<Rightarrow> ustring \<Rightarrow> lease \<Rightarrow> bool" where
  "holds opid t key l \<longleftrightarrow> l_OperatorID l = opid \<and> l_Status l = LeaseStatusActive \<and> t < l_EndTime l
     \<and> (case l_Wavelength l of None \<Rightarrow> False | Some w \<Rightarrow> ToKey w = key)"

definition same_lease :: "lease \<Rightarrow> lease \<Rightarrow> bool" where
  "same_lease l l' \<longleftrightarrow> l_ID l' = l_ID l \<and> l_OperatorID l' = l_OperatorID l \<and> l_Wavelength l' = l_Wavelength l"

inductive lease_step :: "ustring \<Rightarrow> gotime \<Rightarrow> (ustring \<rightharpoonup> lease) \<Rightarrow> (ustring \<rightharpoonup> lease) \<Rightarrow> bool" for opid t where
  create: "V (l_ID l) = None \<Longrightarrow> l_Status l = LeaseStatusActive \<Longrightarrow> l_OperatorID l = opid \<Longrightarrow> l_Wavelength l = Some w
    \<Longrightarrow> \<forall>i l'. V i = Some l' \<longrightarrow> \<not> holds opid t (ToKey w) l' \<Longrightarrow> lease_step opid t V (V(l_ID l \<mapsto> l))"
| renew: "V i = Some l \<Longrightarrow> l_Status l = LeaseStatusActive \<Longrightarrow> same_lease l l' \<Longrightarrow> l_Status l' = LeaseStatusActive
    \<Longrightarrow> l_EndTime l < l_EndTime l' \<Longrightarrow> lease_step opid t V (V(i \<mapsto> l'))"
| stop: "V i = Some l \<Longrightarrow> same_lease l l' \<Longrightarrow> l_Status l' \<noteq> LeaseStatusActive \<Longrightarrow> l_EndTime l' = l_EndTime l \<Longrightarrow> lease_step opid t V (V(i \<mapsto> l'))"

definition exclusive :: "ustring \<Rightarrow> gotime \<Rightarrow> (ustring \<rightharpoonup> lease) \<Rightarrow> bool" where
  "exclusive opid t V \<longleftrightarrow> (\<forall>i j l l' key. V i = Some l \<longrightarrow> V j = Some l' \<longrightarrow> holds opid t key l \<longrightarrow> holds opid t key l' \<longrightarrow> i = j)"

text \<open>Renewal is safe while the lease has not run out.\<close>

definition timely :: "gotime \<Rightarrow> (ustring \<rightharpoonup> lease) \<Rightarrow> (ustring \<rightharpoonup> lease) \<Rightarrow> bool" where
  "timely t V V' \<longleftrightarrow> (\<forall>i l l'. V i = Some l \<longrightarrow> V' i = Some l' \<longrightarrow> l_EndTime l < l_EndTime l' \<longrightarrow> t < l_EndTime l)"

lemma holds_later: "holds opid t key l \<Longrightarrow> u \<le> t \<Longrightarrow> holds opid u key l"
  by (auto simp: holds_def)

lemma exclusive_later: "exclusive opid t V \<Longrightarrow> t \<le> u \<Longrightarrow> exclusive opid u V"
  unfolding exclusive_def by (meson holds_later)

lemma step_exclusive:
  assumes "lease_step opid t V V'" and "exclusive opid t V" and "timely t V V'"
  shows "exclusive opid t V'"
  using assms(1)
proof cases
  case (create l w)
  have "ToKey w = key" if "holds opid t key l" for key using that create by (simp add: holds_def)
  with create assms(2) show ?thesis unfolding exclusive_def by (metis fun_upd_apply option.inject)
next
  case (renew i l l')
  have "holds opid t key l" if "holds opid t key l'" for key
    using that renew assms(3) by (auto simp: holds_def same_lease_def timely_def)
  with renew assms(2) show ?thesis unfolding exclusive_def by (metis fun_upd_apply option.inject)
next
  case (stop i l l')
  then have "\<not> holds opid t key l'" for key by (simp add: holds_def)
  with stop assms(2) show ?thesis unfolding exclusive_def by (metis fun_upd_apply option.inject)
qed

section \<open>Operations are steps\<close>

text \<open>The steps of an operation: at a clock reading taken while it runs, with renewals timely under
  the guard \<open>G\<close>.\<close>

definition gstep :: "bool \<Rightarrow> ustring \<Rightarrow> gotime \<Rightarrow> (ustring \<rightharpoonup> lease) \<Rightarrow> (ustring \<rightharpoonup> lease) \<Rightarrow> bool" where
  "gstep G opid t V V' \<longleftrightarrow> lease_step opid t V V' \<and> (G \<longrightarrow> timely t V V')"

definition outcome :: "'db reg_env \<Rightarrow> bool \<Rightarrow> 'db registry \<Rightarrow> 'db registry \<Rightarrow> bool" where
  "outcome env G s s' \<longleftrightarrow> rg_ticks s \<le> rg_ticks s' \<and> set (rg_io s') \<subseteq> set (rg_io s)
     \<and> (\<exists>k. rg_ticks s \<le> k \<and> k \<le> rg_ticks s' \<and> (gstep G (re_operatorID env) (re_clock env k))\<^sup>*\<^sup>* (lease_view env s) (lease_view env s'))"

lemma outcome_frames: "frames env s s' \<Longrightarrow> outcome env G s s'"
  using frames_view [of env s s'] by (auto simp: outcome_def frames_def)

lemma outcome_after: "frames env s s1 \<Longrightarrow> outcome env G s1 s' \<Longrightarrow> outcome env G s s'"
  using frames_view [of env s s1] unfolding outcome_def frames_def by (auto intro: le_trans)

lemma outcome_before: "outcome env G s s1 \<Longrightarrow> frames env s1 s' \<Longrightarrow> outcome env G s s'"
  using frames_view [of env s1 s'] unfolding outcome_def frames_def by (auto intro: le_trans)

lemma gstep_create:
  assumes "V (l_ID l) = None" and "l_Status l = LeaseStatusActive" and "l_OperatorID l = opid" and "l_Wavelength l = Some w"
    and "\<forall>i l'. V i = Some l' \<longrightarrow> \<not> holds opid t (ToKey w) l'"
  shows "gstep G opid t V (V(l_ID l \<mapsto> l))"
  using create [of V l, OF assms] assms(1) by (auto simp: gstep_def timely_def split: if_splits)

lemma gstep_stop:
  assumes "V i = Some l" and "same_lease l l'" and "l_Status l' \<noteq> LeaseStatusActive" and "l_EndTime l' = l_EndTime l"
  shows "gstep G opid t V (V(i \<mapsto> l'))"
  using stop [of V i, OF assms] assms by (auto simp: gstep_def timely_def split: if_splits)

lemma gstep_renew:
  assumes "V i = Some l" and "l_Status l = LeaseStatusActive" and "same_lease l l'" and "l_Status l' = LeaseStatusActive"
    and "l_EndTime l < l_EndTime l'" and "G \<longrightarrow> t < l_EndTime l"
  shows "gstep G opid t V (V(i \<mapsto> l'))"
  using renew [of V i, OF assms(1-5)] assms by (auto simp: gstep_def timely_def split: if_splits)

lemma frame_audit: "badger_ok (re_bd env) \<Longrightarrow> act_frame env (appendAuditLog env operation i)"
  unfolding appendAuditLog_def
  by (rule frame_bind [OF frame_base(4)]) (use frame_AppendAuditLog in \<open>auto simp: act_frame_def\<close>)

lemma frame_token: "act_frame env (issue_token env l)"
  unfolding issue_token_def by (intro frame)

lemma find_conflict_None:
  assumes "find_conflict now key [] ls = None" and "l \<in> set ls" and "l_ID l \<noteq> []" and "l_Wavelength l = Some w" and "ToKey w = key"
  shows "\<not> now < l_EndTime l"
  using assms by (induction ls) (auto split: if_splits)

lemma wp_conflict:
  assumes "badger_ok (re_bd env)" and "lease_typed env s" and "True \<notin> set (rg_io s)"
    and "\<And>c s1. frames env s s1 \<Longrightarrow> Q (Inr (Some c)) s1"
    and "\<And>s1 k. frames env s s1 \<Longrightarrow> rg_ticks s \<le> k \<Longrightarrow> k < rg_ticks s1 \<Longrightarrow>
      \<forall>i l. lease_view env s i = Some l \<longrightarrow> \<not> holds (re_operatorID env) (re_clock env k) (ToKey w) l \<Longrightarrow> Q (Inr None) s1"
  shows "wp (checkConflictLocked env (Some w) []) Q s"
proof -
  obtain ls where ls: "ListLeases env (active_filter env) s = (Inr ls, s\<lparr>rg_io := tl (rg_io s)\<rparr>)"
    "set ls = {l. lease_view env s (l_ID l) = Some l \<and> \<not> filter_skips (active_filter env) l}"
    using ListLeases_typed [OF assms(1-3)] by blast
  let ?t = "re_clock env (rg_ticks s)" and ?s1 = "s\<lparr>rg_io := tl (rg_io s), rg_ticks := Suc (rg_ticks s)\<rparr>"
  have f: "frames env s ?s1" by (cases "rg_io s") (auto simp: frames_def)
  have c: "checkConflictLocked env (Some w) [] s = (Inr (find_conflict ?t (ToKey w) [] ls), ?s1)"
    by (simp add: checkConflictLocked_def ls act_bind_def)
  show ?thesis
  proof (cases "find_conflict ?t (ToKey w) [] ls")
    case None
    have "\<not> holds (re_operatorID env) ?t (ToKey w) l" if v: "lease_view env s i = Some l" for i l
    proof
      assume h: "holds (re_operatorID env) ?t (ToKey w) l"
      note i = lease_view_typed [OF assms(2) v]
      from h i v have "l \<in> set ls" unfolding ls(2) by (auto simp: holds_def filter_skips_def active_filter_def)
      with find_conflict_None [OF None] h i show False by (auto simp: holds_def split: option.splits)
    qed
    then show ?thesis using assms(5) [OF f, of "rg_ticks s"] c None by (auto simp: wp_def)
  next
    case (Some l)
    then show ?thesis using assms(4) [OF f, of l] c by (simp add: wp_def)
  qed
qed

text \<open>The state in which an operation starts.\<close>

definition ready :: "'db reg_env \<Rightarrow> 'db registry \<Rightarrow> bool" where
  "ready env s \<longleftrightarrow> badger_ok (re_bd env) \<and> lease_typed env s \<and> True \<notin> set (rg_io s)"

lemma frames_chain [trans]: "frames env s t \<Longrightarrow> frames env t u \<Longrightarrow> frames env s u"
  by (rule frames_trans)

lemma frames_facts:
  "frames env s s' \<Longrightarrow> lease_view env s' = lease_view env s \<and> rg_ticks s \<le> rg_ticks s' \<and> set (rg_io s') \<subseteq> set (rg_io s)"
  using frames_view [of env s s'] by (auto simp: frames_def)

lemma wp_bind_frame:
  assumes "act_frame env m" and "frames env s0 s" and "\<And>e s1. frames env s0 s1 \<Longrightarrow> Q (Inl e) s1"
    and "\<And>v s1. frames env s0 s1 \<Longrightarrow> wp (f v) Q s1"
  shows "wp (act_bind m f) Q s"
  unfolding wp_bind
  by (rule wp_frame [OF assms(1)]) (use assms(3,4) frames_trans [OF assms(2)] in \<open>auto split: sum.split\<close>)

text \<open>A token that was generated for a lease and whose hash the lease carries.\<close>

definition issued :: "'db reg_env \<Rightarrow> lease \<Rightarrow> lease_token \<Rightarrow> bool" where
  "issued env l token \<longleftrightarrow> (\<exists>nonce now draw. GenerateLeaseToken (re_lib env) (re_crypto env) l nonce now draw = Inr token)
     \<and> hashToken (re_lib env) token = Inr (l_TokenHash l)"

lemma generate_fields:
  "GenerateLeaseToken lib e (l\<lparr>l_TokenHash := h\<rparr>) nonce now draw = GenerateLeaseToken lib e l nonce now draw"
  "GenerateLeaseToken lib e (l\<lparr>l_UpdatedAt := u\<rparr>) nonce now draw = GenerateLeaseToken lib e l nonce now draw"
  by (simp_all add: GenerateLeaseToken_def)

lemma wp_issue_bind:
  assumes "frames env s0 s" and "\<And>e s1. frames env s0 s1 \<Longrightarrow> Q (Inl e) s1"
    and "\<And>token h s1. frames env s0 s1 \<Longrightarrow> issued env (l\<lparr>l_TokenHash := h\<rparr>) token \<Longrightarrow> wp (k token h) Q s1"
  shows "wp (act_bind (issue_token env l) (\<lambda>token. act_bind (act_lift (hashToken (re_lib env) token)) (k token))) Q s"
proof -
  let ?g = "GenerateLeaseToken (re_lib env) (re_crypto env) l (re_nonce env (rg_draws s)) (re_clock env (rg_ticks s)) (Suc (rg_draws s))"
  let ?s1 = "s\<lparr>rg_draws := Suc (Suc (rg_draws s)), rg_ticks := Suc (rg_ticks s)\<rparr>"
  have r: "issue_token env l s = (map_err (\<lambda>e. ulit ''failed to generate lease token: '' @ e) ?g, ?s1)"
    by (simp add: issue_token_def act_bind_def act_err_def)
  have f: "frames env s0 ?s1" by (rule frames_trans [OF assms(1)]) (simp add: frames_def)
  show ?thesis
  proof (cases ?g)
    case (Inl e)
    then show ?thesis using assms(2) [OF f] by (simp add: wp_def act_bind_def r)
  next
    case (Inr token)
    have "issued env (l\<lparr>l_TokenHash := h\<rparr>) token" if "hashToken (re_lib env) token = Inr h" for h
      unfolding issued_def generate_fields using Inr that by auto
    then have "wp (act_bind (act_lift (hashToken (re_lib env) token)) (k token)) Q ?s1"
      unfolding wp_bind wp_base using assms(2) [OF f] assms(3) [OF f]
      by (simp split: sum.split)
    then show ?thesis using Inr by (simp add: wp_def act_bind_def r)
  qed
qed

lemma wp_new_lease:
  assumes "badger_ok (re_bd env)" and "lease_typed env s"
    and fail: "\<And>e s1. frames env s s1 \<Longrightarrow> Q (Inl e) s1"
    and ok: "\<And>l token s1 s2. frames env s s1 \<Longrightarrow> lease_view env s (l_ID l) = None \<Longrightarrow> lease_view env s2 = (lease_view env s)(l_ID l \<mapsto> l) \<Longrightarrow>
      rg_ticks s1 \<le> rg_ticks s2 \<Longrightarrow> set (rg_io s2) \<subseteq> set (rg_io s1) \<Longrightarrow> l_Status l = LeaseStatusActive \<Longrightarrow>
      l_OperatorID l = re_operatorID env \<Longrightarrow> l_Wavelength l = ow \<Longrightarrow> issued env l token \<Longrightarrow> lease_typed env s2 \<Longrightarrow> Q (Inr (l, token)) s2"
  shows "wp (new_lease env now ow ep d) Q s"
  unfolding new_lease_def Let_def
proof (rule wp_bind_frame [OF frame_base(5) frames_refl], rule fail, assumption,
    rule wp_issue_bind [where ?s0.0 = s], assumption, rule fail, assumption, goal_cases)
  case (1 n s1 token h s3)
  note f = 1(2) and iss = 1(3)
  note v = frames_view [OF f]
  show ?case
    unfolding wp_bind wp_err
  proof (rule wp_CreateLease [OF assms(1) frames_typed [OF f assms(2)]], goal_cases)
    case (1 e s4)
    then show ?case using fail frames_trans [OF f] by simp
  next
    case (2 s4)
    show ?case
      unfolding map_err_simps sum.case wp_bind wp_ignore
      by (rule wp_frame [OF frame_audit [OF assms(1)]])
        (use 2 v iss in \<open>auto simp: wp intro!: ok [OF f] intro: frames_typed dest: frames_facts\<close>)
  qed
qed

lemma Allocate_outcome:
  assumes "ready env s"
  shows "wp (AllocateLease env ow ep d) (\<lambda>r s'. outcome env G s s') s"
proof (cases "ow = None \<or> ep = [] \<or> d \<le> 0")
  case True
  then show ?thesis by (auto simp: AllocateLease_def wp outcome_frames)
next
  case False
  then obtain w where w: "ow = Some w" by auto
  have bd: "badger_ok (re_bd env)" and ty: "lease_typed env s" and io: "True \<notin> set (rg_io s)" using assms by (simp_all add: ready_def)
  let ?s0 = "s\<lparr>rg_ticks := Suc (rg_ticks s)\<rparr>"
  have ty0: "lease_typed env ?s0" "True \<notin> set (rg_io ?s0)" using ty io by (simp_all add: lease_typed_def)
  have f0: "frames env s ?s0" by (rule frames_ticks)
  have "wp (checkConflictLocked env (Some w) []) (\<lambda>r s1. case r of Inl e \<Rightarrow> outcome env G s s1
     | Inr found \<Rightarrow> wp (case found of Some c \<Rightarrow> act_fail (ulit ''wavelength conflict detected with lease '' @ l_ID c)
        | None \<Rightarrow> new_lease env (re_clock env (rg_ticks s)) ow ep d) (\<lambda>r s'. outcome env G s s') s1) ?s0"
  proof (rule wp_conflict [OF bd ty0], goal_cases)
    case (1 c s1)
    then show ?case using frames_trans [OF f0] by (simp add: wp outcome_frames)
  next
    case (2 s1 k)
    have f: "frames env s s1" using frames_trans [OF f0 2(1)] .
    have k: "rg_ticks s \<le> k" "k < rg_ticks s1" using 2(2,3) by simp_all
    have free: "\<forall>i l. lease_view env s i = Some l \<longrightarrow> \<not> holds (re_operatorID env) (re_clock env k) (ToKey w) l"
      using 2(4) frames_view [OF f0] by simp
    show ?case unfolding sum.case option.case
    proof (rule wp_new_lease [OF bd frames_typed [OF f ty]], goal_cases)
      case (1 e s2)
      then show ?case using frames_trans [OF f] by (simp add: outcome_frames)
    next
      case (2 l token s2 s3)
      have "gstep G (re_operatorID env) (re_clock env k) (lease_view env s) (lease_view env s3)"
        unfolding 2(3) frames_view [OF f] using 2(2,6-8) w free frames_view [OF f] by (intro gstep_create) simp_all
      moreover have "rg_ticks s \<le> k" "k \<le> rg_ticks s3" "set (rg_io s3) \<subseteq> set (rg_io s)"
        using 2(1,4,5) k frames_facts [OF f] frames_facts [OF 2(1)] by auto
      ultimately show ?case unfolding outcome_def by (auto intro: exI [of _ k])
    qed
  qed
  then show ?thesis using False unfolding w by (simp add: AllocateLease_def wp_bind wp_now)
qed

lemma wp_GetLease:
  assumes "lease_typed env s" and "\<And>e s1. frames env s s1 \<Longrightarrow> Q (Inl e) s1"
    and "\<And>l s1. frames env s s1 \<Longrightarrow> rg_db s1 = rg_db s \<Longrightarrow> rg_ticks s1 = rg_ticks s \<Longrightarrow> lease_view env s i = Some l \<Longrightarrow> l_ID l = i \<Longrightarrow> Q (Inr l) s1"
  shows "wp (GetLease env i) Q s"
proof (cases "i = []")
  case True
  then show ?thesis using assms(2) by (simp add: GetLease_def wp)
next
  case False
  have "case r of Inl e \<Rightarrow> Q (Inl e) s1 | Inr _ \<Rightarrow> wp (act_bind (act_get env (prefixLease @ i)) (\<lambda>r. case r of
           None \<Rightarrow> act_fail (ulit ''lease not found: '' @ i) | Some (VLease l) \<Rightarrow> act_ok l
         | Some _ \<Rightarrow> act_fail (ulit ''unmarshal''))) Q s1" if "act_txn s = (r, s1)" for r s1
  proof -
    from act_txn_state [OF that] obtain io where s1: "s1 = s\<lparr>rg_io := io\<rparr>" "set io \<subseteq> set (rg_io s)" by blast
    have f: "frames env s s1" by (simp add: s1 frames_def)
    have "Q (Inr l) s1" if "kv_get (re_bd env) (rg_db s) (prefixLease @ i) = Some (VLease l)" for l
    proof -
      from that have v: "lease_view env s i = Some l" by (simp add: lease_view_def)
      with lease_view_typed(2) [OF assms(1) v] show ?thesis by (intro assms(3) [OF f]) (simp_all add: s1)
    qed
    with assms(2) [OF f] show ?thesis by (auto simp: wp s1 split: sum.split option.split db_value.split)
  qed
  with False show ?thesis by (simp add: GetLease_def Let_def wp_bind wp_txn)
qed

lemma lease_typed_db: "lease_typed env s \<Longrightarrow> rg_db s' = rg_db s \<Longrightarrow> lease_typed env s'"
  by (simp add: lease_typed_def)

text \<open>What \<open>UpdateLease\<close> followed by an audit entry does to the table.\<close>

lemma update_outcome:
  assumes bd: "badger_ok (re_bd env)" and ty: "lease_typed env s1" and f: "frames env s s1" and k: "rg_ticks s \<le> k" "k \<le> rg_ticks s1"
    and step: "\<And>l0 now. lease_view env s (l_ID l) = Some l0 \<Longrightarrow>
      gstep G (re_operatorID env) (re_clock env k) (lease_view env s) ((lease_view env s)(l_ID l \<mapsto> l\<lparr>l_UpdatedAt := now\<rparr>))"
    and g: "\<And>l. act_frame env (g l)"
  shows "wp (act_bind (act_err e (UpdateLease env l)) (\<lambda>l. act_bind (act_ignore (appendAuditLog env what (l_ID l))) (\<lambda>_. g l)))
    (\<lambda>r s'. outcome env G s s') s1"
  unfolding wp_bind wp_err
proof (rule wp_UpdateLease [OF bd ty], goal_cases)
  case (1 e s2)
  then show ?case using frames_trans [OF f] by (simp add: outcome_frames)
next
  case (2 s2 now l0)
  have "outcome env G s s2"
    using step [of l0 now] 2 k frames_facts [OF f] unfolding outcome_def by (auto intro!: exI [of _ k])
  then show ?case
    unfolding map_err_simps sum.case wp_ignore
    by (intro wp_frame [OF frame_audit [OF bd]]) (auto intro!: wp_frame [OF g] intro: outcome_before)
qed

lemma wp_get_bind:
  assumes "lease_typed env s" and "\<And>e s1. frames env s s1 \<Longrightarrow> Q (Inl e) s1"
    and "\<And>l s1. frames env s s1 \<Longrightarrow> rg_db s1 = rg_db s \<Longrightarrow> rg_ticks s1 = rg_ticks s \<Longrightarrow> lease_view env s i = Some l \<Longrightarrow> l_ID l = i \<Longrightarrow> wp (k l) Q s1"
  shows "wp (act_bind (act_err e (GetLease env i)) k) Q s"
  unfolding wp_bind wp_err by (rule wp_GetLease [OF assms(1)]) (simp_all add: assms)

lemma Renew_outcome:
  assumes "ready env s" and guard: "\<And>l. G \<Longrightarrow> lease_view env s i = Some l \<Longrightarrow> re_clock env (rg_ticks s) < l_EndTime l"
  shows "wp (RenewLease env i ext) (\<lambda>r s'. outcome env G s s') s"
proof (cases "i = [] \<or> ext \<le> 0")
  case True
  then show ?thesis by (auto simp: RenewLease_def wp outcome_frames)
next
  case False
  then have n: "(i = []) = False" "(ext \<le> 0) = False" by simp_all
  have bd: "badger_ok (re_bd env)" and ty: "lease_typed env s" using assms(1) by (simp_all add: ready_def)
  show ?thesis
    unfolding RenewLease_def n if_False
  proof (rule wp_get_bind [OF ty], rule outcome_frames, assumption, goal_cases)
    case (1 l s1)
    show ?case
    proof (cases "l_Status l \<noteq> LeaseStatusActive")
      case True
      then show ?thesis using 1(1) by (simp add: wp outcome_frames)
    next
      case False
      let ?s2 = "s1\<lparr>rg_ticks := Suc (rg_ticks s1)\<rparr>" and ?l = "l\<lparr>l_EndTime := l_EndTime l + ext, l_UpdatedAt := re_clock env (rg_ticks s1)\<rparr>"
      have f2: "frames env s ?s2" by (rule frames_trans [OF 1(1) frames_ticks(1)])
      note v = 1(4) and i = 1(5)
      have "wp (act_bind (issue_token env ?l) (\<lambda>token. act_bind (act_lift (hashToken (re_lib env) token)) (\<lambda>h.
             act_bind (act_err (\<lambda>e. ulit ''failed to update lease: '' @ e) (UpdateLease env (?l\<lparr>l_TokenHash := h\<rparr>))) (\<lambda>l.
             act_bind (act_ignore (appendAuditLog env ''RENEW_LEASE'' (l_ID l))) (\<lambda>_. act_ok (l, token))))))
          (\<lambda>r s'. outcome env G s s') ?s2"
      proof (rule wp_bind_frame [OF frame_token f2], rule outcome_frames, assumption,
          rule wp_bind_frame [where ?s0.0 = s, OF frame_base(3)], assumption, rule outcome_frames, assumption, goal_cases)
        case (1 token s3 h s4)
        have t4: "rg_ticks s \<le> rg_ticks s4" using frames_facts [OF 1(2)] by simp
        show ?case
          by (rule update_outcome [OF bd frames_typed [OF 1(2) ty] 1(2) le_refl t4])
            (use False v n guard in \<open>auto simp: i intro!: gstep_renew frame simp: same_lease_def\<close>)
      qed
      then show ?thesis using False by (simp add: wp_bind wp_now Let_def)
    qed
  qed
qed

lemma Revoke_outcome:
  assumes "ready env s"
  shows "wp (RevokeLease env i) (\<lambda>r s'. outcome env G s s') s"
proof (cases "i = []")
  case True
  then show ?thesis by (simp add: RevokeLease_def wp outcome_frames)
next
  case False
  then have n: "(i = []) = False" by simp
  have bd: "badger_ok (re_bd env)" and ty: "lease_typed env s" using assms(1) by (simp_all add: ready_def)
  show ?thesis
    unfolding RevokeLease_def n if_False
  proof (rule wp_get_bind [OF ty], rule outcome_frames, assumption, goal_cases)
    case (1 l s1)
    show ?case
    proof (cases "l_Status l = LeaseStatusRevoked")
      case True
      then show ?thesis using 1(1) by (simp add: wp outcome_frames)
    next
      case False
      let ?s2 = "s1\<lparr>rg_ticks := Suc (rg_ticks s1)\<rparr>"
      have f2: "frames env s ?s2" by (rule frames_trans [OF 1(1) frames_ticks(1)])
      have t2: "rg_ticks s \<le> rg_ticks ?s2" using frames_facts [OF f2] by simp
      have "wp (act_bind (act_err (\<lambda>e. ulit ''failed to update lease: '' @ e)
            (UpdateLease env (l\<lparr>l_Status := LeaseStatusRevoked, l_UpdatedAt := re_clock env (rg_ticks s1)\<rparr>))) (\<lambda>l.
          act_bind (act_ignore (appendAuditLog env ''REVOKE_LEASE'' (l_ID l))) (\<lambda>_. act_ok ()))) (\<lambda>r s'. outcome env G s s') ?s2"
        by (rule update_outcome [OF bd frames_typed [OF f2 ty] f2 le_refl t2])
          (use 1(4,5) in \<open>auto intro!: gstep_stop frame simp: same_lease_def status_defs\<close>)
      then show ?thesis using False by (simp add: wp_bind wp_now)
    qed
  qed
qed

lemma expire_outcome:
  assumes bd: "badger_ok (re_bd env)"
  shows "lease_typed env s1 \<Longrightarrow> k \<le> rg_ticks s1 \<Longrightarrow> set (rg_io s1) \<subseteq> set (rg_io s)
    \<Longrightarrow> (gstep G (re_operatorID env) (re_clock env k))\<^sup>*\<^sup>* (lease_view env s) (lease_view env s1)
    \<Longrightarrow> \<forall>l \<in> set ls. \<exists>l0. lease_view env s1 (l_ID l) = Some l0 \<and> same_lease l0 l \<and> l_EndTime l0 = l_EndTime l
    \<Longrightarrow> rg_ticks s \<le> k \<Longrightarrow> wp (expire_loop env now n ls) (\<lambda>r s'. outcome env G s s') s1"
proof (induction ls arbitrary: n s1)
  case Nil
  then show ?case unfolding expire_loop.simps wp_base outcome_def by auto
next
  case (Cons l ls)
  show ?case
  proof (cases "now > l_EndTime l")
    case False
    with Cons show ?thesis by simp
  next
    case True
    then have e: "(l_EndTime l < now) = True" by simp
    have o: "outcome env G s s1" using Cons.prems by (auto simp: outcome_def)
    show ?thesis
      unfolding expire_loop.simps e if_True wp_bind wp_err
    proof (rule wp_UpdateLease [OF bd Cons.prems(1)], goal_cases)
      case (1 e s2)
      then show ?case using outcome_before [OF o] by simp
    next
      case (2 s2 u l0)
      let ?l = "l\<lparr>l_Status := LeaseStatusExpired, l_UpdatedAt := now\<rparr>" and ?V = "lease_view env s1"
      have "gstep G (re_operatorID env) (re_clock env k) ?V (?V(l_ID ?l \<mapsto> ?l\<lparr>l_UpdatedAt := u\<rparr>))"
        using 2(1) Cons.prems(5) by (intro gstep_stop [of _ _ l0]) (auto simp: same_lease_def status_defs)
      then have st: "(gstep G (re_operatorID env) (re_clock env k))\<^sup>*\<^sup>* (lease_view env s) (lease_view env s2)"
        using rtranclp.rtrancl_into_rtrancl [OF Cons.prems(4)] by (simp only: 2(2))
      have inv: "\<forall>l \<in> set ls. \<exists>l0. lease_view env s2 (l_ID l) = Some l0 \<and> same_lease l0 l \<and> l_EndTime l0 = l_EndTime l"
      proof
        fix m assume "m \<in> set ls"
        then obtain m0 where m: "?V (l_ID m) = Some m0" "same_lease m0 m" "l_EndTime m0 = l_EndTime m" using Cons.prems(5) by auto
        obtain l1 where l: "?V (l_ID l) = Some l1" "same_lease l1 l" "l_EndTime l1 = l_EndTime l" using Cons.prems(5) by auto
        show "\<exists>l0. lease_view env s2 (l_ID m) = Some l0 \<and> same_lease l0 m \<and> l_EndTime l0 = l_EndTime m"
        proof (cases "l_ID m = l_ID l")
          case True
          with m l have "same_lease l m" "l_EndTime l = l_EndTime m" by (simp_all add: same_lease_def)
          with True show ?thesis unfolding 2(2) by (simp add: same_lease_def)
        next
          case False
          with m show ?thesis unfolding 2(2) by simp
        qed
      qed
      show ?case
        unfolding map_err_simps sum.case wp_ignore
      proof (rule wp_frame [OF frame_audit [OF bd]])
        fix s3 assume f: "frames env s2 s3"
        note ff = frames_facts [OF f]
        show "wp (expire_loop env now (Suc n) ls) (\<lambda>r s'. outcome env G s s') s3"
          using frames_typed [OF f 2(5)] ff 2(3,4) Cons.prems(2,3,6) st inv by (intro Cons.IH) auto
      qed
    qed
  qed
qed

lemma Expire_outcome:
  assumes "ready env s"
  shows "wp (ExpireLeases env) (\<lambda>r s'. outcome env G s s') s"
proof -
  have bd: "badger_ok (re_bd env)" and ty: "lease_typed env s" and io: "True \<notin> set (rg_io s)" using assms(1) by (simp_all add: ready_def)
  obtain ls where ls: "ListLeases env (active_filter env) s = (Inr ls, s\<lparr>rg_io := tl (rg_io s)\<rparr>)"
    "set ls = {l. lease_view env s (l_ID l) = Some l \<and> \<not> filter_skips (active_filter env) l}"
    using ListLeases_typed [OF bd ty io] by blast
  let ?s1 = "s\<lparr>rg_io := tl (rg_io s), rg_ticks := Suc (rg_ticks s)\<rparr>"
  have f: "frames env s ?s1" by (cases "rg_io s") (auto simp: frames_def)
  note ff = frames_facts [OF f]
  have "wp (expire_loop env (re_clock env (rg_ticks s)) 0 ls) (\<lambda>r s'. outcome env G s s') ?s1"
    by (rule expire_outcome [OF bd frames_typed [OF f ty], where k = "rg_ticks s"])
      (use ff ls in \<open>auto simp: same_lease_def\<close>)
  moreover have "wp (ListLeases env (active_filter env)) Q s \<longleftrightarrow> Q (Inr ls) (s\<lparr>rg_io := tl (rg_io s)\<rparr>)" for Q
    by (simp add: wp_def ls)
  ultimately show ?thesis by (simp add: ExpireLeases_def wp_bind wp_err wp_now)
qed

lemma frame_build: "act_frame env (build_tree env ls)"
  unfolding build_tree_def by (intro frame)

lemma frame_Commit:
  assumes "badger_ok (re_bd env)"
  shows "act_frame env (CommitMerkleTree env)"
proof -
  have h: "act_frame env (\<lambda>s. (Inr (), s\<lparr>rg_blockHeight := rg_blockHeight s + 1\<rparr>))" by (simp add: act_frame_def frames_def)
  have l: "act_frame env (\<lambda>s. act_lift (f s) s)" for f by (simp add: act_frame_def)
  show ?thesis
    unfolding CommitMerkleTree_def Let_def
    by (intro frame frame_build frame_reads h l frame_SaveCommitment frame_audit assms)
qed

section \<open>Histories\<close>

datatype reg_op = RAllocate "wavelength option" ustring duration | RRenew ustring duration | RRevoke ustring
  | RExpire | RCommit | RVerify "lease_token option" | RRestart

fun reg_step :: "'db reg_env \<Rightarrow> reg_op \<Rightarrow> 'db registry \<Rightarrow> 'db registry" where
  "reg_step env (RAllocate ow ep d) s = snd (AllocateLease env ow ep d s)"
| "reg_step env (RRenew i ext) s = snd (RenewLease env i ext s)"
| "reg_step env (RRevoke i) s = snd (RevokeLease env i s)"
| "reg_step env RExpire s = snd (ExpireLeases env s)"
| "reg_step env RCommit s = snd (CommitMerkleTree env s)"
| "reg_step env (RVerify tok) s = snd (VerifyLease env tok s)"
| "reg_step env RRestart s = NewEngine s"

text \<open>Renewals come before the lease has run out.\<close>

fun on_time :: "'db reg_env \<Rightarrow> reg_op \<Rightarrow> 'db registry \<Rightarrow> bool" where
  "on_time env (RRenew i ext) s = (case lease_view env s i of None \<Rightarrow> True | Some l \<Rightarrow> re_clock env (rg_ticks s) < l_EndTime l)"
| "on_time env _ s = True"

fun all_on_time :: "'db reg_env \<Rightarrow> reg_op list \<Rightarrow> 'db registry \<Rightarrow> bool" where
  "all_on_time env [] s = True"
| "all_on_time env (op # ops) s = (on_time env op s \<and> all_on_time env ops (reg_step env op s))"

lemma typed_token [typed]: "act_typed env (issue_token env l)"
  unfolding issue_token_def by (intro typed)

lemma typed_audit: "badger_ok (re_bd env) \<Longrightarrow> act_typed env (appendAuditLog env operation i)"
  unfolding appendAuditLog_def
  by (rule typed_bind [OF typed_base(4)]) (use typed_store(7) in \<open>auto simp: act_typed_def\<close>)

lemma typed_conflict: "badger_ok (re_bd env) \<Longrightarrow> act_typed env (checkConflictLocked env ow i)"
  using typed_store(9) [of env "active_filter env"] unfolding act_typed_def checkConflictLocked_def
  by (auto simp: act_bind_def db_typed_def split: option.split prod.split sum.split)

lemma typed_expire: "badger_ok (re_bd env) \<Longrightarrow> act_typed env (expire_loop env now n ls)"
proof (induction ls arbitrary: n)
  case (Cons l ls)
  show ?case unfolding expire_loop.simps by (intro typed typed_store typed_audit Cons)
qed (simp only: expire_loop.simps typed)

lemma typedD: "act_typed env m \<Longrightarrow> db_typed env s \<Longrightarrow> db_typed env (snd (m s))"
  by (simp add: act_typed_def)

lemma typed_step:
  assumes "badger_ok (re_bd env)" and "db_typed env s"
  shows "db_typed env (reg_step env op s)"
proof -
  note st = typed_store [OF assms(1)] typed_audit [OF assms(1)] typed_conflict [OF assms(1)] typed_expire [OF assms(1)]
  have h: "act_typed env (\<lambda>s. (Inr (), s\<lparr>rg_blockHeight := rg_blockHeight s + 1\<rparr>))" "act_typed env (\<lambda>s. act_lift (f s) s)" for f
    by (simp_all add: act_typed_def db_typed_def)
  have a: "act_typed env (AllocateLease env ow ep d)" for ow ep d
    unfolding AllocateLease_def new_lease_def Let_def by (intro typed st)
  have b: "act_typed env (RenewLease env i ext)" for i ext unfolding RenewLease_def Let_def by (intro typed st)
  have c: "act_typed env (RevokeLease env i)" for i unfolding RevokeLease_def by (intro typed st)
  have d: "act_typed env (ExpireLeases env)" unfolding ExpireLeases_def by (intro typed st)
  have e: "act_typed env (CommitMerkleTree env)" unfolding CommitMerkleTree_def Let_def build_tree_def by (intro typed st h)
  have f: "act_typed env (VerifyLease env tok)" for tok unfolding VerifyLease_def by (intro typed st)
  have "db_typed env (NewEngine s)" using assms(2) by (simp add: NewEngine_def db_typed_def)
  then show ?thesis
    using a b c d e f assms(2) by (cases op) (simp_all add: typedD)
qed

lemma op_outcome:
  assumes "ready env s" and "G \<longrightarrow> on_time env op s"
  shows "outcome env G s (reg_step env op s)"
proof -
  have bd: "badger_ok (re_bd env)" using assms(1) by (simp add: ready_def)
  have v: "act_frame env (VerifyLease env tok)" for tok unfolding VerifyLease_def by (intro frame frame_reads)
  show ?thesis
  proof (cases op)
    case (RRenew i ext)
    have "wp (RenewLease env i ext) (\<lambda>r s'. outcome env G s s') s"
      by (rule Renew_outcome [OF assms(1)]) (use assms(2) RRenew in simp)
    with RRenew show ?thesis by (simp add: wp_def)
  qed (use Allocate_outcome [OF assms(1)] Revoke_outcome [OF assms(1)] Expire_outcome [OF assms(1)] frame_Commit [OF bd] v in
      \<open>auto simp: wp_def act_frame_def NewEngine_def frames_def intro!: outcome_frames\<close>)
qed

lemma history_typed:
  assumes "badger_ok (re_bd env)" and "db_typed env s"
  shows "db_typed env (fold (reg_step env) ops s)"
  using assms(2) by (induction ops arbitrary: s) (simp_all add: typed_step [OF assms(1)])

lemma history_exclusive:
  assumes "badger_ok (re_bd env)" and "mono (re_clock env)" and "db_typed env s" and "True \<notin> set (rg_io s)" and "all_on_time env ops s"
    and "exclusive (re_operatorID env) (re_clock env (rg_ticks s)) (lease_view env s)"
  shows "exclusive (re_operatorID env) (re_clock env (rg_ticks (fold (reg_step env) ops s))) (lease_view env (fold (reg_step env) ops s))"
  using assms(3-6)
proof (induction ops arbitrary: s)
  case (Cons op ops)
  let ?s = "reg_step env op s"
  have "ready env s" using Cons.prems assms(1) by (simp add: ready_def db_typed_leases)
  from op_outcome [OF this, of True op] Cons.prems(3) obtain k where t: "rg_ticks s \<le> k" "k \<le> rg_ticks ?s"
    and io: "set (rg_io ?s) \<subseteq> set (rg_io s)"
    and st: "(gstep True (re_operatorID env) (re_clock env k))\<^sup>*\<^sup>* (lease_view env s) (lease_view env ?s)"
    by (auto simp: outcome_def)
  from st exclusive_later [OF Cons.prems(4) monoD [OF assms(2) t(1)]]
  have "exclusive (re_operatorID env) (re_clock env k) (lease_view env ?s)"
    by (induction rule: rtranclp_induct) (auto simp: gstep_def intro: step_exclusive)
  then have "exclusive (re_operatorID env) (re_clock env (rg_ticks ?s)) (lease_view env ?s)"
    by (rule exclusive_later [OF _ monoD [OF assms(2) t(2)]])
  with Cons io typed_step [OF assms(1)] show ?case by (auto intro!: Cons.IH)
qed simp

text \<open>(C14) The database is well typed: after any history of operations on an empty database, with restarts
  and failing transactions, the value under every key has the type of the key's prefix and a
  lease is stored under its own ID. So when the transaction succeeds a listing never fails to
  decode: it returns exactly the stored leases that pass the filter.\<close>

theorem registry_types:
  assumes "badger_ok (re_bd env)" and "\<forall>k. kv_get (re_bd env) (rg_db s) k = None"
  shows "db_typed env (fold (reg_step env) ops s)
    \<and> (True \<notin> set (rg_io (fold (reg_step env) ops s)) \<longrightarrow>
        (\<exists>ls. fst (ListLeases env f (fold (reg_step env) ops s)) = Inr ls
            \<and> set ls = {l. lease_view env (fold (reg_step env) ops s) (l_ID l) = Some l \<and> \<not> filter_skips f l}))"
proof -
  have t: "db_typed env (fold (reg_step env) ops s)" using assms by (intro history_typed) (simp_all add: db_typed_def)
  with ListLeases_typed [OF assms(1) db_typed_leases [OF t], of f] show ?thesis by auto
qed

text \<open>(C4) No wavelength is allocated twice: take any history of operations on an empty database in which
  no transaction fails, the clock never runs backwards and every renewal comes before its lease has
  run out. Then at every time from
  now on at most one of the operator's active, unexpired leases has a given wavelength key.\<close>

theorem no_double_allocation:
  assumes "badger_ok (re_bd env)" and "\<forall>k. kv_get (re_bd env) (rg_db s) k = None" and "mono (re_clock env)"
    and "True \<notin> set (rg_io s)" and "all_on_time env ops s" and "re_clock env (rg_ticks (fold (reg_step env) ops s)) \<le> t"
    and "lease_view env (fold (reg_step env) ops s) i = Some l" and "lease_view env (fold (reg_step env) ops s) j = Some l'"
    and "holds (re_operatorID env) t key l" and "holds (re_operatorID env) t key l'"
  shows "i = j"
proof -
  have "db_typed env s" "exclusive (re_operatorID env) (re_clock env (rg_ticks s)) (lease_view env s)"
    using assms(2) by (simp_all add: db_typed_def exclusive_def lease_view_def)
  from history_exclusive [OF assms(1,3) this(1) assms(4,5) this(2)] exclusive_later [OF _ assms(6)] assms(7-10)
  show ?thesis unfolding exclusive_def by blast
qed

end
