(* ===== verification/RegistryRuns.thy ===== *)
theory RegistryRuns
  imports Registry "HOL-Library.Code_Target_Nat"
begin

text \<open>
  Runs of the registry engine of \<open>Registry\<close>: what an operation leaves behind when it succeeds, the
  life of a token from allocation over renewal to revocation, commitments and restarts, and a
  concrete instance of the parameters on which the hypotheses of the theorems hold.
\<close>

section \<open>What a successful operation leaves behind\<close>

text \<open>\<open>result P\<close>: a postcondition for success only.\<close>

definition result :: "('a \<Rightarrow> 'db registry \<Rightarrow> bool) \<Rightarrow> ustring + 'a \<Rightarrow> 'db registry \<Rightarrow> bool" where
  "result P r s \<longleftrightarrow> (case r of Inl _ \<Rightarrow> True | Inr v \<Rightarrow> P v s)"

lemma result_simps [simp]: "result P (Inl e) s" "result P (Inr v) s \<longleftrightarrow> P v s"
  by (simp_all add: result_def)

lemma resultD: "wp m (result P) s \<Longrightarrow> m s = (Inr v, s') \<Longrightarrow> P v s'"
  by (simp add: wp_def)

definition allocated :: "'db reg_env \<Rightarrow> wavelength option \<Rightarrow> 'db registry \<Rightarrow> lease \<times> lease_token \<Rightarrow> 'db registry \<Rightarrow> bool" where
  "allocated env ow s r s' \<longleftrightarrow> (case r of (l, token) \<Rightarrow> lease_view env s (l_ID l) = None
     \<and> lease_view env s' = (lease_view env s)(l_ID l \<mapsto> l) \<and> ready env s'
     \<and> l_Status l = LeaseStatusActive \<and> l_OperatorID l = re_operatorID env \<and> l_Wavelength l = ow \<and> issued env l token)"

lemma Allocate_result:
  assumes "ready env s"
  shows "wp (AllocateLease env ow ep d) (result (allocated env ow s)) s"
proof (cases "ow = None \<or> ep = [] \<or> d \<le> 0")
  case True
  then show ?thesis by (auto simp: AllocateLease_def wp)
next
  case False
  then obtain w where w: "ow = Some w" by auto
  have bd: "badger_ok (re_bd env)" and ty: "lease_typed env s" and io: "True \<notin> set (rg_io s)" using assms by (simp_all add: ready_def)
  let ?s0 = "s\<lparr>rg_ticks := Suc (rg_ticks s)\<rparr>"
  have f0: "frames env s ?s0" by (rule frames_ticks)
  have "wp (checkConflictLocked env (Some w) []) (\<lambda>r s1. case r of Inl e \<Rightarrow> result (allocated env ow s) (Inl e) s1
     | Inr found \<Rightarrow> wp (case found of Some c \<Rightarrow> act_fail (ulit ''wavelength conflict detected with lease '' @ l_ID c)
        | None \<Rightarrow> new_lease env (re_clock env (rg_ticks s)) ow ep d) (result (allocated env ow s)) s1) ?s0"
  proof (rule wp_conflict [OF bd frames_typed [OF f0 ty]], goal_cases)
    case (3 s1 k)
    have f: "frames env s s1" using frames_trans [OF f0 3(1)] .
    show ?case unfolding sum.case option.case
    proof (rule wp_new_lease [OF bd frames_typed [OF f ty]], goal_cases)
      case (2 l token s2 s3)
      have "True \<notin> set (rg_io s3)" using 2(1,5) io frames_facts [OF f] frames_facts [OF 2(1)] by auto
      with 2 show ?case by (simp add: allocated_def ready_def bd frames_view [OF f])
    qed simp
  qed (use io in \<open>simp_all add: wp\<close>)
  then show ?thesis using False unfolding w by (simp add: AllocateLease_def wp_bind wp_now)
qed

definition renewed :: "'db reg_env \<Rightarrow> ustring \<Rightarrow> duration \<Rightarrow> 'db registry \<Rightarrow> lease \<times> lease_token \<Rightarrow> 'db registry \<Rightarrow> bool" where
  "renewed env i ext s r s' \<longleftrightarrow> (case r of (l', token) \<Rightarrow> \<exists>l now h. 0 < ext \<and> lease_view env s i = Some l \<and> l_Status l = LeaseStatusActive
     \<and> l' = l\<lparr>l_EndTime := l_EndTime l + ext, l_TokenHash := h, l_UpdatedAt := now\<rparr>
     \<and> lease_view env s' = (lease_view env s)(i \<mapsto> l') \<and> ready env s' \<and> issued env l' token)"

lemma Renew_result:
  assumes "ready env s"
  shows "wp (RenewLease env i ext) (result (renewed env i ext s)) s"
proof (cases "i = [] \<or> ext \<le> 0")
  case True
  then show ?thesis by (auto simp: RenewLease_def wp)
next
  case False
  then have n: "(i = []) = False" "(ext \<le> 0) = False" by simp_all
  have bd: "badger_ok (re_bd env)" and ty: "lease_typed env s" and io: "True \<notin> set (rg_io s)" using assms(1) by (simp_all add: ready_def)
  show ?thesis
    unfolding RenewLease_def n if_False
  proof (rule wp_get_bind [OF ty], simp, goal_cases)
    case (1 l s1)
    show ?case
    proof (cases "l_Status l \<noteq> LeaseStatusActive")
      case True
      then show ?thesis by (simp add: wp)
    next
      case False
      let ?s2 = "s1\<lparr>rg_ticks := Suc (rg_ticks s1)\<rparr>" and ?l = "l\<lparr>l_EndTime := l_EndTime l + ext, l_UpdatedAt := re_clock env (rg_ticks s1)\<rparr>"
      have f2: "frames env s ?s2" by (rule frames_trans [OF 1(1) frames_ticks(1)])
      note v = 1(4) and i = 1(5)
      have "wp (act_bind (issue_token env ?l) (\<lambda>token. act_bind (act_lift (hashToken (re_lib env) token)) (\<lambda>h.
             act_bind (act_err (\<lambda>e. ulit ''failed to update lease: '' @ e) (UpdateLease env (?l\<lparr>l_TokenHash := h\<rparr>))) (\<lambda>l.
             act_bind (act_ignore (appendAuditLog env ''RENEW_LEASE'' (l_ID l))) (\<lambda>_. act_ok (l, token))))))
          (result (renewed env i ext s)) ?s2"
      proof (rule wp_issue_bind [OF f2], simp, goal_cases)
        case (1 token h s3)
        note f = 1(1) and iss = 1(2)
        have ff: "lease_view env s3 = lease_view env s" "set (rg_io s3) \<subseteq> set (rg_io s)" using frames_facts [OF f] by simp_all
        show ?case unfolding wp_bind wp_err
        proof (rule wp_UpdateLease [OF bd frames_typed [OF f ty]], simp, goal_cases)
          case (1 s4 now l0)
          let ?l2 = "l\<lparr>l_EndTime := l_EndTime l + ext, l_TokenHash := h, l_UpdatedAt := now\<rparr>"
          have "issued env ?l2 token"
            using iss by (simp add: issued_def GenerateLeaseToken_def)
          then have r: "renewed env i ext s (?l2, token) s5" if "frames env s4 s5" for s5
            using 1 n v i False ff io bd frames_facts [OF that] frames_typed [OF that 1(5)]
            by (auto simp: renewed_def ready_def intro!: exI [of _ now] exI [of _ h])
          show ?case unfolding map_err_simps sum.case wp_ignore
            by (rule wp_frame [OF frame_audit [OF bd]]) (use r in \<open>simp add: wp\<close>)
        qed
      qed
      then show ?thesis using False by (simp add: wp_bind wp_now Let_def)
    qed
  qed
qed

definition revoked :: "'db reg_env \<Rightarrow> ustring \<Rightarrow> 'db registry \<Rightarrow> unit \<Rightarrow> 'db registry \<Rightarrow> bool" where
  "revoked env i s r s' \<longleftrightarrow> ready env s' \<and> (\<exists>l. lease_view env s' i = Some l \<and> l_Status l = LeaseStatusRevoked)"

lemma Revoke_result:
  assumes "ready env s"
  shows "wp (RevokeLease env i) (result (revoked env i s)) s"
proof (cases "i = []")
  case True
  then show ?thesis by (auto simp: RevokeLease_def wp)
next
  case False
  then have n: "(i = []) = False" by simp
  have bd: "badger_ok (re_bd env)" and ty: "lease_typed env s" and io: "True \<notin> set (rg_io s)" using assms(1) by (simp_all add: ready_def)
  show ?thesis
    unfolding RevokeLease_def n if_False
  proof (rule wp_get_bind [OF ty], simp, goal_cases)
    case (1 l s1)
    show ?case
    proof (cases "l_Status l = LeaseStatusRevoked")
      case True
      then show ?thesis by (simp add: wp)
    next
      case False
      let ?s2 = "s1\<lparr>rg_ticks := Suc (rg_ticks s1)\<rparr>"
      have f2: "frames env s ?s2" by (rule frames_trans [OF 1(1) frames_ticks(1)])
      note i = 1(5)
      have "wp (act_bind (act_err (\<lambda>e. ulit ''failed to update lease: '' @ e)
            (UpdateLease env (l\<lparr>l_Status := LeaseStatusRevoked, l_UpdatedAt := re_clock env (rg_ticks s1)\<rparr>))) (\<lambda>l.
          act_bind (act_ignore (appendAuditLog env ''REVOKE_LEASE'' (l_ID l))) (\<lambda>_. act_ok ()))) (result (revoked env i s)) ?s2"
        unfolding wp_bind wp_err
      proof (rule wp_UpdateLease [OF bd frames_typed [OF f2 ty]], simp, goal_cases)
        case (1 s4 now l0)
        have r: "revoked env i s () s5" if "frames env s4 s5" for s5
          using 1 i io bd frames_facts [OF f2] frames_facts [OF that] frames_typed [OF that 1(5)]
          by (auto simp: revoked_def ready_def)
        show ?case unfolding map_err_simps sum.case wp_ignore
          by (rule wp_frame [OF frame_audit [OF bd]]) (use r in \<open>simp add: wp\<close>)
      qed
      then show ?thesis using False by (simp add: wp_bind wp_now)
    qed
  qed
qed

section \<open>The life of a token\<close>

lemma GetLease_ready:
  assumes "ready env s" and "lease_view env s i = Some l"
  shows "GetLease env i s = (Inr l, s\<lparr>rg_io := tl (rg_io s)\<rparr>)"
proof -
  have "i \<noteq> []" using lease_view_typed [OF _ assms(2)] assms(1) by (auto simp: ready_def)
  moreover have "kv_get (re_bd env) (rg_db s) (prefixLease @ i) = Some (VLease l)"
    using assms(2) by (auto simp: lease_view_def split: option.splits db_value.splits)
  moreover have "act_txn s = (Inr (), s\<lparr>rg_io := tl (rg_io s)\<rparr>)" using assms(1) by (intro act_txn_ok) (simp add: ready_def)
  ultimately show ?thesis by (simp add: GetLease_def Let_def act_bind_def)
qed

lemma issued_fields:
  assumes "issued env l token"
  shows "t_LeaseID token = l_ID l" "t_OperatorID token = cr_operatorID (re_crypto env)" "t_EndpointID token = l_EndpointID l"
    "t_Wavelength token = l_Wavelength l" "t_Version token = 1" "t_StartTime token = l_StartTime l" "t_EndTime token = l_EndTime l"
    "cr_privateKey (re_crypto env) \<noteq> None"
  using assms by (auto simp: issued_def GenerateLeaseToken_def signToken_def sign_digest_def Let_def res split: option.splits)

lemma own_key:
  assumes "keys_correct lib" and "cr_privateKey e \<noteq> None"
  obtains pk where "GetPublicKey lib e = Inr pk"
proof -
  obtain k where k: "cr_privateKey e = Some k" using assms(2) by auto
  obtain der where "marshal_pkix lib (ecdsa_public lib k) = Inr der" using assms(1) unfolding keys_correct_def by blast
  with k show thesis by (intro that [of "pem_encode lib der"]) (simp add: GetPublicKey_def)
qed

lemma issued_verifies:
  assumes "ready env s" and "ecdsa_correct (re_lib env)" and "keys_correct (re_lib env)" and "mono (re_clock env)"
    and "lease_view env s (l_ID l) = Some l" and "l_Status l = LeaseStatusActive" and "issued env l token"
    and "re_clock env (Suc (rg_ticks s)) \<le> l_EndTime l"
  shows "fst (VerifyLease env (Some token) s) = Inr ()"
proof -
  obtain pk where pk: "GetPublicKey (re_lib env) (re_crypto env) = Inr pk" using own_key [OF assms(3)] issued_fields(8) [OF assms(7)] by blast
  have t: "re_clock env (rg_ticks s) \<le> l_EndTime l" using monoD [OF assms(4), of "rg_ticks s" "Suc (rg_ticks s)"] assms(8) by simp
  have "ValidateLeaseToken (re_lib env) (re_clock env (Suc (rg_ticks s))) (Some token) pk = Inr ()"
    using token_validates [OF assms(2,3) _ pk] assms(7,8) by (auto simp: issued_def)
  moreover have "hashToken (re_lib env) token = Inr (l_TokenHash l)" using assms(7) by (simp add: issued_def)
  ultimately show ?thesis
    using t assms(6) issued_fields(1) [OF assms(7)] GetLease_ready [OF assms(1,5)] pk
    by (simp add: VerifyLease_def act_bind_def act_err_def not_less)
qed

lemma verify_rejects:
  assumes "ready env s" and "lease_view env s (t_LeaseID token) = Some l"
    and "l_Status l \<noteq> LeaseStatusActive \<or> hashToken (re_lib env) token \<noteq> Inr (l_TokenHash l)"
  shows "\<not> is_ok (fst (VerifyLease env (Some token) s))"
  using assms(3) GetLease_ready [OF assms(1,2)]
  by (auto simp: VerifyLease_def act_bind_def act_err_def split: sum.split)

lemma token_text_end:
  assumes "token_text a w = token_text b w" and "0 \<le> t_EndTime a" and "0 \<le> t_EndTime b"
    and "t_LeaseID a = t_LeaseID b" "t_OperatorID a = t_OperatorID b" "t_EndpointID a = t_EndpointID b" "t_Version a = t_Version b" "t_StartTime a = t_StartTime b"
  shows "t_EndTime a = t_EndTime b"
  using assms RFC3339Nano_inj by (simp add: token_text_def)

lemma renewal_replaces:
  assumes "issued env l token" and "issued env l' token'" and "l' = l\<lparr>l_EndTime := l_EndTime l + ext, l_TokenHash := h, l_UpdatedAt := now\<rparr>"
    and "0 < ext" and "0 \<le> l_EndTime l" and "l_Wavelength l = Some w"
    and "sha3_256 (re_lib env) (utf8 (token_text token w)) = sha3_256 (re_lib env) (utf8 (token_text token' w))
      \<Longrightarrow> token_text token w = token_text token' w"
  shows "hashToken (re_lib env) token \<noteq> Inr (l_TokenHash l')"
proof
  assume "hashToken (re_lib env) token = Inr (l_TokenHash l')"
  moreover have "hashToken (re_lib env) token' = Inr (l_TokenHash l')" using assms(2) by (simp add: issued_def)
  ultimately have "token_text token w = token_text token' w"
    using assms(6,7) issued_fields(4) [OF assms(1)] issued_fields(4) [OF assms(2)] by (simp add: hashToken_def assms(3))
  from token_text_end [OF this] assms(4,5) issued_fields [OF assms(1)] issued_fields [OF assms(2)] show False
    by (simp add: assms(3))
qed

text \<open>(C11) The life of a token: the token of an allocation is accepted until the lease runs out; renewing
  the lease gives a token that is accepted from then on, and the first one is rejected; after revocation
  the renewed token is rejected, too. The hash is required not to collide on the two tokens.\<close>

theorem token_lifecycle:
  assumes "ready env s" and "ecdsa_correct (re_lib env)" and "keys_correct (re_lib env)" and "mono (re_clock env)"
    and "AllocateLease env (Some w) ep d s = (Inr (l, token), s1)"
    and "RenewLease env (l_ID l) ext s1 = (Inr (l', token'), s2)" and "RevokeLease env (l_ID l) s2 = (Inr (), s3)"
    and "sha3_256 (re_lib env) (utf8 (token_text token w)) = sha3_256 (re_lib env) (utf8 (token_text token' w))
      \<longrightarrow> token_text token w = token_text token' w"
    and "0 \<le> l_EndTime l" and "re_clock env (Suc (rg_ticks s2)) \<le> l_EndTime l'" and "re_clock env (Suc (rg_ticks s1)) \<le> l_EndTime l"
  shows "fst (VerifyLease env (Some token) s1) = Inr () \<and> fst (VerifyLease env (Some token') s2) = Inr ()
    \<and> \<not> is_ok (fst (VerifyLease env (Some token) s2)) \<and> \<not> is_ok (fst (VerifyLease env (Some token') s3))"
proof -
  have a: "allocated env (Some w) s (l, token) s1" by (rule resultD [OF Allocate_result [OF assms(1)] assms(5)])
  then have r1: "ready env s1" and v1: "lease_view env s1 (l_ID l) = Some l" and al: "l_Status l = LeaseStatusActive" "l_Wavelength l = Some w"
    and i: "issued env l token" by (auto simp: allocated_def)
  have "renewed env (l_ID l) ext s1 (l', token') s2" by (rule resultD [OF Renew_result [OF r1] assms(6)])
  then obtain now h where r2: "ready env s2" and l': "l' = l\<lparr>l_EndTime := l_EndTime l + ext, l_TokenHash := h, l_UpdatedAt := now\<rparr>" "0 < ext"
    and v2: "lease_view env s2 (l_ID l') = Some l'" and i': "issued env l' token'" by (auto simp: renewed_def v1)
  have "revoked env (l_ID l) s2 () s3" by (rule resultD [OF Revoke_result [OF r2] assms(7)])
  then obtain l3 where r3: "ready env s3" and v3: "lease_view env s3 (t_LeaseID token') = Some l3" "l_Status l3 = LeaseStatusRevoked"
    using issued_fields(1) [OF i'] l' by (auto simp: revoked_def)
  have id: "t_LeaseID token = l_ID l'" using issued_fields(1) [OF i] l' by simp
  have "\<not> is_ok (fst (VerifyLease env (Some token) s2))"
    by (rule verify_rejects [OF r2, of _ l'])
      (use v2 id renewal_replaces [OF i i' l' assms(9) al(2)] assms(8) in simp_all)
  moreover have "\<not> is_ok (fst (VerifyLease env (Some token') s3))"
    by (rule verify_rejects [OF r3 v3(1)]) (simp add: v3 status_defs)
  moreover have "l_Status l' = LeaseStatusActive" using al l' by simp
  ultimately show ?thesis
    using issued_verifies [OF r1 assms(2-4) v1 al(1) i assms(11)] issued_verifies [OF r2 assms(2-4) v2 _ i' assms(10)] by simp
qed

text \<open>(C34) A late renewal gives a wavelength away twice: once a lease has run out its wavelength can be
  allocated again, and \<open>RenewLease\<close> then still extends the old lease. Both leases are active
  and unexpired at every time before the earlier of their ends.\<close>

theorem late_renewal_double_allocation:
  assumes "ready env s" and "lease_view env s i = Some l" and "l_OperatorID l = re_operatorID env" and "l_Wavelength l = Some w"
    and "AllocateLease env (Some w) ep d s = (Inr (l', token'), s1)" and "RenewLease env i ext s1 = (Inr (l2, token2), s2)"
    and "t < l_EndTime l'" and "t < l_EndTime l + ext"
  shows "l_ID l' \<noteq> i \<and> lease_view env s2 (l_ID l') = Some l' \<and> lease_view env s2 i = Some l2
    \<and> holds (re_operatorID env) t (ToKey w) l' \<and> holds (re_operatorID env) t (ToKey w) l2"
proof -
  have a: "allocated env (Some w) s (l', token') s1" by (rule resultD [OF Allocate_result [OF assms(1)] assms(5)])
  then have r1: "ready env s1" and ne: "l_ID l' \<noteq> i" using assms(2) by (auto simp: allocated_def)
  have "renewed env i ext s1 (l2, token2) s2" by (rule resultD [OF Renew_result [OF r1] assms(6)])
  with a ne assms(2-4,7,8) show ?thesis by (auto simp: allocated_def renewed_def holds_def)
qed

section \<open>Commitments\<close>

lemma audit_keeps:
  assumes "badger_ok (re_bd env)" and "\<not> has_prefix k prefixAudit"
  shows "kv_get (re_bd env) (rg_db (snd (appendAuditLog env operation i s))) k = kv_get (re_bd env) (rg_db s) k"
proof -
  have "k \<noteq> audit_key t" for t using assms(2) by (auto simp: audit_key_def)
  then show ?thesis
    by (auto simp: appendAuditLog_def AppendAuditLog_def act_bind_def act_txn_def Let_def kv_get_set [OF assms(1)] split: sum.split list.split)
qed

lemma audit_height [simp]: "rg_blockHeight (snd (appendAuditLog env operation i s)) = rg_blockHeight s"
  by (auto simp: appendAuditLog_def AppendAuditLog_def act_bind_def act_txn_def Let_def split: sum.split list.split)

lemma commitment_keys: "height_key op h \<noteq> latest_key op" "\<not> has_prefix (height_key op h) prefixAudit" "\<not> has_prefix (latest_key op) prefixAudit"
proof -
  have "ulit '':latest'' = 58 # 108 # ulit ''atest''" by (simp add: ulit_def)
  moreover have "show_int i \<noteq> 108 # r" for i r
    using show_nat_digits [of "nat i"] by (auto simp: show_int_def is_digit_def split: if_splits)
  ultimately show "height_key op h \<noteq> latest_key op" by (simp add: height_key_def latest_key_def)
  show "\<not> has_prefix (height_key op h) prefixAudit" "\<not> has_prefix (latest_key op) prefixAudit"
    by (simp_all add: height_key_def latest_key_def has_prefix_def prefix_defs ulit_def)
qed

definition committed :: "'db reg_env \<Rightarrow> 'db registry \<Rightarrow> merkle_commitment \<Rightarrow> 'db registry \<Rightarrow> bool" where
  "committed env s c s' \<longleftrightarrow> (\<exists>ls tree now draw c0.
     set ls = {l. lease_view env s (l_ID l) = Some l \<and> \<not> filter_skips (active_filter env) l}
   \<and> BuildMerkleTree (re_lib env) ls = Some tree
   \<and> SignMerkleCommitment (re_lib env) (re_crypto env) (mn_Hash tree) (rg_blockHeight s + 1) now draw = Inr c0
   \<and> c = c0\<lparr>mc_LeaseCount := of_nat (length ls)\<rparr>)
   \<and> kv_get (re_bd env) (rg_db s') (height_key (mc_OperatorID c) (mc_BlockHeight c)) = Some (VCommitment c)
   \<and> kv_get (re_bd env) (rg_db s') (latest_key (mc_OperatorID c)) = Some (VCommitment c)
   \<and> rg_blockHeight s' = rg_blockHeight s + 1 \<and> mc_OperatorID c \<noteq> []"

lemma wp_Save:
  assumes bd: "badger_ok (re_bd env)" and "\<And>e s1. Q (Inl e) s1"
    and "\<And>s1. kv_get (re_bd env) (rg_db s1) = (kv_get (re_bd env) (rg_db s))(height_key (mc_OperatorID c) (mc_BlockHeight c) \<mapsto> VCommitment c,
        latest_key (mc_OperatorID c) \<mapsto> VCommitment c) \<Longrightarrow> rg_blockHeight s1 = rg_blockHeight s \<Longrightarrow> mc_OperatorID c \<noteq> [] \<Longrightarrow> Q (Inr ()) s1"
  shows "wp (SaveCommitment env c) Q s"
proof (cases "mc_OperatorID c \<noteq> [] \<and> year_ok (mc_Timestamp c)")
  case True
  obtain r s1 where t: "act_txn s = (r, s1)" by fastforce
  from act_txn_state [OF t] obtain io where s1: "s1 = s\<lparr>rg_io := io\<rparr>" by blast
  show ?thesis
    using True assms(2) by (cases r) (auto simp: SaveCommitment_def marshal_def wp wp_txn t s1 kv_get_set [OF bd] intro!: assms(3))
qed (use assms(2) in \<open>auto simp: SaveCommitment_def marshal_def wp\<close>)

lemma wp_pure: "wp (\<lambda>s. (f s, s)) Q s \<longleftrightarrow> Q (f s) s" "wp (\<lambda>s. (Inr v, g s)) Q s \<longleftrightarrow> Q (Inr v) (g s)"
  by (simp_all add: wp_def)

lemma map_err_Inr: "map_err f r = Inr v \<longleftrightarrow> r = Inr v"
  by (cases r) simp_all

lemma Commit_result:
  assumes "ready env s"
  shows "wp (CommitMerkleTree env) (result (committed env s)) s"
proof -
  have bd: "badger_ok (re_bd env)" and ty: "lease_typed env s" and io: "True \<notin> set (rg_io s)" using assms(1) by (simp_all add: ready_def)
  obtain ls where ls: "ListLeases env (active_filter env) s = (Inr ls, s\<lparr>rg_io := tl (rg_io s)\<rparr>)"
    "set ls = {l. lease_view env s (l_ID l) = Some l \<and> \<not> filter_skips (active_filter env) l}"
    using ListLeases_typed [OF bd ty io] by blast
  have l: "wp (ListLeases env (active_filter env)) Q s \<longleftrightarrow> Q (Inr ls) (s\<lparr>rg_io := tl (rg_io s)\<rparr>)" for Q
    by (simp add: wp_def ls)
  have "result (committed env s) (Inr c) (snd (appendAuditLog env ''COMMIT_MERKLE'' [] s1))"
    if "BuildMerkleTree (re_lib env) ls = Some tree" and "c = c0\<lparr>mc_LeaseCount := of_nat (length ls)\<rparr>"
      and "SignMerkleCommitment (re_lib env) (re_crypto env) (mn_Hash tree) (rg_blockHeight s + 1) now draw = Inr c0"
      and "kv_get (re_bd env) (rg_db s1) = (kv_get (re_bd env) db)(height_key (mc_OperatorID c) (mc_BlockHeight c) \<mapsto> VCommitment c,
          latest_key (mc_OperatorID c) \<mapsto> VCommitment c)" and "rg_blockHeight s1 = rg_blockHeight s + 1" "mc_OperatorID c \<noteq> []"
    for tree c c0 now draw s1 db
    unfolding result_simps committed_def
  proof (intro conjI)
    show "\<exists>ls tree now draw c0. set ls = {l. lease_view env s (l_ID l) = Some l \<and> \<not> filter_skips (active_filter env) l}
        \<and> BuildMerkleTree (re_lib env) ls = Some tree
        \<and> SignMerkleCommitment (re_lib env) (re_crypto env) (mn_Hash tree) (rg_blockHeight s + 1) now draw = Inr c0
        \<and> c = c0\<lparr>mc_LeaseCount := of_nat (length ls)\<rparr>"
      using that(1-3) ls(2) by blast
  qed (use that commitment_keys in \<open>simp_all add: audit_keeps [OF bd]\<close>)
  then show ?thesis
    unfolding CommitMerkleTree_def Let_def
    by (auto simp: wp l build_tree_def wp_pure map_err_Inr
        wp_def [of "appendAuditLog env what i" for what i] intro!: wp_Save [OF bd] split: option.split sum.split)
qed

text \<open>(C35) A commitment covers exactly the active leases, carries the next block height and can be read
  back as the latest one. But the engine signs it with a lease count of 0 and sets the count
  afterwards: the one signature it carries was made for \<open>data0\<close>, the encoding with count 0, while
  \<open>VerifyMerkleCommitment\<close> accepts it exactly when that signature verifies for \<open>data\<close>, the encoding
  with the real count. Without active leases the two are the same and the commitment is accepted.
  With a lease they differ, so that it is accepted only if ECDSA takes the signature for a message
  that was not signed.\<close>

theorem commitment_signature:
  assumes "ready env s" and "ecdsa_correct (re_lib env)" and "keys_correct (re_lib env)" and "json_correct (re_lib env)"
    and "CommitMerkleTree env s = (Inr c, s')" and "GetPublicKey (re_lib env) (re_crypto env) = Inr pk"
    and "json_commitment (re_lib env) (commitment_fields c) = Inr data"
    and "cr_operatorID (re_crypto env) = re_operatorID env" and "True \<notin> set (rg_io s')"
  shows "(\<exists>ls tree. set ls = {l. lease_view env s (l_ID l) = Some l \<and> \<not> filter_skips (active_filter env) l}
      \<and> BuildMerkleTree (re_lib env) ls = Some tree \<and> mc_RootHash c = mn_Hash tree \<and> mc_LeaseCount c = of_nat (length ls))
    \<and> mc_BlockHeight c = rg_blockHeight s + 1 \<and> fst (engine_GetLatestCommitment env s') = Inr c
    \<and> (\<exists>k data0 draw r q. cr_privateKey (re_crypto env) = Some k
        \<and> json_commitment (re_lib env) (commitment_fields (c\<lparr>mc_LeaseCount := 0\<rparr>)) = Inr data0
        \<and> ecdsa_sign (re_lib env) k (sha3_256 (re_lib env) data0) draw = Inr (r, q)
        \<and> (is_ok (VerifyMerkleCommitment (re_lib env) (Some c) pk)
            \<longleftrightarrow> ecdsa_verify (re_lib env) (ecdsa_public (re_lib env) k) (sha3_256 (re_lib env) data) r q)
        \<and> (if mc_LeaseCount c = 0 then is_ok (VerifyMerkleCommitment (re_lib env) (Some c) pk) else data \<noteq> data0))"
proof -
  have com: "committed env s c s'" by (rule resultD [OF Commit_result [OF assms(1)] assms(5)])
  then obtain ls tree now draw c0 where c: "set ls = {l. lease_view env s (l_ID l) = Some l \<and> \<not> filter_skips (active_filter env) l}"
      "BuildMerkleTree (re_lib env) ls = Some tree" "c = c0\<lparr>mc_LeaseCount := of_nat (length ls)\<rparr>"
    and c0: "SignMerkleCommitment (re_lib env) (re_crypto env) (mn_Hash tree) (rg_blockHeight s + 1) now draw = Inr c0"
    and st: "kv_get (re_bd env) (rg_db s') (latest_key (mc_OperatorID c)) = Some (VCommitment c)" "mc_OperatorID c \<noteq> []"
    by (auto simp: committed_def)
  from c0 have f: "mc_RootHash c0 = mn_Hash tree" "mc_BlockHeight c0 = rg_blockHeight s + 1" "mc_OperatorID c0 = re_operatorID env" "mc_LeaseCount c0 = 0"
    using assms(8) by (auto simp: SignMerkleCommitment_def Let_def res split: if_splits)
  have z: "c\<lparr>mc_LeaseCount := 0\<rparr> = c0" "mc_LeaseCount c = of_nat (length ls)" using c(3) f(4) by simp_all
  obtain k data0 r q where "cr_privateKey (re_crypto env) = Some k" "json_commitment (re_lib env) (commitment_fields c0) = Inr data0"
    "ecdsa_sign (re_lib env) k (sha3_256 (re_lib env) data0) draw = Inr (r, q)"
    "is_ok (VerifyMerkleCommitment (re_lib env) (Some c) pk)
      \<longleftrightarrow> ecdsa_verify (re_lib env) (ecdsa_public (re_lib env) k) (sha3_256 (re_lib env) data) r q"
    "data = data0 \<longleftrightarrow> mc_LeaseCount c = 0" "ecdsa_verify (re_lib env) (ecdsa_public (re_lib env) k) (sha3_256 (re_lib env) data0) r q"
    by (rule commitment_verifies [OF assms(2-4) c0 assms(6) assms(7) [unfolded c(3)], folded c(3), folded z(2)])
  then have "\<exists>k data0 draw r q. cr_privateKey (re_crypto env) = Some k
        \<and> json_commitment (re_lib env) (commitment_fields (c\<lparr>mc_LeaseCount := 0\<rparr>)) = Inr data0
        \<and> ecdsa_sign (re_lib env) k (sha3_256 (re_lib env) data0) draw = Inr (r, q)
        \<and> (is_ok (VerifyMerkleCommitment (re_lib env) (Some c) pk)
            \<longleftrightarrow> ecdsa_verify (re_lib env) (ecdsa_public (re_lib env) k) (sha3_256 (re_lib env) data) r q)
        \<and> (if mc_LeaseCount c = 0 then is_ok (VerifyMerkleCommitment (re_lib env) (Some c) pk) else data \<noteq> data0)"
    unfolding z(1) by metis
  moreover have "fst (engine_GetLatestCommitment env s') = Inr c"
    using st c(3) f(3) act_txn_ok [OF assms(9)]
    by (simp add: engine_GetLatestCommitment_def GetLatestCommitment_def read_commitment_def act_bind_def)
  moreover have "mc_RootHash c = mn_Hash tree" "mc_BlockHeight c = rg_blockHeight s + 1" using f(1,2) c(3) by simp_all
  ultimately show ?thesis using c(1,2) z(2) by blast
qed

lemma restart_overwrites_commitment:
  assumes "ready env s" and "ready env s1" and "CommitMerkleTree env (NewEngine s) = (Inr c, s1)" and "CommitMerkleTree env (NewEngine s1) = (Inr c', s2)"
  shows "mc_BlockHeight c' = mc_BlockHeight c
    \<and> kv_get (re_bd env) (rg_db s2) (height_key (mc_OperatorID c) (mc_BlockHeight c)) = Some (VCommitment c')"
proof -
  have r: "ready env (NewEngine s)" "ready env (NewEngine s1)" using assms(1,2) by (simp_all add: ready_def NewEngine_def lease_typed_def)
  have a: "committed env (NewEngine s) c s1" by (rule resultD [OF Commit_result [OF r(1)] assms(3)])
  have b: "committed env (NewEngine s1) c' s2" by (rule resultD [OF Commit_result [OF r(2)] assms(4)])
  have h: "mc_BlockHeight c = 1 \<and> mc_OperatorID c = cr_operatorID (re_crypto env)" if "committed env (NewEngine s) c s'" for s c s'
    using that by (auto simp: committed_def NewEngine_def SignMerkleCommitment_def Let_def res split: if_splits)
  show ?thesis using h [OF a] h [OF b] b by (simp add: committed_def)
qed

section \<open>Runs that succeed\<close>

definition stands :: "'db reg_env \<Rightarrow> (ustring \<rightharpoonup> lease) \<Rightarrow> nat \<Rightarrow> nat \<Rightarrow> 'db registry \<Rightarrow> bool" where
  "stands env V n d s \<longleftrightarrow> ready env s \<and> lease_view env s = V \<and> rg_ticks s = n \<and> rg_draws s = d"

lemma view_upd:
  "lease_view env (s\<lparr>rg_io := io\<rparr>) = lease_view env s" "lease_view env (s\<lparr>rg_ticks := n\<rparr>) = lease_view env s"
  "lease_typed env (s\<lparr>rg_io := io\<rparr>) = lease_typed env s" "lease_typed env (s\<lparr>rg_ticks := n\<rparr>) = lease_typed env s"
  by (simp_all add: lease_view_def lease_typed_def fun_eq_iff)

lemma stands_tl: "stands env V n d s \<Longrightarrow> stands env V n d (s\<lparr>rg_io := tl (rg_io s)\<rparr>)"
  by (cases "rg_io s") (auto simp: stands_def ready_def view_upd)

lemma stands_tick: "stands env V n d s \<Longrightarrow> stands env V (Suc n) d (s\<lparr>rg_ticks := Suc (rg_ticks s)\<rparr>)"
  by (auto simp: stands_def ready_def view_upd)

lemma wp_eff: "wp m (\<lambda>r s1. r = Inr x \<and> P s1) s \<Longrightarrow> (\<And>s1. P s1 \<Longrightarrow> wp (f x) Q s1) \<Longrightarrow> wp (act_bind m f) Q s"
  by (auto simp: wp_def act_bind_def split: prod.splits)

lemma eff_now: "stands env V n d s \<Longrightarrow> wp (act_now env) (\<lambda>r s'. r = Inr (re_clock env n) \<and> stands env V (Suc n) d s') s"
  by (auto simp: wp stands_def ready_def lease_typed_def lease_view_def)

lemma eff_draw: "stands env V n d s \<Longrightarrow> wp act_draw (\<lambda>r s'. r = Inr d \<and> stands env V n (Suc d) s') s"
  by (auto simp: wp stands_def ready_def lease_typed_def lease_view_def)

lemma eff_lift: "stands env V n d s \<Longrightarrow> wp (act_err e (act_lift (Inr x))) (\<lambda>r s'. r = Inr x \<and> stands env V n d s') s"
  by (simp add: wp)

lemma audit_counters:
  "rg_ticks (snd (appendAuditLog env operation i s)) = Suc (rg_ticks s)" "rg_draws (snd (appendAuditLog env operation i s)) = rg_draws s"
  by (auto simp: appendAuditLog_def AppendAuditLog_def act_bind_def act_txn_def Let_def split: sum.split list.split)

lemma eff_audit:
  assumes "stands env V n d s"
  shows "wp (act_ignore (appendAuditLog env operation i)) (\<lambda>r s'. r = Inr () \<and> stands env V (Suc n) d s') s"
proof -
  have bd: "badger_ok (re_bd env)" using assms by (simp add: stands_def ready_def)
  have f: "frames env s (snd (appendAuditLog env operation i s))" using frame_audit [OF bd] by (simp add: act_frame_def)
  from frames_facts [OF f] frames_typed [OF f] assms show ?thesis
    by (auto simp: wp_def stands_def ready_def audit_counters)
qed

lemma eff_tail:
  assumes "stands env V n d s" and "\<And>s1. stands env V (Suc n) d s1 \<Longrightarrow> Q (Inr x) s1"
  shows "wp (act_bind (act_ignore (appendAuditLog env operation i)) (\<lambda>_. act_ok x)) Q s"
  by (rule wp_eff [OF eff_audit [OF assms(1)]]) (simp add: wp_base assms(2))

lemma stands_db:
  assumes "stands env V n d s" and "l_ID l \<noteq> []"
  shows "stands env (V(l_ID l \<mapsto> l)) n d (s\<lparr>rg_db := kv_set (re_bd env) (rg_db s) (prefixLease @ l_ID l) (VLease l)\<rparr>)"
proof -
  have bd: "badger_ok (re_bd env)" using assms by (simp add: stands_def ready_def)
  show ?thesis
    using assms by (auto simp: stands_def ready_def lease_view_def lease_typed_def kv_get_set [OF bd] fun_eq_iff)
qed

lemma view_kv:
  assumes "stands env V n d s"
  shows "V i = None \<Longrightarrow> kv_get (re_bd env) (rg_db s) (prefixLease @ i) = None"
    and "V i = Some l \<Longrightarrow> kv_get (re_bd env) (rg_db s) (prefixLease @ i) = Some (VLease l) \<and> i \<noteq> [] \<and> l_ID l = i"
    and "act_txn s = (Inr (), s\<lparr>rg_io := tl (rg_io s)\<rparr>)"
proof -
  have t: "lease_typed env s" "lease_view env s = V" "True \<notin> set (rg_io s)" using assms by (auto simp: stands_def ready_def)
  show "kv_get (re_bd env) (rg_db s) (prefixLease @ i) = None" if "V i = None"
  proof (cases "kv_get (re_bd env) (rg_db s) (prefixLease @ i)")
    case (Some v)
    then obtain l where "v = VLease l" using t(1) unfolding lease_typed_def value_ok_def by (metis has_prefix_append)
    with Some that t(2) show ?thesis by (auto simp: lease_view_def)
  qed
  show "kv_get (re_bd env) (rg_db s) (prefixLease @ i) = Some (VLease l) \<and> i \<noteq> [] \<and> l_ID l = i" if "V i = Some l"
    using that t(2) lease_view_typed [OF t(1), of i l] by simp
  show "act_txn s = (Inr (), s\<lparr>rg_io := tl (rg_io s)\<rparr>)" by (rule act_txn_ok [OF t(3)])
qed

lemma eff_get:
  assumes "stands env V n d s" and "V i = Some l"
  shows "wp (act_err e (GetLease env i)) (\<lambda>r s'. r = Inr l \<and> stands env V n d s') s"
proof -
  from stands_tl [OF assms(1)] GetLease_ready [of env s i l] assms show ?thesis by (simp add: wp_def act_err_def stands_def)
qed

lemma eff_create:
  assumes "stands env V n d s" and "l_ID l \<noteq> []" and "V (l_ID l) = None" and "lease_json_ok l"
  shows "wp (act_err e (CreateLease env l)) (\<lambda>r s'. r = Inr () \<and> stands env (V(l_ID l \<mapsto> l)) n d s') s"
  using view_kv [OF assms(1)] stands_db [OF stands_tl [OF assms(1)] assms(2)] assms(2-4)
  by (simp add: wp_def act_err_def CreateLease_def Let_def act_bind_def marshal_def)

lemma eff_update:
  assumes "stands env V n d s" and "V (l_ID l) = Some l0" and "lease_json_ok (l\<lparr>l_UpdatedAt := re_clock env n\<rparr>)"
  shows "wp (act_err e (UpdateLease env l)) (\<lambda>r s'. r = Inr (l\<lparr>l_UpdatedAt := re_clock env n\<rparr>)
    \<and> stands env (V(l_ID l \<mapsto> l\<lparr>l_UpdatedAt := re_clock env n\<rparr>)) (Suc n) d s') s"
proof -
  note k = view_kv(2) [OF assms(1,2)] view_kv(3) [OF assms(1)]
  let ?l = "l\<lparr>l_UpdatedAt := re_clock env n\<rparr>" and ?s = "s\<lparr>rg_ticks := Suc (rg_ticks s)\<rparr>"
  have n: "rg_ticks s = n" using assms(1) by (simp add: stands_def)
  from stands_db [OF stands_tick [OF stands_tl [OF assms(1)]], of ?l] k assms(3) show ?thesis
    by (simp add: wp_def act_err_def UpdateLease_def Let_def act_bind_def marshal_def n)
qed

text \<open>The engine can sign whatever the randomness.\<close>

definition signs :: "'db reg_env \<Rightarrow> bool" where
  "signs env \<longleftrightarrow> (\<forall>l k now draw. \<exists>token. GenerateLeaseToken (re_lib env) (re_crypto env) l (re_nonce env k) now draw = Inr token)"

lemma eff_issue:
  assumes "stands env V n d s" and "signs env"
  obtains token where "wp (issue_token env l) (\<lambda>r s'. r = Inr token \<and> stands env V (Suc n) (d + 2) s') s" "t_Wavelength token = l_Wavelength l"
proof -
  obtain token where g: "GenerateLeaseToken (re_lib env) (re_crypto env) l (re_nonce env d) (re_clock env n) (Suc d) = Inr token"
    using assms(2) unfolding signs_def by blast
  then have "t_Wavelength token = l_Wavelength l" by (auto simp: GenerateLeaseToken_def Let_def res)
  moreover have "wp (issue_token env l) (\<lambda>r s'. r = Inr token \<and> stands env V (Suc n) (d + 2) s') s"
    unfolding issue_token_def
    by (intro wp_eff [OF eff_draw [OF assms(1)]] wp_eff [OF eff_now] wp_eff [OF eff_draw]; assumption?)
      (auto simp: g numeral_2_eq_2 intro: eff_lift)
  ultimately show thesis by (rule that [rotated])
qed

lemma find_conflict_free:
  assumes "\<forall>l \<in> set ls. \<forall>w. l_Wavelength l = Some w \<longrightarrow> ToKey w = key \<longrightarrow> l_EndTime l \<le> now"
  shows "find_conflict now key i ls = None"
  using assms by (induction ls) (auto split: option.splits)

lemma eff_conflict:
  assumes "stands env V n d s" and "\<forall>i l. V i = Some l \<longrightarrow> \<not> holds (re_operatorID env) (re_clock env n) (ToKey w) l" and "re_operatorID env \<noteq> []"
  shows "wp (checkConflictLocked env (Some w) []) (\<lambda>r s'. r = Inr None \<and> stands env V (Suc n) d s') s"
proof -
  have r: "badger_ok (re_bd env)" "lease_typed env s" "True \<notin> set (rg_io s)" and v: "lease_view env s = V" "rg_ticks s = n"
    using assms(1) by (simp_all add: stands_def ready_def)
  obtain ls where ls: "ListLeases env (active_filter env) s = (Inr ls, s\<lparr>rg_io := tl (rg_io s)\<rparr>)"
    "set ls = {l. V (l_ID l) = Some l \<and> \<not> filter_skips (active_filter env) l}"
    using ListLeases_typed [OF r] v by blast
  have "stands env V (Suc n) d (s\<lparr>rg_io := tl (rg_io s), rg_ticks := Suc (rg_ticks s)\<rparr>)"
    using stands_tick [OF stands_tl [OF assms(1)]] by simp
  moreover have "find_conflict (re_clock env n) (ToKey w) [] ls = None"
  proof (rule find_conflict_free, intro ballI allI impI)
    fix l w' assume l: "l \<in> set ls" "l_Wavelength l = Some w'" "ToKey w' = ToKey w"
    with assms(2) ls(2) have "\<not> holds (re_operatorID env) (re_clock env n) (ToKey w) l" by auto
    with l assms(3) show "l_EndTime l \<le> re_clock env n" by (auto simp: ls(2) holds_def filter_skips_def active_filter_def status_defs)
  qed
  ultimately show ?thesis by (simp add: wp_def checkConflictLocked_def ls(1) act_bind_def v)
qed

lemma eff_token:
  assumes "stands env V n d s" and "signs env" and "l_Wavelength l = Some w"
    and "\<And>token h s1. stands env V (Suc n) (d + 2) s1 \<Longrightarrow> wp (k token h) Q s1"
  shows "wp (act_bind (issue_token env l) (\<lambda>token. act_bind (act_lift (hashToken (re_lib env) token)) (k token))) Q s"
proof -
  obtain token where t: "wp (issue_token env l) (\<lambda>r s'. r = Inr token \<and> stands env V (Suc n) (d + 2) s') s" "t_Wavelength token = l_Wavelength l"
    by (rule eff_issue [OF assms(1,2)])
  show ?thesis
    by (rule wp_eff [OF t(1)]) (simp add: wp_bind wp_base hashToken_def t(2) assms(3,4))
qed

definition leased :: "'db reg_env \<Rightarrow> nat \<Rightarrow> gotime \<Rightarrow> wavelength \<Rightarrow> ustring \<Rightarrow> duration \<Rightarrow> bytes \<Rightarrow> lease" where
  "leased env d now w ep dur h = \<lparr>l_ID = re_uuid env d, l_Wavelength = Some w, l_EndpointID = ep, l_OperatorID = re_operatorID env,
    l_Status = LeaseStatusActive, l_StartTime = now, l_EndTime = now + dur, l_CreatedAt = now,
    l_UpdatedAt = now, l_TokenHash = h, l_ParentHash = []\<rparr>"

lemma leased_upd: "\<lparr>l_ID = re_uuid env d, l_Wavelength = Some w, l_EndpointID = ep, l_OperatorID = re_operatorID env,
    l_Status = LeaseStatusActive, l_StartTime = now, l_EndTime = now + dur, l_CreatedAt = now,
    l_UpdatedAt = now, l_TokenHash = [], l_ParentHash = []\<rparr>\<lparr>l_TokenHash := h\<rparr> = leased env d now w ep dur h"
  by (simp add: leased_def)

lemma eff_new_lease:
  assumes "stands env V n d s" and "signs env" and "re_uuid env d \<noteq> []" and "V (re_uuid env d) = None"
    and "wavelength_json_ok (Some w)" and "year_ok now" and "year_ok (now + dur)"
  shows "wp (new_lease env now (Some w) ep dur) (\<lambda>r s'. \<exists>token h. r = Inr (leased env d now w ep dur h, token)
      \<and> stands env (V(re_uuid env d \<mapsto> leased env d now w ep dur h)) (n + 2) (d + 3) s') s"
  unfolding new_lease_def Let_def
proof (rule wp_eff [OF eff_draw [OF assms(1)]], rule eff_token [OF _ assms(2)], assumption, simp, unfold leased_upd, goal_cases)
  case (1 s1 token h s2)
  have c: "lease_json_ok (leased env d now w ep dur h)" "l_ID (leased env d now w ep dur h) = re_uuid env d"
    using assms(5-7) by (simp_all add: leased_def lease_json_ok_def)
  show ?case
    by (rule wp_eff [OF eff_create [OF 1(2)]], use assms(3,4) c in simp_all, erule eff_tail)
      (auto simp: numeral_2_eq_2 numeral_3_eq_3)
qed

lemma allocate_succeeds:
  assumes "stands env V n d s" and "signs env" and "ep \<noteq> []" and "0 < dur" and "re_operatorID env \<noteq> []"
    and "re_uuid env d \<noteq> []" "V (re_uuid env d) = None"
    and free: "\<forall>i l. V i = Some l \<longrightarrow> \<not> holds (re_operatorID env) (re_clock env (Suc n)) (ToKey w) l"
    and json: "wavelength_json_ok (Some w)" "year_ok (re_clock env n)" "year_ok (re_clock env n + dur)"
  obtains h token s' where "AllocateLease env (Some w) ep dur s = (Inr (leased env d (re_clock env n) w ep dur h, token), s')"
    "stands env (V(re_uuid env d \<mapsto> leased env d (re_clock env n) w ep dur h)) (n + 4) (d + 3) s'"
proof -
  have ne: "(Some w = None) = False" "(ep = []) = False" "(dur \<le> 0) = False" using assms(3,4) by simp_all
  have "wp (AllocateLease env (Some w) ep dur) (\<lambda>r s'. \<exists>token h. r = Inr (leased env d (re_clock env n) w ep dur h, token)
      \<and> stands env (V(re_uuid env d \<mapsto> leased env d (re_clock env n) w ep dur h)) (Suc (Suc n) + 2) (d + 3) s') s"
    unfolding AllocateLease_def ne if_False
    by (rule wp_eff [OF eff_now [OF assms(1)]], rule wp_eff [OF eff_conflict [OF _ free assms(5)]], assumption,
        unfold option.case, erule eff_new_lease [OF _ assms(2)]) (rule assms(6,7) json)+
  moreover have "Suc (Suc n) + 2 = n + 4" by simp
  ultimately show thesis unfolding wp_def by (metis that prod.collapse)
qed

lemma renew_succeeds:
  assumes "stands env V n d s" and "signs env" and "0 < ext" and "V i = Some l" and "l_Status l = LeaseStatusActive" and "l_Wavelength l = Some w"
    and "lease_json_ok (l\<lparr>l_EndTime := l_EndTime l + ext, l_UpdatedAt := re_clock env (Suc (Suc n))\<rparr>)"
  obtains h token s' l' where "RenewLease env i ext s = (Inr (l', token), s')"
    "l' = l\<lparr>l_EndTime := l_EndTime l + ext, l_TokenHash := h, l_UpdatedAt := re_clock env (Suc (Suc n))\<rparr>" "stands env (V(i \<mapsto> l')) (n + 4) (d + 2) s'"
proof -
  let ?l = "\<lambda>h. l\<lparr>l_EndTime := l_EndTime l + ext, l_TokenHash := h, l_UpdatedAt := re_clock env (Suc (Suc n))\<rparr>"
  have i: "i \<noteq> []" "l_ID l = i" using view_kv(2) [OF assms(1,4)] by auto
  have ne: "(i = []) = False" "(ext \<le> 0) = False" "(l_Status l \<noteq> LeaseStatusActive) = False" using assms(3,5) i by simp_all
  have "wp (RenewLease env i ext) (\<lambda>r s'. \<exists>token h. r = Inr (?l h, token) \<and> stands env (V(i \<mapsto> ?l h)) (n + 4) (d + 2) s') s"
    unfolding RenewLease_def ne if_False
  proof (rule wp_eff [OF eff_get [OF assms(1,4)]], unfold ne if_False Let_def, rule wp_eff [OF eff_now], assumption,
      rule eff_token [OF _ assms(2)], assumption, simp add: assms(6), goal_cases)
    case (1 s1 s2 token h s3)
    have j: "lease_json_ok (?l h)" using assms(7) by (simp add: lease_json_ok_def)
    have n: "n + 4 = Suc (Suc (Suc (Suc n)))" by simp
    show ?case unfolding n
      by (rule wp_eff [OF eff_update [OF 1(3)]], use j i assms(4) in simp_all, erule eff_tail)
        (auto simp: numeral_2_eq_2)
  qed
  then show thesis unfolding wp_def by (metis that prod.collapse)
qed

lemma revoke_succeeds:
  assumes "stands env V n d s" and "V i = Some l" and "l_Status l \<noteq> LeaseStatusRevoked" and "lease_json_ok (l\<lparr>l_UpdatedAt := re_clock env (Suc n)\<rparr>)"
  obtains s' where "RevokeLease env i s = (Inr (), s')"
proof -
  have i: "i \<noteq> []" "l_ID l = i" using view_kv(2) [OF assms(1,2)] by auto
  have ne: "(i = []) = False" "(l_Status l = LeaseStatusRevoked) = False" using assms(3) i by simp_all
  have j: "lease_json_ok (l\<lparr>l_Status := LeaseStatusRevoked, l_UpdatedAt := re_clock env (Suc n)\<rparr>)"
    using assms(4) by (simp add: lease_json_ok_def)
  have "wp (RevokeLease env i) (\<lambda>r s'. r = Inr ()) s"
    unfolding RevokeLease_def ne if_False
  proof (rule wp_eff [OF eff_get [OF assms(1,2)]], unfold ne if_False, rule wp_eff [OF eff_now], assumption, goal_cases)
    case (1 s1 s2)
    show ?case
      by (rule wp_eff [OF eff_update [OF 1(2)]], simp add: i assms(2), simp add: j, erule eff_tail) simp
  qed
  then show thesis unfolding wp_def by (metis that prod.collapse)
qed

section \<open>A concrete instance\<close>

definition list_badger :: "(ustring \<times> db_value) list badger" where
  "list_badger = \<lparr>kv_get = map_of, kv_set = \<lambda>db k v. (k, v) # db, kv_delete = \<lambda>db k. filter (\<lambda>kv. fst kv \<noteq> k) db,
     kv_seek = \<lambda>db k. map (\<lambda>k'. (k', the (map_of db k'))) (sort (remdups (filter ((\<le>) k) (map fst db))))\<rparr>"

lemma list_badger_ok: "badger_ok list_badger"
proof -
  have "map_of (filter (\<lambda>kv. fst kv \<noteq> k) db) = (map_of db)(k := None)" for k and db :: "(ustring \<times> db_value) list"
    by (induction db) (auto simp: fun_eq_iff)
  moreover have "sorted_wrt (<) (sort (remdups xs))" for xs :: "ustring list"
    by (simp add: strict_sorted_iff)
  moreover have "(\<lambda>k'. (k', the (map_of db k'))) ` {k' \<in> fst ` set db. k \<le> k'} = {(k', v). k \<le> k' \<and> map_of db k' = Some v}"
    for k and db :: "(ustring \<times> db_value) list"
    unfolding dom_map_of_conv_image_fst [symmetric] by (auto simp: dom_def image_iff)
  ultimately show ?thesis by (simp add: badger_ok_def list_badger_def comp_def set_filter)
qed

definition sample_lib :: flr_lib where
  "sample_lib = \<lparr>sha3_256 = \<lambda>x. take 32 (x @ replicate 32 0), json_lease = \<lambda>c. Inr (utf8 (cl_ID c)), json_token = \<lambda>c. Inr (utf8 (ct_LeaseID c)),
     json_commitment = \<lambda>c. Inr (123 # to_be_bytes 4 (cc_LeaseCount c)), ecdsa_public = \<lambda>k. k,
     ecdsa_sign = \<lambda>k d n. if length d = 32 then Inr (nat_of_be d, 1) else Inl [],
     ecdsa_verify = \<lambda>k d r s. length d = 32 \<and> be_of_nat 32 r = d, marshal_pkix = \<lambda>k. Inr (replicate k 1),
     parse_pkix = \<lambda>d. Inr (EcdsaKey (length d)), pem_encode = \<lambda>d. 45 # d, pem_decode = \<lambda>d. case d of [] \<Rightarrow> None | c # d' \<Rightarrow> Some d'\<rparr>"

lemma sample_lib_ok: "ecdsa_correct sample_lib" "keys_correct sample_lib" "json_correct sample_lib"
  "ecdsa_sign sample_lib k d n = Inr (r, q) \<Longrightarrow> ecdsa_verify sample_lib (ecdsa_public sample_lib k) d' r q \<Longrightarrow> d = d'" "sha3_sized sample_lib"
proof -
  have n: "nat_of_be d < 2 ^ 256" if "length d = 32" for d
    using nat_of_be_less [of d] that by simp
  have i: "be_of_nat 32 (nat_of_be d) = d" if "length d = 32" for d using be_of_nat_of_be [of d] that by simp
  show "ecdsa_correct sample_lib"
    by (auto simp: ecdsa_correct_def sample_lib_def n [simplified] i simp del: be_of_nat.simps split: if_splits)
  show "keys_correct sample_lib" by (simp add: keys_correct_def sample_lib_def)
  have "a = b" if "to_be_bytes 4 a = to_be_bytes 4 b" for a b :: i32
    using that be_of_nat_inj [of 4 "unat a" "unat b"] unsigned_less [of a, where ?'a = nat] unsigned_less [of b, where ?'a = nat] by (simp add: to_be_bytes_def word_unat_eq_iff del: be_of_nat.simps)
  then show "json_correct sample_lib" by (auto simp: json_correct_def sample_lib_def)
  show "ecdsa_sign sample_lib k d n = Inr (r, q) \<Longrightarrow> ecdsa_verify sample_lib (ecdsa_public sample_lib k) d' r q \<Longrightarrow> d = d'"
    by (auto simp: sample_lib_def i simp del: be_of_nat.simps split: if_splits)
  show "sha3_sized sample_lib" by (auto simp: sha3_sized_def sample_lib_def)
qed

text \<open>The same with a hash that does not collide.\<close>

definition light_lib :: flr_lib where
  "light_lib = sample_lib\<lparr>sha3_256 := \<lambda>x. x, ecdsa_sign := \<lambda>k d n. Inr (1, 1), ecdsa_verify := \<lambda>k d r s. True\<rparr>"

lemma light_lib_ok: "ecdsa_correct light_lib" "keys_correct light_lib"
  using sample_lib_ok(2) by (simp_all add: light_lib_def ecdsa_correct_def keys_correct_def)

definition registry_env :: "flr_lib \<Rightarrow> (ustring \<times> db_value) list reg_env" where
  "registry_env lib = \<lparr>re_bd = list_badger, re_lib = lib, re_json_audit = \<lambda>_. Inr [123],
     re_crypto = \<lparr>cr_operatorID = ulit ''op'', cr_privateKey = Some 7\<rparr>, re_operatorID = ulit ''op'',
     re_clock = (\<lambda>n. int n), re_uuid = (\<lambda>n. show_nat n), re_nonce = (\<lambda>n. Inr [of_nat n])\<rparr>"

definition fresh :: "(ustring \<times> db_value) list registry" where
  "fresh = \<lparr>rg_db = [], rg_blockHeight = 0, rg_ticks = 0, rg_draws = 0, rg_io = []\<rparr>"

definition sample_wavelength :: wavelength where
  "sample_wavelength = \<lparr>wl_LambdaNm = fp_lit f64 155012 100, wl_ChannelNum = 34, wl_Band = BandCBand, wl_GridGHz = fp_lit f64 100 1\<rparr>"

lemma sample_facts:
  "badger_ok (re_bd (registry_env lib))" "mono (re_clock (registry_env lib))" "kv_get (re_bd (registry_env lib)) (rg_db fresh) k = None"
  "stands (registry_env lib) Map.empty 0 0 fresh" "re_operatorID (registry_env lib) = ulit ''op''" "re_operatorID (registry_env lib) \<noteq> []"
  "re_clock (registry_env lib) n = int n" "re_uuid (registry_env lib) n = show_nat n" "re_lib (registry_env lib) = lib" "rg_io fresh = []"
proof -
  show "badger_ok (re_bd (registry_env lib))" "kv_get (re_bd (registry_env lib)) (rg_db fresh) k = None"
    by (simp_all add: registry_env_def list_badger_ok) (simp add: list_badger_def fresh_def)
  show "stands (registry_env lib) Map.empty 0 0 fresh"
    by (simp add: stands_def ready_def lease_view_def lease_typed_def registry_env_def list_badger_ok fresh_def fun_eq_iff) (simp add: list_badger_def)
qed (simp_all add: registry_env_def mono_def fresh_def ulit_def)

lemma sample_sign_digest:
  assumes "lib = sample_lib \<or> lib = light_lib"
  shows "\<exists>sig. sign_digest lib \<lparr>cr_operatorID = i, cr_privateKey = Some 7\<rparr> data draw = Inr sig"
proof -
  have m: "\<exists>sig. marshalSignature r 1 = Inr sig" if "r < 2 ^ 256" for r using that by (simp add: marshalSignature_def)
  have l: "length (take 32 (d @ replicate 32 (0 :: u8))) = 32" for d by (simp del: take_append)
  have n: "nat_of_be (take 32 (d @ replicate 32 0)) < 2 ^ 256" for d
    using nat_of_be_less [of "take 32 (d @ replicate 32 0)"] unfolding l by (simp del: take_append)
  have "\<exists>r. ecdsa_sign lib 7 (sha3_256 lib data) draw = Inr (r, 1) \<and> r < 2 ^ 256"
    using assms
  proof
    assume "lib = sample_lib"
    then have "ecdsa_sign lib 7 (sha3_256 lib data) draw = Inr (nat_of_be (take 32 (data @ replicate 32 0)), 1)"
      by (simp add: sample_lib_def l del: take_append)
    with n show ?thesis by blast
  qed (simp add: light_lib_def)
  with m show ?thesis by (auto simp: sign_digest_def)
qed

lemma sample_signs:
  assumes lib: "lib = sample_lib \<or> lib = light_lib"
  shows "signs (registry_env lib)"
proof -
  have "\<exists>data. json_token lib c = Inr data" for c using lib by (auto simp: sample_lib_def light_lib_def)
  with sample_sign_digest [OF lib] have st: "\<exists>sig. signToken lib \<lparr>cr_operatorID = i, cr_privateKey = Some 7\<rparr> token draw = Inr sig" for i token draw
    unfolding signToken_def by (metis map_err_simps(2) try_bind_simps(2))
  show ?thesis
    unfolding signs_def
  proof (intro allI)
    fix l k now draw
    show "\<exists>token. GenerateLeaseToken (re_lib (registry_env lib)) (re_crypto (registry_env lib)) l (re_nonce (registry_env lib) k) now draw = Inr token"
      unfolding GenerateLeaseToken_def registry_env_def Let_def using st by (auto simp: res)
  qed
qed

lemma year_small:
  assumes "0 \<le> t" and "t < 1000"
  shows "year_ok t"
proof -
  have d: "t div 86400000000000 = 0" by (rule div_pos_pos_trivial) (use assms in linarith)+
  have "case civil 0 of (y, _, _) \<Rightarrow> 0 \<le> y \<and> y \<le> 9999" by code_simp
  then show ?thesis unfolding year_ok_def d .
qed

lemma sample_wavelength_json: "wavelength_json_ok (Some sample_wavelength)"
  by code_simp

lemma sample_allocate:
  assumes "stands (registry_env lib) V n d s" and "lib = sample_lib \<or> lib = light_lib" and "V (show_nat d) = None" and "0 < dur" and "int n + dur < 1000"
    and "\<forall>i l. V i = Some l \<longrightarrow> \<not> holds (ulit ''op'') (int (Suc n)) (ToKey sample_wavelength) l"
  obtains h token s' l where "AllocateLease (registry_env lib) (Some sample_wavelength) (ulit ''e'') dur s = (Inr (l, token), s')"
    "stands (registry_env lib) (V(show_nat d \<mapsto> l)) (n + 4) (d + 3) s'" "l = leased (registry_env lib) d (int n) sample_wavelength (ulit ''e'') dur h"
proof (rule allocate_succeeds [OF assms(1) sample_signs [OF assms(2)], of "ulit ''e''" dur sample_wavelength])
  show "ulit ''e'' \<noteq> []" by (simp add: ulit_def)
  show "re_operatorID (registry_env lib) \<noteq> []" by (rule sample_facts(6))
qed (use assms(3-6) that sample_wavelength_json in \<open>simp_all add: sample_facts year_small\<close>)

text \<open>The runs the witnesses use: one allocation, and its renewal.\<close>

lemma sample_renew:
  assumes "stands (registry_env lib) V n d s" and "lib = sample_lib \<or> lib = light_lib" and "V i = Some l" and "0 < ext" "0 \<le> l_EndTime l" "l_EndTime l + ext < 1000" "int n < 990"
    and "l = leased (registry_env lib) d0 t0 sample_wavelength ep dur h" "0 \<le> t0" "t0 < 1000"
  obtains h' token s' l' where "RenewLease (registry_env lib) i ext s = (Inr (l', token), s')"
    "l' = l\<lparr>l_EndTime := l_EndTime l + ext, l_TokenHash := h', l_UpdatedAt := int (Suc (Suc n))\<rparr>" "stands (registry_env lib) (V(i \<mapsto> l')) (n + 4) (d + 2) s'"
proof (rule renew_succeeds [OF assms(1) sample_signs [OF assms(2)] assms(4,3)])
  have "year_ok (l_EndTime l + ext)" "year_ok t0" "year_ok (int (Suc (Suc n)))" using assms(4-7,9,10) by (intro year_small; linarith)+
  then show "lease_json_ok (l\<lparr>l_EndTime := l_EndTime l + ext, l_UpdatedAt := re_clock (registry_env lib) (Suc (Suc n))\<rparr>)"
    using sample_wavelength_json unfolding lease_json_ok_def sample_facts assms(8) leased_def by simp
  show "l_Status l = LeaseStatusActive" "l_Wavelength l = Some sample_wavelength" using assms(8) by (simp_all add: leased_def)
  fix h' token s' l'
  assume "RenewLease (registry_env lib) i ext s = (Inr (l', token), s')"
    and "l' = l\<lparr>l_EndTime := l_EndTime l + ext, l_TokenHash := h', l_UpdatedAt := re_clock (registry_env lib) (Suc (Suc n))\<rparr>"
    and "stands (registry_env lib) (V(i \<mapsto> l')) (n + 4) (d + 2) s'"
  then show thesis unfolding sample_facts by (rule that)
qed

lemma leased_fields:
  "l_EndTime (leased env d now w ep dur h) = now + dur" "l_Status (leased env d now w ep dur h) = LeaseStatusActive"
  "l_OperatorID (leased env d now w ep dur h) = re_operatorID env" "l_Wavelength (leased env d now w ep dur h) = Some w"
  "l_ID (leased env d now w ep dur h) = re_uuid env d"
  by (simp_all add: leased_def)

theorem registry_types_witness:
  "\<exists>ls. fst (ListLeases (registry_env light_lib) (active_filter (registry_env light_lib))
        (fold (reg_step (registry_env light_lib)) [RAllocate (Some sample_wavelength) (ulit ''e'') 20] fresh)) = Inr ls
     \<and> l_ID ` set ls = {ulit ''0''}"
proof -
  let ?env = "registry_env light_lib"
  obtain h token s l where a: "AllocateLease ?env (Some sample_wavelength) (ulit ''e'') 20 fresh = (Inr (l, token), s)"
    and st: "stands ?env [show_nat 0 \<mapsto> l] (0 + 4) (0 + 3) s" and l: "l = leased ?env 0 (int 0) sample_wavelength (ulit ''e'') 20 h"
    by (rule sample_allocate [OF sample_facts(4), of light_lib 20]) simp_all
  have f: "fold (reg_step ?env) [RAllocate (Some sample_wavelength) (ulit ''e'') 20] fresh = s" by (simp add: a)
  have v: "lease_view ?env s = [show_nat 0 \<mapsto> l]" "True \<notin> set (rg_io s)" using st by (simp_all add: stands_def ready_def)
  obtain ls where ls: "fst (ListLeases ?env (active_filter ?env) s) = Inr ls" "set ls = {m. lease_view ?env s (l_ID m) = Some m \<and> \<not> filter_skips (active_filter ?env) m}"
    using registry_types [of ?env fresh "[RAllocate (Some sample_wavelength) (ulit ''e'') 20]" "active_filter ?env", OF sample_facts(1)] sample_facts(3) v(2)
    unfolding f by blast
  have z: "show_nat 0 = ulit ''0''" by (simp add: ulit_def show_nat.simps [of 0])
  have "set ls = {l}"
    unfolding ls(2) v(1) by (auto simp: l leased_fields sample_facts filter_skips_def active_filter_def split: if_splits)
  with ls(1) l z show ?thesis unfolding f by (auto simp: leased_fields sample_facts)
qed

theorem no_double_allocation_witness:
  "\<exists>!i. \<exists>l. lease_view (registry_env light_lib) (fold (reg_step (registry_env light_lib))
      [RAllocate (Some sample_wavelength) (ulit ''e'') 20, RRenew (show_nat 0) 100] fresh) i = Some l
    \<and> holds (ulit ''op'') 50 (ToKey sample_wavelength) l"
proof -
  let ?env = "registry_env light_lib" and ?ops = "[RAllocate (Some sample_wavelength) (ulit ''e'') 20, RRenew (show_nat 0) 100]"
  obtain h token s l where a: "AllocateLease ?env (Some sample_wavelength) (ulit ''e'') 20 fresh = (Inr (l, token), s)"
    and st: "stands ?env [show_nat 0 \<mapsto> l] (0 + 4) (0 + 3) s" and l: "l = leased ?env 0 (int 0) sample_wavelength (ulit ''e'') 20 h"
    by (rule sample_allocate [OF sample_facts(4), of light_lib 20]) simp_all
  obtain h' token' s' l' where r: "RenewLease ?env (show_nat 0) 100 s = (Inr (l', token'), s')"
    and l': "l' = l\<lparr>l_EndTime := l_EndTime l + 100, l_TokenHash := h', l_UpdatedAt := int (Suc (Suc (0 + 4)))\<rparr>"
    and st': "stands ?env ([show_nat 0 \<mapsto> l](show_nat 0 \<mapsto> l')) (0 + 4 + 4) (0 + 3 + 2) s'"
    by (rule sample_renew [where ext = 100 and i = "show_nat 0", OF st _ _ _ _ _ _ l]) (simp_all add: l leased_fields)
  have f: "fold (reg_step ?env) ?ops fresh = s'" by (simp add: a r)
  have v: "lease_view ?env s' (show_nat 0) = Some l'" "rg_ticks s' = 8" and s: "lease_view ?env s (show_nat 0) = Some l" "rg_ticks s = 4"
    using st st' by (simp_all add: stands_def)
  have t: "all_on_time ?env ?ops fresh" by (simp add: a s l leased_fields sample_facts)
  have c: "re_clock ?env (rg_ticks (fold (reg_step ?env) ?ops fresh)) \<le> 50" unfolding f v(2) by (simp add: sample_facts)
  have ho: "holds (ulit ''op'') 50 (ToKey sample_wavelength) l'" by (simp add: holds_def l' l leased_fields sample_facts)
  have "True \<notin> set (rg_io fresh)" by (simp add: sample_facts)
  note u = no_double_allocation [of ?env fresh ?ops 50, OF sample_facts(1) _ sample_facts(2) this t c, unfolded sample_facts(5) f]
  show ?thesis unfolding f using v(1) ho u sample_facts(3) by blast
qed

theorem late_renewal_double_allocation_witness:
  "\<exists>s i j l l'. i \<noteq> j \<and> lease_view (registry_env light_lib) s i = Some l \<and> lease_view (registry_env light_lib) s j = Some l'
    \<and> holds (ulit ''op'') 20 (ToKey sample_wavelength) l \<and> holds (ulit ''op'') 20 (ToKey sample_wavelength) l'"
proof -
  let ?env = "registry_env light_lib"
  obtain h token s l where st: "stands ?env [show_nat 0 \<mapsto> l] (0 + 4) (0 + 3) s" and l: "l = leased ?env 0 (int 0) sample_wavelength (ulit ''e'') 1 h"
    by (rule sample_allocate [OF sample_facts(4), of light_lib 1]) simp_all
  obtain h' token' s' l' where a: "AllocateLease ?env (Some sample_wavelength) (ulit ''e'') 50 s = (Inr (l', token'), s')"
    and st': "stands ?env ([show_nat 0 \<mapsto> l](show_nat (0 + 3) \<mapsto> l')) (0 + 4 + 4) (0 + 3 + 3) s'"
    and l': "l' = leased ?env (0 + 3) (int (0 + 4)) sample_wavelength (ulit ''e'') 50 h'"
    by (rule sample_allocate [OF st, of 50]) (simp_all add: show_nat_inj l leased_fields holds_def)
  obtain token2 s2 l2 where r: "RenewLease ?env (show_nat 0) 100 s' = (Inr (l2, token2), s2)"
    by (rule sample_renew [where ext = 100 and i = "show_nat 0", OF st' _ _ _ _ _ _ l]) (simp_all add: show_nat_inj l leased_fields)
  have "ready ?env s" "lease_view ?env s (show_nat 0) = Some l" using st by (simp_all add: stands_def)
  from late_renewal_double_allocation [OF this, of sample_wavelength _ _ l' token' s', OF _ _ a r, of 20] show ?thesis
    by (simp add: l l' leased_fields sample_facts) blast
qed

lemma utf8_append: "utf8 (a @ b) = utf8 a @ utf8 b" "utf8 (c # b) = utf8_char c @ utf8 b"
  by (simp_all add: utf8_def)

lemma ends_differ: "utf8 (RFC3339Nano 20) \<noteq> utf8 (RFC3339Nano 120)"
  by code_simp

theorem token_lifecycle_witness:
  "\<exists>s1 s2 s3 token token'. fst (VerifyLease (registry_env light_lib) (Some token) s1) = Inr ()
    \<and> fst (VerifyLease (registry_env light_lib) (Some token') s2) = Inr ()
    \<and> \<not> is_ok (fst (VerifyLease (registry_env light_lib) (Some token) s2)) \<and> \<not> is_ok (fst (VerifyLease (registry_env light_lib) (Some token') s3))"
proof -
  let ?env = "registry_env light_lib"
  obtain h token s l where a: "AllocateLease ?env (Some sample_wavelength) (ulit ''e'') 20 fresh = (Inr (l, token), s)"
    and st: "stands ?env [show_nat 0 \<mapsto> l] (0 + 4) (0 + 3) s" and l: "l = leased ?env 0 (int 0) sample_wavelength (ulit ''e'') 20 h"
    by (rule sample_allocate [OF sample_facts(4), of light_lib 20]) simp_all
  obtain h' token' s' l' where r: "RenewLease ?env (show_nat 0) 100 s = (Inr (l', token'), s')"
    and l': "l' = l\<lparr>l_EndTime := l_EndTime l + 100, l_TokenHash := h', l_UpdatedAt := int (Suc (Suc (0 + 4)))\<rparr>"
    and st': "stands ?env ([show_nat 0 \<mapsto> l](show_nat 0 \<mapsto> l')) (0 + 4 + 4) (0 + 3 + 2) s'"
    by (rule sample_renew [where ext = 100 and i = "show_nat 0", OF st _ _ _ _ _ _ l]) (simp_all add: l leased_fields)
  have "year_ok 0" "year_ok 120" "year_ok 9" by (intro year_small; simp)+
  then have "lease_json_ok (l'\<lparr>l_UpdatedAt := re_clock ?env (Suc (0 + 4 + 4))\<rparr>)"
    using sample_wavelength_json unfolding lease_json_ok_def sample_facts l' l leased_def by simp
  then obtain s3 where v: "RevokeLease ?env (show_nat 0) s' = (Inr (), s3)"
    by (rule revoke_succeeds [OF st', of "show_nat 0" l', rotated 2]) (simp_all add: l' l leased_fields status_defs)
  have rd: "ready ?env fresh" "ready ?env s" using sample_facts(4) [of light_lib] st by (simp_all add: stands_def)
  have "issued ?env l token" "issued ?env l' token'"
    using resultD [OF Allocate_result [OF rd(1)] a] resultD [OF Renew_result [OF rd(2)] r] by (auto simp: allocated_def renewed_def)
  from issued_fields [OF this(1)] issued_fields [OF this(2)]
  have "utf8 (token_text token sample_wavelength) \<noteq> utf8 (token_text token' sample_wavelength)"
    using ends_differ by (simp add: token_text_def utf8_append l l' leased_def)
  then have hash: "sha3_256 light_lib (utf8 (token_text token sample_wavelength)) = sha3_256 light_lib (utf8 (token_text token' sample_wavelength))
      \<longrightarrow> token_text token sample_wavelength = token_text token' sample_wavelength" by (simp add: light_lib_def)
  have i: "l_ID l = show_nat 0" and t: "rg_ticks s = 4" "rg_ticks s' = 8" using st st' by (simp_all add: l leased_fields sample_facts stands_def)
  note th = token_lifecycle [OF rd(1), unfolded sample_facts, OF light_lib_ok sample_facts(2) [unfolded sample_facts] a, unfolded i, OF r v hash]
  have "0 \<le> l_EndTime l" "re_clock ?env (Suc (rg_ticks s')) \<le> l_EndTime l'" "re_clock ?env (Suc (rg_ticks s)) \<le> l_EndTime l"
    unfolding t by (simp_all add: l l' leased_fields sample_facts)
  from th [OF this [unfolded sample_facts]] show ?thesis by blast
qed

definition held_lease :: lease where
  "held_lease = leased (registry_env sample_lib) 0 0 sample_wavelength (ulit ''e'') 20 []"

theorem merkle_membership_witness:
  "\<exists>t p. BuildMerkleTree sample_lib [held_lease] = Some t \<and> findMerkleProof t (GetLeaseHash sample_lib (Some held_lease)) = Some p
    \<and> VerifyMerkleProof sample_lib (GetLeaseHash sample_lib (Some held_lease)) (mn_Hash t) p"
  using merkle_membership [OF sample_lib_ok(5), of "[held_lease]"] by (metis list.set_intros(1))

theorem nil_lease_proof_accepted_witness:
  "\<exists>t p. BuildMerkleTree sample_lib [held_lease, held_lease, held_lease] = Some t \<and> VerifyProofOfInvalidity sample_lib
    (Some \<lparr>poi_Type = InvalidityDoubleAllocation, poi_LeaseA = None, poi_LeaseB = None,
       poi_Commitment = Some \<lparr>mc_OperatorID = ulit ''op'', mc_RootHash = [], mc_Timestamp = 0, mc_Signature = [], mc_LeaseCount = 3, mc_BlockHeight = 1\<rparr>,
       poi_MerkleProof = p, poi_Timestamp = 0\<rparr>) (mn_Hash t)"
proof (rule nil_lease_proof_accepted [OF sample_lib_ok(5)])
  have "3 < target_count 3 1" by code_simp
  then show "length [held_lease, held_lease, held_lease] < target_count (length [held_lease, held_lease, held_lease]) 1"
    by (simp add: numeral_3_eq_3)
qed

text \<open>A registry with one lease, and a commitment over it.\<close>

definition one_lease :: "(ustring \<times> db_value) list registry" where
  "one_lease = fresh\<lparr>rg_db := [(prefixLease @ show_nat 0, VLease held_lease)]\<rparr>"

lemma one_lease_ready: "ready (registry_env sample_lib) one_lease"
proof -
  have "stands (registry_env sample_lib) (Map.empty(l_ID held_lease \<mapsto> held_lease)) 0 0
      (fresh\<lparr>rg_db := kv_set (re_bd (registry_env sample_lib)) (rg_db fresh) (prefixLease @ l_ID held_lease) (VLease held_lease)\<rparr>)"
    by (rule stands_db [OF sample_facts(4)]) (simp add: held_lease_def leased_fields sample_facts)
  then show ?thesis
    by (simp add: stands_def one_lease_def held_lease_def leased_fields sample_facts) (simp add: registry_env_def list_badger_def fresh_def)
qed

lemma one_lease_list:
  "ListLeases (registry_env sample_lib) (active_filter (registry_env sample_lib)) one_lease = (Inr [held_lease], one_lease)"
proof -
  have "kv_seek (re_bd (registry_env sample_lib)) (rg_db one_lease) prefixLease = [(prefixLease @ show_nat 0, VLease held_lease)]"
    using prefix_le_append [of prefixLease "show_nat 0"] by (simp add: one_lease_def registry_env_def list_badger_def)
  moreover have "\<not> filter_skips (active_filter (registry_env sample_lib)) held_lease"
    by (simp add: filter_skips_def active_filter_def held_lease_def leased_fields)
  moreover have "rg_io one_lease = []" by (simp add: one_lease_def fresh_def)
  ultimately show ?thesis by (simp add: ListLeases_def act_bind_def act_txn_def)
qed

lemma audit_io: "rg_io s = [] \<Longrightarrow> rg_io (snd (appendAuditLog env what i s)) = []"
  by (auto simp: appendAuditLog_def AppendAuditLog_def act_bind_def act_txn_def Let_def split: sum.split)

lemma sample_commit:
  obtains c s' where "CommitMerkleTree (registry_env sample_lib) one_lease = (Inr c, s')" "rg_io s' = []" "mc_LeaseCount c = 1"
proof -
  let ?env = "registry_env sample_lib"
  obtain t d where t: "BuildMerkleTree sample_lib [held_lease] = Some t" "merkle_ok sample_lib d t"
    by (rule merkle_tree_shape [OF sample_lib_ok(5)])
  have h: "mn_Hash t \<noteq> []" using merkle_ok_hash [OF sample_lib_ok(5) t(2)] by fastforce
  have j: "json_commitment sample_lib x = Inr (123 # to_be_bytes 4 (cc_LeaseCount x))" for x by (simp add: sample_lib_def)
  have sd: "\<exists>sig. sign_digest sample_lib \<lparr>cr_operatorID = ulit ''op'', cr_privateKey = Some 7\<rparr> data draw = Inr sig" for data draw
    by (rule sample_sign_digest) simp
  obtain sig where g: "sign_digest sample_lib \<lparr>cr_operatorID = ulit ''op'', cr_privateKey = Some 7\<rparr> (123 # to_be_bytes 4 (0 :: i32)) 0 = Inr sig"
    using sd by blast
  define c where "c = \<lparr>mc_OperatorID = ulit ''op'', mc_RootHash = mn_Hash t, mc_Timestamp = 0, mc_Signature = sig, mc_LeaseCount = 0, mc_BlockHeight = 1\<rparr>"
  have c: "SignMerkleCommitment sample_lib \<lparr>cr_operatorID = ulit ''op'', cr_privateKey = Some 7\<rparr> (mn_Hash t) 1 0 0 = Inr c"
    "mc_OperatorID c = ulit ''op''" "mc_Timestamp c = 0"
    using h by (simp_all add: SignMerkleCommitment_def Sign_def Let_def j commitment_fields_def g c_def)
  have s: "rg_io one_lease = []" "rg_blockHeight one_lease = 0" "rg_ticks one_lease = 0" "rg_draws one_lease = 0"
    "re_crypto ?env = \<lparr>cr_operatorID = ulit ''op'', cr_privateKey = Some 7\<rparr>" "ulit ''op'' \<noteq> []"
    by (simp_all add: one_lease_def fresh_def registry_env_def ulit_def)
  let ?r = "CommitMerkleTree ?env one_lease"
  have "fst ?r = Inr (c\<lparr>mc_LeaseCount := 1\<rparr>) \<and> rg_io (snd ?r) = []"
    using year_small [of 0]
    by (simp add: CommitMerkleTree_def Let_def act_bind_def act_err_def one_lease_list build_tree_def t sample_facts s c SaveCommitment_def marshal_def act_txn_def audit_io)
  then show thesis by (intro that [of "c\<lparr>mc_LeaseCount := 1\<rparr>" "snd ?r"]) (simp_all add: prod_eq_iff)
qed

theorem commitment_signature_witness:
  "\<exists>c s' pk. CommitMerkleTree (registry_env sample_lib) one_lease = (Inr c, s') \<and> mc_LeaseCount c = 1
    \<and> GetPublicKey sample_lib (re_crypto (registry_env sample_lib)) = Inr pk \<and> \<not> is_ok (VerifyMerkleCommitment sample_lib (Some c) pk)"
proof -
  let ?env = "registry_env sample_lib"
  obtain c s' where c: "CommitMerkleTree ?env one_lease = (Inr c, s')" "rg_io s' = []" "mc_LeaseCount c = 1" by (rule sample_commit)
  obtain pk where pk: "GetPublicKey sample_lib (re_crypto ?env) = Inr pk"
    by (rule own_key [OF sample_lib_ok(2), of "re_crypto ?env"]) (simp_all add: registry_env_def)
  have j: "json_commitment sample_lib (commitment_fields x) = Inr (123 # to_be_bytes 4 (mc_LeaseCount x))" for x
    by (simp add: sample_lib_def commitment_fields_def)
  have o: "cr_operatorID (re_crypto ?env) = re_operatorID ?env" "True \<notin> set (rg_io s')" using c(2) by (simp_all add: registry_env_def)
  have z: "sha3_256 sample_lib (123 # to_be_bytes 4 (0 :: i32)) \<noteq> sha3_256 sample_lib (123 # to_be_bytes 4 (1 :: i32))"
    using be_of_nat_inj [of 4 0 1] by (auto simp: sample_lib_def to_be_bytes_def simp del: be_of_nat.simps)
  obtain k draw r q where "ecdsa_sign sample_lib k (sha3_256 sample_lib (123 # to_be_bytes 4 (0 :: i32))) draw = Inr (r, q)"
    and v: "is_ok (VerifyMerkleCommitment sample_lib (Some c) pk)
      \<longleftrightarrow> ecdsa_verify sample_lib (ecdsa_public sample_lib k) (sha3_256 sample_lib (123 # to_be_bytes 4 (1 :: i32))) r q"
    using commitment_signature [OF one_lease_ready, unfolded sample_facts, OF sample_lib_ok(1-3) c(1) pk j o [unfolded sample_facts]] c(3)
    by (auto simp: j)
  from sample_lib_ok(4) [OF this(1)] z have "\<not> is_ok (VerifyMerkleCommitment sample_lib (Some c) pk)" unfolding v by blast
  with c pk show ?thesis by auto
qed

end
