(* ===== verification/Spec2Isabelle.thy ===== *)
theory Spec2Isabelle
  imports Fabric FlrClient Endpoint Loopback HsNet Transport ReplayCache CsrRtl Rob ConflictEngine RegistryRuns
begin

text \<open>
  Verification of the OTAP reference implementation: an optical transport whose frames, the
  Transients, carry address, authentication, schema and sequence in physical dimensions of light,
  with the control plane, the host queues and the session layer around it (src/crates, Rust), the
  register block and reorder buffer of the device (src/rtl) and the core of the registry that
  leases wavelengths (src/flr, Go).

  \<^bold>\<open>How the parts interact.\<close> The registry client (otap-flr-client) programs a register file
  (otap-csr) from a registry listing. The software driver (otap-obg) is configured from that
  register file; it takes work requests from a send queue, encodes each with the codec
  (otap-codec, over otap-schema and otap-crypto) into a Transient (otap-core), and decodes what
  arrives into a completion queue. The fabric (otap-fabric) joins two drivers by simulated
  channels (otap-sim). Where a device replaces the driver, payloads go through a ring in mapped
  memory (otap-modq), and modq_backend.rs hides which of the two is used. Independently,
  luxstream-otap-d3 authenticates two hosts to each other and seals frames between them. The
  device has the same registers in hardware (otap_csr_block.sv). The registry engine allocates,
  renews, revokes and expires leases in a key-value store, hands out signed tokens and commits to
  its leases by Merkle trees; a bit-plane index answers conflict queries.

  \<^bold>\<open>Conventions.\<close> A Rust \<open>Result\<close> is a sum with the error in \<open>Inl\<close>; \<open>?\<close> is \<open>try_bind\<close>. A panic is
  an \<open>Inl\<close> of its own, or \<open>None\<close>, never an arbitrary value. Integers are words of their width
  wherever the code wraps or truncates. \<open>usize\<close> is a natural number except in the ring capacity,
  where it wraps. Methods that mutate take the state and return it. \<open>f32\<close> and \<open>f64\<close> arithmetic is
  IEEE 754 rounding, computed exactly. Packages outside src/ are arguments: the mathematical
  functions (\<open>libm\<close>), HMAC and SHA-256, Ed25519 and P-256, HTTP and JSON (\<open>env_get\<close> and its
  companions), the operating system calls behind a mapping, the cryptography and JSON of the
  registry (\<open>flr_lib\<close>) and its database (\<open>badger\<close>). What the code relies on about them is a named
  hypothesis (\<open>ed_correct\<close>, \<open>mmap_sized\<close>, \<open>badger_ok\<close> and the like), and the witness of each theorem
  with such a hypothesis has a concrete instance. Strings of Go are lists of code points,
  instants are nanoseconds since 1970.

  \<^bold>\<open>The theories.\<close>

  \<^item> \<open>Prelude\<close>: integer and byte names, results, big-endian conversion. \<open>IeeeFloat\<close>, \<open>F32Near\<close>:
    floating point and the propagation of its rounding errors. \<open>Wire\<close>, \<open>WordStore\<close>, \<open>Queue\<close>: the
    contracts (locales) of a fixed-size wire format, of a space of registers and of the two
    kinds of queue, each interpreted on the functions below.
  \<^item> \<open>Core\<close> (otap-core), \<open>Schema\<close> (otap-schema): dimensions, Transient, the three schemas and the
    dispatch by OAM mode. Round trips come from \<open>wire_codec\<close>; the errors of \<open>any_decode\<close> are
    characterised completely, and so is what re-encoding an accepted payload returns.
  \<^item> \<open>Crypto\<close> (otap-crypto) with \<open>Stokes\<close>, \<open>Winding\<close>, \<open>Authentication\<close>: derivation and
    verification of trajectories; an honest trajectory is accepted despite rounding,
    verification always returns although the winding number has unbounded \<open>while\<close> loops, and the
    topological mode is weaker than documented.
  \<^item> \<open>Codec\<close> (otap-codec), \<open>Sim\<close> (otap-sim), \<open>Csr\<close> (otap-csr), \<open>Obg\<close> (otap-obg/src/lib.rs), \<open>Fabric\<close>
    (otap-fabric): the data path. The values of a session come back from the decoder, in order and
    authenticated; the effect of a channel is given bit by bit. The register file refines the
    configuration record its views read; the queues meet their contracts; a batch posted at one end of a clean link arrives
    complete and in order at the other.
  \<^item> \<open>FlrClient\<close> (otap-flr-client): requests, schema mapping, programming and the refresh loop; the
    whole configuration after a programming run, entries it does not touch included.
  \<^item> \<open>Bar\<close>, \<open>Ring\<close> (otap-modq bar.rs, ring.rs, lib.rs): byte-level memory, submission and
    completion. \<open>RingProtocol\<close> has the geometry of an opened queue, the outcome of a submission down to
    the bytes it leaves, and the transition system of host and device, with its invariant;
    \<open>Loopback\<close> the one with the simulated device of modq_loopback.rs. \<open>Endpoint\<close> is
    otap-obg/src/modq_backend.rs.
  \<^item> \<open>KeyDomain\<close>, \<open>Rpc\<close>, \<open>Handshake\<close>, \<open>D3Session\<close>, \<open>Transport\<close>, \<open>ReplayCache\<close> (the files of these
    names in luxstream-otap-d3): keys, checksum, handshake messages and state machines, sealed
    frames, the drivers over a byte stream with I/O failures, the replay cache over its file.
    \<open>HsNet\<close> runs handshake and frames under an active attacker who can forge no signature of an
    honest key: both agreement theorems, authenticity of frames, and what is not bound.
  \<^item> \<open>CsrRtl\<close> (rtl/otap_csr_map.svh, otap_csr_block.sv): the clocked register block equals the
    register file of \<open>Csr\<close> access by access. \<open>Rob\<close> (rtl/otap_rob_bitweave.v): the commit scan over bit
    planes finds the wanted packet, and the pipeline register makes it repeat and lose packets.
  \<^item> \<open>Strings\<close>, \<open>GoTime\<close>, \<open>Lease\<close> (flr models.go): texts, RFC 3339 times and the records of the
    registry. \<open>Bitweave\<close> and \<open>ConflictEngine\<close> (flr/internal/bitweave): the bit-plane index implements a
    list scanned linearly, the adapter a table of slots.
  \<^item> \<open>FlrCrypto\<close>, \<open>Merkle\<close> (flr/internal/crypto/engine.go): tokens, commitments, trees and proofs.
    \<open>LeaseStore\<close>, \<open>Registry\<close> (flr/internal/registry): store and engine as state-passing operations
    with a clock, randomness and failing transactions, frame, typing and weakest-precondition rules,
    and the transition system of the table of leases which every operation refines: the
    database stays well typed and no wavelength is allocated twice under the stated conditions.
    \<open>RegistryRuns\<close>: the life of a token, late renewal, commitments, and a concrete registry.

  \<^bold>\<open>Loops.\<close> There is no fuel. The loops of the winding number, the refresh loop and the wait of
  \<open>submit_unchecked\<close> are \<open>partial_function\<close>s, so that not returning is \<open>None\<close>, and the theorems on
  them state when they return. The wait of \<open>submit\<close> ends at its spin limit, which is its measure. Memory
  that the device changes during a wait is a function from the spin to its contents. The
  transition systems take a submission as one step: the device may complete slots and change
  registers between the steps.

  \<^bold>\<open>Not modelled.\<close> Of the registry: schemas, federation, audit reports, translation and the
  network interfaces, which are services around the modelled engine; loading of keys; the AVX-512
  build, whose assembly the build generates. The numerical experiments (src/stage-chronos, Python)
  are a separate program. The binaries of otap-cli and modq_bench.rs print and measure time; of
  modq_loopback.rs only the simulated device is modelled. Left out of the modelled parts are tests,
  benchmarks, the texts of derived \<open>Debug\<close> output, zeroising of secrets, unmapping on drop, the
  asynchronous runtime and sleeping, locks (an operation of the registry holds its lock throughout
  and is one step), the weak memory order of the processor (the fences of \<open>submit\<close> have no effect
  in an interleaving model) and timing, such as the constant time of comparisons.
\<close>

end
